(* ===== verification/Prelude.thy ===== *)
theory Prelude
  imports Main "HOL-Library.Sublist" "HOL-Library.Code_Target_Nat"
begin

text \<open>
  Shared vocabulary of the development.  A string is the list of its code numbers: UTF-16 code
  units for the JavaScript of \<open>src/qml/pages\<close>, Unicode scalar values for the Rust of
  \<open>src/core/src\<close>.  Both agree on ASCII, which is what all markup written by the program is
  made of.  The theory holds the string operations both languages use (prefix tests, search,
  splitting on a class of characters, replacing single characters), with the lemmas the
  components share.
\<close>

type_synonym str = "nat list"

named_theorems str_simps \<open>evaluation of string constants and character classes\<close>

text \<open>String literals: \<open>lit ''abc''\<close> is the code list of an ASCII literal.\<close>

primrec lit :: "string \<Rightarrow> str" where
  "lit [] = []"
| "lit (c # cs) = of_char c # lit cs"

lemma lit_eq_map: "lit s = map of_char s"
  by (induction s) auto

lemma length_lit [simp]: "length (lit s) = length s"
  by (simp add: lit_eq_map)

lemma lit_append [simp]: "lit (s @ t) = lit s @ lit t"
  by (simp add: lit_eq_map)

lemma lit_bound: "c \<in> set (lit s) \<Longrightarrow> c < 256"
proof -
  assume "c \<in> set (lit s)"
  then obtain d :: char where "c = of_char d"
    by (auto simp: lit_eq_map)
  then show "c < 256"
    by (metis char_of_nat nat_of_char_less_256)
qed

text \<open>Literals stay folded in proofs; \<open>str_simps\<close> evaluates them.\<close>

declare lit.simps [simp del, str_simps]

section \<open>Characters\<close>

definition is_digit :: "nat \<Rightarrow> bool" where
  "is_digit c \<longleftrightarrow> 48 \<le> c \<and> c \<le> 57"

definition is_lower :: "nat \<Rightarrow> bool" where
  "is_lower c \<longleftrightarrow> 97 \<le> c \<and> c \<le> 122"

definition is_upper :: "nat \<Rightarrow> bool" where
  "is_upper c \<longleftrightarrow> 65 \<le> c \<and> c \<le> 90"

definition is_alpha :: "nat \<Rightarrow> bool" where
  "is_alpha c \<longleftrightarrow> is_lower c \<or> is_upper c"

definition is_alnum :: "nat \<Rightarrow> bool" where
  "is_alnum c \<longleftrightarrow> is_alpha c \<or> is_digit c"

text \<open>ASCII lower case (\<open>to_ascii_lowercase\<close>); also what \<open>toLowerCase\<close> does on ASCII input.\<close>

definition ascii_lower :: "nat \<Rightarrow> nat" where
  "ascii_lower c = (if is_upper c then c + 32 else c)"

lemmas char_defs = is_digit_def is_lower_def is_upper_def is_alpha_def is_alnum_def

lemma ascii_lower_idem [simp]: "ascii_lower (ascii_lower c) = ascii_lower c"
  by (auto simp: ascii_lower_def char_defs)

section \<open>Prefixes and search\<close>

fun starts_with :: "'a list \<Rightarrow> 'a list \<Rightarrow> bool" where
  "starts_with [] s = True"
| "starts_with (p # ps) [] = False"
| "starts_with (p # ps) (c # cs) = (p = c \<and> starts_with ps cs)"

lemma starts_with_iff: "starts_with p s \<longleftrightarrow> (\<exists>t. s = p @ t)"
  by (induction p s rule: starts_with.induct) auto

lemma starts_with_append [simp]: "starts_with p (p @ t)"
  by (auto simp: starts_with_iff)

lemma starts_with_refl [simp]: "starts_with p p"
  by (auto simp: starts_with_iff)

lemma starts_with_drop: "starts_with p s \<Longrightarrow> s = p @ drop (length p) s"
  by (auto simp: starts_with_iff)

lemma starts_with_length: "starts_with p s \<Longrightarrow> length p \<le> length s"
  by (auto simp: starts_with_iff)

definition ends_with :: "'a list \<Rightarrow> 'a list \<Rightarrow> bool" where
  "ends_with p s = starts_with (rev p) (rev s)"

lemma ends_with_iff: "ends_with p s \<longleftrightarrow> (\<exists>t. s = t @ p)"
  unfolding ends_with_def starts_with_iff
  by (metis rev_append rev_rev_ident)

text \<open>\<open>index_of p s\<close> is the first position of \<open>p\<close> in \<open>s\<close>; \<open>None\<close> for \<open>-1\<close>.\<close>

fun index_of :: "'a list \<Rightarrow> 'a list \<Rightarrow> nat option" where
  "index_of p [] = (if p = [] then Some 0 else None)"
| "index_of p (c # cs) =
     (if starts_with p (c # cs) then Some 0 else map_option Suc (index_of p cs))"

definition contains :: "'a list \<Rightarrow> 'a list \<Rightarrow> bool" where
  "contains p s = (index_of p s \<noteq> None)"

lemma index_of_Some:
  "index_of p s = Some i \<Longrightarrow> i \<le> length s \<and> starts_with p (drop i s)"
  by (induction s arbitrary: i) (auto split: if_splits)

lemma index_of_first: "index_of p s = Some i \<Longrightarrow> j < i \<Longrightarrow> \<not> starts_with p (drop j s)"
proof (induction s arbitrary: i j)
  case (Cons c cs)
  then show ?case by (cases j) (auto split: if_splits)
qed (auto split: if_splits)

lemma index_of_None: "index_of p s = None \<Longrightarrow> \<not> starts_with p (drop j s)"
proof (induction s arbitrary: j)
  case (Cons c cs)
  then show ?case by (cases j) (auto split: if_splits)
qed (auto split: if_splits simp: starts_with_iff)

lemma index_of_append: "index_of p (a @ p @ b) \<noteq> None"
  using index_of_None [of p "a @ p @ b" "length a"] by (auto simp: starts_with_iff)

lemma contains_iff: "contains p s \<longleftrightarrow> (\<exists>a b. s = a @ p @ b)"
proof
  assume "contains p s"
  then obtain i where "index_of p s = Some i" by (auto simp: contains_def)
  then have "starts_with p (drop i s)" by (simp add: index_of_Some)
  then obtain b where "drop i s = p @ b" by (auto simp: starts_with_iff)
  then have "s = take i s @ p @ b" by (metis append_take_drop_id)
  then show "\<exists>a b. s = a @ p @ b" by blast
next
  assume "\<exists>a b. s = a @ p @ b"
  then show "contains p s" using index_of_append by (auto simp: contains_def)
qed

lemma index_of_single: "index_of [c] s = None \<longleftrightarrow> c \<notin> set s"
  by (induction s) auto

lemma contains_single [simp]: "contains [c] s \<longleftrightarrow> c \<in> set s"
  by (simp add: contains_def index_of_single)

section \<open>Splitting on a class of characters\<close>

text \<open>
  \<open>split(/[...]/)\<close> of JavaScript and \<open>split(|c| ...)\<close> of Rust: the pieces between the
  separators, empty ones included; never the empty list.
\<close>

fun split_on :: "('a \<Rightarrow> bool) \<Rightarrow> 'a list \<Rightarrow> 'a list list" where
  "split_on P [] = [[]]"
| "split_on P (c # cs) =
     (if P c then [] # split_on P cs
      else (case split_on P cs of [] \<Rightarrow> [[c]] | w # ws \<Rightarrow> (c # w) # ws))"

lemma split_on_nonempty [simp]: "split_on P s \<noteq> []"
  by (induction s) (auto split: list.splits)

lemma split_on_sep: "w \<in> set (split_on P s) \<Longrightarrow> c \<in> set w \<Longrightarrow> \<not> P c"
proof (induction s arbitrary: w)
  case (Cons a s)
  then show ?case
    by (cases "split_on P s") (auto split: if_splits, blast)
qed auto

lemma split_on_chars: "w \<in> set (split_on P s) \<Longrightarrow> set w \<subseteq> set s"
proof (induction s arbitrary: w)
  case (Cons a s)
  then show ?case
    by (cases "split_on P s") (auto split: if_splits, blast+)
qed auto

lemma split_on_none: "(\<forall>c\<in>set s. \<not> P c) \<Longrightarrow> split_on P s = [s]"
  by (induction s) auto

lemma hd_split_on: "hd (split_on P s) = takeWhile (\<lambda>c. \<not> P c) s"
proof (induction s)
  case (Cons a s)
  then show ?case by (cases "split_on P s") auto
qed simp

lemma tl_split_on: "(\<exists>c\<in>set s. P c) \<Longrightarrow> tl (split_on P s) \<noteq> []"
proof (induction s)
  case (Cons a s)
  then show ?case by (cases "split_on P s") auto
qed simp

lemma last_split_on: "last (split_on P s) = rev (takeWhile (\<lambda>c. \<not> P c) (rev s))"
proof (induction s)
  case Nil
  show ?case by simp
next
  case (Cons c cs)
  show ?case
  proof (cases "\<exists>x\<in>set cs. P x")
    case True
    then have "takeWhile (\<lambda>c. \<not> P c) (rev (c # cs)) = takeWhile (\<lambda>c. \<not> P c) (rev cs)"
      by (auto simp: takeWhile_append1)
    moreover have "last (split_on P (c # cs)) = last (split_on P cs)"
      using tl_split_on [OF True] by (auto split: list.splits)
    ultimately show ?thesis using Cons.IH by simp
  next
    case False
    then have eq: "split_on P cs = [cs]" and tw: "takeWhile (\<lambda>c. \<not> P c) (rev cs) = rev cs"
      by (auto simp: split_on_none takeWhile_eq_all_conv)
    then show ?thesis
      by (simp add: takeWhile_append tw) (use False in auto)
  qed
qed

end
