(* ===== verification/Js_Regex.thy ===== *)
theory Js_Regex
  imports Prelude
begin

text \<open>
  The regular expressions of ECMAScript 5 as far as \<open>src/qml/pages/*.js\<close> uses them: the
  backtracking matcher of ES5 15.10.2 as a function from a match state to the list of states it
  can continue in, in the order the engine tries them, so that the first element is what
  \<open>exec\<close> takes.  \<open>exec\<close>, \<open>test\<close>, \<open>search\<close>, \<open>replace\<close> and \<open>split\<close> are built
  on it.  \<open>den\<close> is the relational meaning of an expression, and \<open>ms_den\<close> shows that the
  matcher computes exactly that relation; everything the components prove about a pattern goes
  through it or through the evaluation lemmas for single characters, fixed words and greedy
  character runs.
\<close>

section \<open>Syntax\<close>

text \<open>
  \<open>Rep greedy min max\<close> covers all quantifiers, \<open>Grp n\<close> is a capturing group, \<open>Bol\<close> and
  \<open>Eol\<close> are \<open>^\<close> and \<open>$\<close> without the multiline flag.
\<close>

datatype re =
    Eps
  | Chr "nat \<Rightarrow> bool"
  | Seq re re
  | Alt re re
  | Rep bool nat "nat option" re
  | Grp nat re
  | Bol
  | Eol

abbreviation Plus :: "re \<Rightarrow> re" where "Plus r \<equiv> Rep True (Suc 0) None r"
abbreviation Star :: "re \<Rightarrow> re" where "Star r \<equiv> Rep True 0 None r"
abbreviation LazyStar :: "re \<Rightarrow> re" where "LazyStar r \<equiv> Rep False 0 None r"
abbreviation Opt :: "re \<Rightarrow> re" where "Opt r \<equiv> Rep True 0 (Some (Suc 0)) r"

primrec Word :: "str \<Rightarrow> re" where
  "Word [] = Eps"
| "Word (c # cs) = Seq (Chr ((=) c)) (Word cs)"

primrec Seqs :: "re list \<Rightarrow> re" where
  "Seqs [] = Eps"
| "Seqs (r # rs) = Seq r (Seqs rs)"

text \<open>
  The \<open>i\<close> flag: \<open>Canonicalize\<close> upper-cases, but never maps a code above 127 to one below
  128, so an ASCII class gains exactly the other case of its letters.
\<close>

definition icase :: "(nat \<Rightarrow> bool) \<Rightarrow> nat \<Rightarrow> bool" where
  "icase P c = (P c \<or> (is_lower c \<and> P (c - 32)) \<or> (is_upper c \<and> P (c + 32)))"

primrec IWord :: "str \<Rightarrow> re" where
  "IWord [] = Eps"
| "IWord (c # cs) = Seq (Chr (icase ((=) c))) (IWord cs)"

text \<open>\<open>\s\<close>: WhiteSpace and LineTerminator of ES5.1, with the space separators of Unicode.\<close>

definition js_space :: "nat \<Rightarrow> bool" where
  "js_space c \<longleftrightarrow> (9 \<le> c \<and> c \<le> 13) \<or> c = 32 \<or> c = 160 \<or> c = 0x1680 \<or> c = 0x180E
     \<or> (0x2000 \<le> c \<and> c \<le> 0x200A) \<or> c = 0x2028 \<or> c = 0x2029 \<or> c = 0x202F \<or> c = 0x205F
     \<or> c = 0x3000 \<or> c = 0xFEFF"

section \<open>The matcher\<close>

type_synonym caps = "(nat \<times> str) list"
type_synonym mst = "nat \<times> str \<times> caps"

abbreviation mrest :: "mst \<Rightarrow> str" where "mrest st \<equiv> fst (snd st)"

text \<open>
  \<open>RepeatMatcher\<close> of ES5: an iteration past the minimum that consumes nothing fails.  The
  second half of the guard is true of every matcher (none lengthens the rest) and makes the
  recursion well founded for an arbitrary \<open>f\<close>.
\<close>

function rep :: "(mst \<Rightarrow> mst list) \<Rightarrow> bool \<Rightarrow> nat \<Rightarrow> nat option \<Rightarrow> mst \<Rightarrow> mst list" where
  "rep f g m M st =
     (if M = Some 0 then [st]
      else let more = concat (map (\<lambda>st'.
               if length (mrest st') < length (mrest st)
                  \<or> (0 < m \<and> length (mrest st') \<le> length (mrest st))
               then rep f g (m - 1) (map_option (\<lambda>k. k - 1) M) st' else []) (f st))
           in if 0 < m then more else if g then more @ [st] else st # more)"
  by pat_completeness auto
termination
  by (relation "measure (\<lambda>(f, g, m, M, st). m + length (mrest st))") auto

declare rep.simps [simp del]

primrec ms :: "re \<Rightarrow> mst \<Rightarrow> mst list" where
  "ms Eps st = [st]"
| "ms (Chr P) st =
     (case st of (i, s, cs) \<Rightarrow>
        (case s of [] \<Rightarrow> [] | x # xs \<Rightarrow> if P x then [(Suc i, xs, cs)] else []))"
| "ms (Seq r1 r2) st = concat (map (ms r2) (ms r1 st))"
| "ms (Alt r1 r2) st = ms r1 st @ ms r2 st"
| "ms (Rep g m M r) st = rep (ms r) g m M st"
| "ms (Grp n r) st =
     map (\<lambda>(j, t, cs). (j, t, (n, take (length (mrest st) - length t) (mrest st)) # cs)) (ms r st)"
| "ms Bol st = (if fst st = 0 then [st] else [])"
| "ms Eol st = (if mrest st = [] then [st] else [])"

text \<open>A capture that took no part in the match is \<open>undefined\<close>: \<open>None\<close>.\<close>

definition cap :: "nat \<Rightarrow> caps \<Rightarrow> str option" where
  "cap n cs = map_of cs n"

text \<open>
  The leftmost match at or after position \<open>i\<close>, as (skipped, matched, rest, captures).
\<close>

fun find_from :: "re \<Rightarrow> nat \<Rightarrow> str \<Rightarrow> (str \<times> str \<times> str \<times> caps) option" where
  "find_from r i s =
     (case ms r (i, s, []) of
        (j, t, cs) # _ \<Rightarrow> Some ([], take (length s - length t) s, t, cs)
      | [] \<Rightarrow> (case s of [] \<Rightarrow> None
              | c # rest \<Rightarrow> map_option (\<lambda>(pre, m). (c # pre, m)) (find_from r (Suc i) rest)))"

declare find_from.simps [simp del]

abbreviation find_re :: "re \<Rightarrow> str \<Rightarrow> (str \<times> str \<times> str \<times> caps) option" where
  "find_re r s \<equiv> find_from r 0 s"

definition test :: "re \<Rightarrow> str \<Rightarrow> bool" where
  "test r s = (find_re r s \<noteq> None)"

text \<open>\<open>search\<close>: the position of the first match.\<close>

definition search :: "re \<Rightarrow> str \<Rightarrow> nat option" where
  "search r s = map_option (\<lambda>(pre, _). length pre) (find_re r s)"

text \<open>\<open>replace\<close> without the \<open>g\<close> flag.\<close>

definition replace_first :: "re \<Rightarrow> (str \<Rightarrow> caps \<Rightarrow> str) \<Rightarrow> str \<Rightarrow> str" where
  "replace_first r f s =
     (case find_re r s of None \<Rightarrow> s | Some (pre, m, post, cs) \<Rightarrow> pre @ f m cs @ post)"

section \<open>The relation a matcher computes\<close>

text \<open>\<open>den r\<close> relates a position and rest to those after a match of \<open>r\<close>.\<close>

primrec den :: "re \<Rightarrow> ((nat \<times> str) \<times> (nat \<times> str)) set" where
  "den Eps = Id"
| "den (Chr P) = {((i, x # xs), (Suc i, xs)) | i x xs. P x}"
| "den (Seq r1 r2) = den r1 O den r2"
| "den (Alt r1 r2) = den r1 \<union> den r2"
| "den (Rep g m M r) =
     {(x, y). \<exists>n. m \<le> n \<and> (\<forall>k. M = Some k \<longrightarrow> n \<le> k) \<and> (x, y) \<in> den r ^^ n}"
| "den (Grp n r) = den r"
| "den Bol = {(x, y). x = y \<and> fst x = 0}"
| "den Eol = {(x, y). x = y \<and> snd x = []}"

text \<open>Every match consumes a prefix of the rest.\<close>

definition consumes :: "((nat \<times> str) \<times> (nat \<times> str)) set \<Rightarrow> bool" where
  "consumes R \<longleftrightarrow> (\<forall>i s j t. ((i, s), (j, t)) \<in> R \<longrightarrow> (\<exists>w. s = w @ t \<and> j = i + length w))"

lemma consumesD: "consumes R \<Longrightarrow> ((i, s), (j, t)) \<in> R \<Longrightarrow> \<exists>w. s = w @ t \<and> j = i + length w"
  by (simp add: consumes_def)

lemma consumes_Id: "consumes Id"
  by (auto simp: consumes_def)

lemma consumes_comp: "consumes R \<Longrightarrow> consumes S \<Longrightarrow> consumes (R O S)"
  unfolding consumes_def
proof (intro allI impI)
  fix i s j t
  assume R: "\<forall>i s j t. ((i, s), j, t) \<in> R \<longrightarrow> (\<exists>w. s = w @ t \<and> j = i + length w)"
    and S: "\<forall>i s j t. ((i, s), j, t) \<in> S \<longrightarrow> (\<exists>w. s = w @ t \<and> j = i + length w)"
    and m: "((i, s), (j, t)) \<in> R O S"
  from m obtain k u where "((i, s), (k, u)) \<in> R" "((k, u), (j, t)) \<in> S" by auto
  with R S obtain w w' where "s = w @ u" "k = i + length w" "u = w' @ t" "j = k + length w'"
    by blast
  then show "\<exists>w. s = w @ t \<and> j = i + length w" by (intro exI [of _ "w @ w'"]) auto
qed

lemma consumes_relpow: "consumes R \<Longrightarrow> consumes (R ^^ n)"
  by (induction n) (auto simp: consumes_Id intro: consumes_comp)

lemma consumes_den: "consumes (den r)"
proof (induction r)
  case (Chr P)
  show ?case by (auto simp: consumes_def)
next
  case (Seq r1 r2)
  then show ?case by (simp add: consumes_comp)
next
  case (Alt r1 r2)
  then show ?case by (auto simp: consumes_def)
next
  case (Rep g m M r)
  then have "consumes (den r ^^ n)" for n by (rule consumes_relpow)
  then show ?case by (fastforce simp: consumes_def)
qed (auto simp: consumes_def)

lemmas den_consumes = consumesD [OF consumes_den]

text \<open>
  The syntax of JavaScript refuses a quantifier whose minimum exceeds its maximum.
\<close>

primrec wf_re :: "re \<Rightarrow> bool" where
  "wf_re Eps = True"
| "wf_re (Chr P) = True"
| "wf_re (Seq r1 r2) = (wf_re r1 \<and> wf_re r2)"
| "wf_re (Alt r1 r2) = (wf_re r1 \<and> wf_re r2)"
| "wf_re (Rep g m M r) = (wf_re r \<and> (case M of None \<Rightarrow> True | Some k \<Rightarrow> m \<le> k))"
| "wf_re (Grp n r) = wf_re r"
| "wf_re Bol = True"
| "wf_re Eol = True"

text \<open>The states a matcher returns are the pairs of the relation (captures aside).\<close>

definition computes :: "(mst \<Rightarrow> mst list) \<Rightarrow> ((nat \<times> str) \<times> (nat \<times> str)) set \<Rightarrow> bool" where
  "computes f R \<longleftrightarrow>
     (\<forall>i s cs j t. (\<exists>cs'. (j, t, cs') \<in> set (f (i, s, cs))) \<longleftrightarrow> ((i, s), (j, t)) \<in> R)"

definition within :: "nat \<Rightarrow> nat option \<Rightarrow> nat \<Rightarrow> bool" where
  "within m M n \<longleftrightarrow> m \<le> n \<and> (\<forall>k. M = Some k \<longrightarrow> n \<le> k)"

lemma within_pred:
  "M \<noteq> Some 0 \<Longrightarrow> within (m - 1) (map_option (\<lambda>k. k - 1) M) n \<Longrightarrow> within m M (Suc n)"
  by (cases M) (auto simp: within_def)

lemma within_pred': "within m M (Suc n) \<Longrightarrow> within (m - 1) (map_option (\<lambda>k. k - 1) M) n"
  by (cases M) (auto simp: within_def)

lemma rep_sound:
  assumes f: "computes f R" and "st' \<in> set (rep f g m M st)" and "\<forall>k. M = Some k \<longrightarrow> m \<le> k"
  shows "\<exists>n. within m M n \<and> ((fst st, mrest st), (fst st', mrest st')) \<in> R ^^ n"
  using assms(2,3)
proof (induction "m + length (mrest st)" arbitrary: m M st rule: less_induct)
  case less
  show ?case
  proof (cases "st' = st \<and> m = 0")
    case True
    then show ?thesis by (intro exI [of _ 0]) (auto simp: within_def)
  next
    case False
    with less.prems have "M \<noteq> Some 0" by (subst (asm) rep.simps) (auto split: if_splits)
    with False less.prems(1) obtain st1 where st1: "st1 \<in> set (f st)"
      and dec: "length (mrest st1) < length (mrest st) \<or> 0 < m \<and> length (mrest st1) \<le> length (mrest st)"
      and mem: "st' \<in> set (rep f g (m - 1) (map_option (\<lambda>k. k - 1) M) st1)"
      by (subst (asm) rep.simps) (auto simp: Let_def split: if_splits)
    have "m - 1 + length (mrest st1) < m + length (mrest st)" using dec by auto
    moreover have "\<forall>k. map_option (\<lambda>k. k - 1) M = Some k \<longrightarrow> m - 1 \<le> k"
      using less.prems(2) by auto
    ultimately obtain n where n: "within (m - 1) (map_option (\<lambda>k. k - 1) M) n"
      and tail: "((fst st1, mrest st1), (fst st', mrest st')) \<in> R ^^ n"
      using less.hyps [OF _ mem] by blast
    have "((fst st, mrest st), (fst st1, mrest st1)) \<in> R"
      using f st1 unfolding computes_def
      by (metis prod.collapse)
    from relpow_Suc_I2 [OF this tail] show ?thesis using within_pred [OF \<open>M \<noteq> Some 0\<close> n] by blast
  qed
qed

lemma rep_complete:
  assumes f: "computes f R" and R: "consumes R"
  shows "within m M n \<Longrightarrow> ((i, s), (j, t)) \<in> R ^^ n \<Longrightarrow>
         \<exists>cs'. (j, t, cs') \<in> set (rep f g m M (i, s, cs))"
proof (induction n arbitrary: m M i s cs)
  case 0
  then have "m = 0" "i = j" "s = t" by (auto simp: within_def)
  then show ?case by (subst rep.simps) (auto simp: Let_def)
next
  case (Suc n)
  from Suc.prems(2) obtain k u where step: "((i, s), (k, u)) \<in> R" and tail: "((k, u), (j, t)) \<in> R ^^ n"
    by (metis relpow_Suc_D2 surj_pair)
  from R step obtain w where w: "s = w @ u" "k = i + length w"
    by (auto dest: consumesD)
  show ?case
  proof (cases "w = [] \<and> m = 0")
    case True
    with w Suc.prems(1) tail have "within m M n" "((i, s), (j, t)) \<in> R ^^ n"
      by (auto simp: within_def)
    then show ?thesis by (rule Suc.IH)
  next
    case False
    from Suc.prems(1) have M: "M \<noteq> Some 0" by (auto simp: within_def)
    from f step obtain cs1 where st1: "(k, u, cs1) \<in> set (f (i, s, cs))"
      unfolding computes_def by blast
    have dec: "length u < length s \<or> 0 < m \<and> length u \<le> length s"
      using False w by auto
    from Suc.IH [OF within_pred' [OF Suc.prems(1)] tail]
    obtain cs' where "(j, t, cs') \<in> set (rep f g (m - 1) (map_option (\<lambda>k. k - 1) M) (k, u, cs1))"
      by blast
    with M st1 dec show ?thesis
      by (subst rep.simps) (fastforce simp: Let_def)
  qed
qed

lemma computes_Seq:
  assumes f: "computes f R" and g: "computes g S"
  shows "computes (\<lambda>st. concat (map g (f st))) (R O S)"
  unfolding computes_def
proof (intro allI iffI)
  fix i s cs j t
  assume "\<exists>cs'. (j, t, cs') \<in> set (concat (map g (f (i, s, cs))))"
  then obtain cs' k u cs1 where "(k, u, cs1) \<in> set (f (i, s, cs))" "(j, t, cs') \<in> set (g (k, u, cs1))"
    by auto
  with f g show "((i, s), (j, t)) \<in> R O S" unfolding computes_def by blast
next
  fix i s cs j t
  assume "((i, s), (j, t)) \<in> R O S"
  then obtain k u where "((i, s), (k, u)) \<in> R" "((k, u), (j, t)) \<in> S" by auto
  with f g obtain cs1 cs' where "(k, u, cs1) \<in> set (f (i, s, cs))" "(j, t, cs') \<in> set (g (k, u, cs1))"
    unfolding computes_def by blast
  then show "\<exists>cs'. (j, t, cs') \<in> set (concat (map g (f (i, s, cs))))" by fastforce
qed

lemma ms_computes: "wf_re r \<Longrightarrow> computes (ms r) (den r)"
proof (induction r)
  case (Chr P)
  show ?case by (auto simp: computes_def split: list.splits)
next
  case (Seq r1 r2)
  then have "computes (\<lambda>st. concat (map (ms r2) (ms r1 st))) (den r1 O den r2)"
    by (simp add: computes_Seq)
  then show ?case by (simp add: computes_def)
next
  case (Alt r1 r2)
  then show ?case by (simp add: computes_def) blast
next
  case (Rep g m M r)
  then have f: "computes (ms r) (den r)" and mk: "\<forall>k. M = Some k \<longrightarrow> m \<le> k"
    by (auto split: option.splits)
  show ?case unfolding computes_def
  proof (intro allI iffI)
    fix i s cs j t
    assume "\<exists>cs'. (j, t, cs') \<in> set (ms (Rep g m M r) (i, s, cs))"
    then obtain cs' where "(j, t, cs') \<in> set (rep (ms r) g m M (i, s, cs))" by auto
    from rep_sound [OF f this mk] show "((i, s), (j, t)) \<in> den (Rep g m M r)"
      by (auto simp: within_def)
  next
    fix i s cs j t
    assume "((i, s), (j, t)) \<in> den (Rep g m M r)"
    then obtain n where "within m M n" "((i, s), (j, t)) \<in> den r ^^ n" by (auto simp: within_def)
    from rep_complete [OF f consumes_den this]
    show "\<exists>cs'. (j, t, cs') \<in> set (ms (Rep g m M r) (i, s, cs))" by simp
  qed
next
  case (Grp n r)
  then show ?case by (fastforce simp: computes_def image_iff split: prod.splits)
qed (auto simp: computes_def)

text \<open>The matcher is exactly the relation, and never reads outside the rest of the string.\<close>

theorem ms_den:
  "wf_re r \<Longrightarrow> (\<exists>cs'. (j, t, cs') \<in> set (ms r (i, s, cs))) \<longleftrightarrow> ((i, s), (j, t)) \<in> den r"
  using ms_computes by (auto simp: computes_def)

lemma ms_consumes:
  "wf_re r \<Longrightarrow> (j, t, cs') \<in> set (ms r (i, s, cs)) \<Longrightarrow>
   ((i, s), (j, t)) \<in> den r \<and> (\<exists>w. s = w @ t \<and> j = i + length w)"
  using ms_den den_consumes by blast

section \<open>Searching and replacing\<close>

lemma find_from_None:
  "find_from r i s = None \<Longrightarrow> k \<le> length s \<Longrightarrow> ms r (i + k, drop k s, []) = []"
proof (induction s arbitrary: i k)
  case Nil
  then show ?case by (subst (asm) find_from.simps) (auto split: list.splits)
next
  case (Cons c rest)
  then have "ms r (i, c # rest, []) = []" and "find_from r (Suc i) rest = None"
    by (auto simp: find_from.simps [of r i "c # rest"] split: list.splits)
  with Cons.IH [of "Suc i" "k - 1"] Cons.prems(2) show ?case by (cases k) auto
qed

lemma find_from_Some:
  assumes "wf_re r" and "find_from r i s = Some (pre, m, post, cs)"
  shows "s = pre @ m @ post \<and> ms r (i + length pre, m @ post, []) \<noteq> []
       \<and> hd (ms r (i + length pre, m @ post, [])) = (i + length pre + length m, post, cs)"
  using assms(2)
proof (induction s arbitrary: i pre)
  case Nil
  then obtain j t sts where st: "ms r (i, [], []) = (j, t, cs) # sts"
      and eq: "pre = []" "m = []" "post = t"
    by (subst (asm) find_from.simps) (auto split: list.splits)
  then have "(j, t, cs) \<in> set (ms r (i, [], []))" by simp
  from ms_consumes [OF assms(1) this] have "t = []" "j = i" by auto
  with st eq show ?case by simp
next
  case (Cons c rest)
  show ?case
  proof (cases "ms r (i, c # rest, [])")
    case Nil
    with Cons.prems obtain pre' where "find_from r (Suc i) rest = Some (pre', m, post, cs)"
      and "pre = c # pre'"
      by (subst (asm) find_from.simps) auto
    with Cons.IH [of "Suc i" pre'] show ?thesis by simp
  next
    case (Cons st sts)
    then obtain j t cs' where st: "st = (j, t, cs')" by (cases st) auto
    with Cons have "(j, t, cs') \<in> set (ms r (i, c # rest, []))" by simp
    from ms_consumes [OF assms(1) this] obtain w where w: "c # rest = w @ t" "j = i + length w"
      by auto
    from st Cons Cons.prems have "pre = []" "m = take (length (c # rest) - length t) (c # rest)"
      "post = t" "cs = cs'"
      by (auto simp: find_from.simps [of r i "c # rest"])
    with w st Cons show ?thesis by simp
  qed
qed

lemma find_from_den:
  assumes "wf_re r" and "find_from r i s = Some (pre, m, post, cs)"
  shows "s = pre @ m @ post" and "((i + length pre, m @ post), (i + length pre + length m, post)) \<in> den r"
proof -
  from find_from_Some [OF assms] have st: "s = pre @ m @ post"
    "(i + length pre + length m, post, cs) \<in> set (ms r (i + length pre, m @ post, []))"
    by (auto, metis list.set_sel(1))
  from st(1) show "s = pre @ m @ post" .
  from ms_consumes [OF assms(1) st(2)]
  show "((i + length pre, m @ post), (i + length pre + length m, post)) \<in> den r" by blast
qed

text \<open>The offset only matters to \<open>Bol\<close>; \<open>test\<close> holds exactly where some substring matches.\<close>

theorem test_iff:
  "wf_re r \<Longrightarrow> test r s \<longleftrightarrow> (\<exists>pre m post. s = pre @ m @ post
      \<and> ((length pre, m @ post), (length pre + length m, post)) \<in> den r)"
proof
  assume wf: "wf_re r" and "test r s"
  then obtain pre m post cs where "find_re r s = Some (pre, m, post, cs)"
    by (auto simp: test_def)
  from find_from_den [OF wf this] show "\<exists>pre m post. s = pre @ m @ post
      \<and> ((length pre, m @ post), (length pre + length m, post)) \<in> den r" by auto
next
  assume wf: "wf_re r" and "\<exists>pre m post. s = pre @ m @ post
      \<and> ((length pre, m @ post), (length pre + length m, post)) \<in> den r"
  then obtain pre m post where s: "s = pre @ m @ post"
      and d: "((length pre, m @ post), (length pre + length m, post)) \<in> den r" by blast
  from ms_den [OF wf] d have "ms r (length pre, m @ post, []) \<noteq> []"
    by (metis empty_iff empty_set)
  with find_from_None [of r 0 s "length pre"] s show "test r s" by (force simp: test_def)
qed

text \<open>
  \<open>replace\<close> with the \<open>g\<close> flag and a function of (offset, match, captures); after an empty
  match the search resumes one position further (ES5 15.5.4.11).  Both recursive calls are on
  a shorter string; the length tests, which always succeed, make that visible for an arbitrary
  expression.
\<close>

function replace_from :: "re \<Rightarrow> (nat \<Rightarrow> str \<Rightarrow> caps \<Rightarrow> str) \<Rightarrow> nat \<Rightarrow> str \<Rightarrow> str" where
  "replace_from r f i s =
     (case find_from r i s of None \<Rightarrow> s
      | Some (pre, m, post, cs) \<Rightarrow>
          pre @ f (i + length pre) m cs @
          (if m \<noteq> []
           then (if length post < length s
                 then replace_from r f (i + length pre + length m) post else [])
           else (case post of [] \<Rightarrow> []
                 | c # rest \<Rightarrow>
                     if length rest < length s
                     then c # replace_from r f (Suc (i + length pre)) rest else [])))"
  by pat_completeness auto
termination
  by (relation "measure (\<lambda>(r, f, i, s). length s)") auto

declare replace_from.simps [simp del]

definition replace_all :: "re \<Rightarrow> (nat \<Rightarrow> str \<Rightarrow> caps \<Rightarrow> str) \<Rightarrow> str \<Rightarrow> str" where
  "replace_all r f s = replace_from r f 0 s"

text \<open>
  \<open>split\<close> by an expression with one capture, which ES5 puts between the pieces
  (15.5.4.14).  The only such expression of the program never matches the empty string.
\<close>

function split_from :: "re \<Rightarrow> nat \<Rightarrow> str \<Rightarrow> str list" where
  "split_from r i s =
     (case find_from r i s of None \<Rightarrow> [s]
      | Some (pre, m, post, cs) \<Rightarrow>
          if m \<noteq> [] \<and> length post < length s
          then pre # (case cap 1 cs of None \<Rightarrow> [] | Some x \<Rightarrow> x)
                   # split_from r (i + length pre + length m) post
          else [s])"
  by pat_completeness auto
termination
  by (relation "measure (\<lambda>(r, i, s). length s)") auto

declare split_from.simps [simp del]

text \<open>
  Induction over a global replacement: the text is either left as it is or falls into a part
  without a match, a match, and the remaining text.
\<close>

lemma replace_induct [consumes 1, case_names nomatch match]:
  assumes "wf_re r"
    and ne: "\<And>i s pre m post cs. find_from r i s = Some (pre, m, post, cs) \<Longrightarrow> m \<noteq> []"
    and nomatch: "\<And>i s. find_from r i s = None \<Longrightarrow> P i s s"
    and match: "\<And>i pre m post cs out. find_from r i (pre @ m @ post) = Some (pre, m, post, cs) \<Longrightarrow>
        m \<noteq> [] \<Longrightarrow> P (i + length pre + length m) post out \<Longrightarrow>
        P i (pre @ m @ post) (pre @ f (i + length pre) m cs @ out)"
  shows "P i s (replace_from r f i s)"
proof (induction "length s" arbitrary: i s rule: less_induct)
  case less
  show ?case
  proof (cases "find_from r i s")
    case None
    then show ?thesis using nomatch by (subst replace_from.simps) simp
  next
    case (Some x)
    obtain pre m post cs where x: "x = (pre, m, post, cs)" by (cases x) auto
    with Some have fnd: "find_from r i s = Some (pre, m, post, cs)" by simp
    have s: "s = pre @ m @ post" using find_from_den(1) [OF assms(1) fnd] .
    have m: "m \<noteq> []" using ne [OF fnd] .
    then have len: "length post < length s" using s by simp
    from less [OF len] have "P i (pre @ m @ post)
        (pre @ f (i + length pre) m cs @ replace_from r f (i + length pre + length m) post)"
      using match fnd m s by blast
    with fnd len s m show ?thesis
      by (subst replace_from.simps) simp
  qed
qed

section \<open>Evaluation lemmas\<close>

lemma ms_Word [simp]:
  "ms (Word w) (i, s, cs) =
     (if starts_with w s then [(i + length w, drop (length w) s, cs)] else [])"
  by (induction w arbitrary: i s) (auto split: list.splits)

lemma wf_Word [simp]: "wf_re (Word w)"
  by (induction w) auto

lemma wf_IWord [simp]: "wf_re (IWord w)"
  by (induction w) auto

lemma test_Chr: "test (Chr P) s \<longleftrightarrow> (\<exists>c\<in>set s. P c)"
proof
  assume "test (Chr P) s"
  then obtain pre m post where s: "s = pre @ m @ post"
    and "((length pre, m @ post), (length pre + length m, post)) \<in> den (Chr P)"
    by (metis test_iff wf_re.simps(2))
  then obtain c where "P c" "m @ post = c # post" by auto
  with s show "\<exists>c\<in>set s. P c" by auto
next
  assume "\<exists>c\<in>set s. P c"
  then obtain c pre post where "s = pre @ [c] @ post" "P c" by (auto simp: in_set_conv_decomp)
  then show "test (Chr P) s"
    by (subst test_iff) (simp, intro exI [of _ pre] exI [of _ "[c]"] exI [of _ post], simp)
qed

text \<open>Every character of a match satisfies a predicate that all classes imply.\<close>

primrec chars_sub :: "(nat \<Rightarrow> bool) \<Rightarrow> re \<Rightarrow> bool" where
  "chars_sub Q Eps = True"
| "chars_sub Q (Chr P) = (\<forall>c. P c \<longrightarrow> Q c)"
| "chars_sub Q (Seq r1 r2) = (chars_sub Q r1 \<and> chars_sub Q r2)"
| "chars_sub Q (Alt r1 r2) = (chars_sub Q r1 \<and> chars_sub Q r2)"
| "chars_sub Q (Rep g m M r) = chars_sub Q r"
| "chars_sub Q (Grp n r) = chars_sub Q r"
| "chars_sub Q Bol = True"
| "chars_sub Q Eol = True"

lemma chars_sub_True [simp]: "chars_sub (\<lambda>_. True) r"
  by (induction r) auto

primrec minlen :: "re \<Rightarrow> nat" where
  "minlen Eps = 0"
| "minlen (Chr P) = 1"
| "minlen (Seq r1 r2) = minlen r1 + minlen r2"
| "minlen (Alt r1 r2) = min (minlen r1) (minlen r2)"
| "minlen (Rep g m M r) = m * minlen r"
| "minlen (Grp n r) = minlen r"
| "minlen Bol = 0"
| "minlen Eol = 0"

lemma minlen_Word [simp]: "minlen (Word w) = length w"
  by (induction w) auto

lemma minlen_IWord [simp]: "minlen (IWord w) = length w"
  by (induction w) auto

definition eats :: "(nat \<Rightarrow> bool) \<Rightarrow> nat \<Rightarrow> ((nat \<times> str) \<times> (nat \<times> str)) set \<Rightarrow> bool" where
  "eats Q n R \<longleftrightarrow> (\<forall>i s j t. ((i, s), (j, t)) \<in> R \<longrightarrow>
      (\<exists>w. s = w @ t \<and> j = i + length w \<and> (\<forall>c\<in>set w. Q c) \<and> n \<le> length w))"

lemma eats_comp: "eats Q n R \<Longrightarrow> eats Q k S \<Longrightarrow> eats Q (n + k) (R O S)"
  unfolding eats_def
proof (intro allI impI)
  fix i s j t
  assume R: "\<forall>i s j t. ((i, s), j, t) \<in> R \<longrightarrow>
      (\<exists>w. s = w @ t \<and> j = i + length w \<and> (\<forall>c\<in>set w. Q c) \<and> n \<le> length w)"
    and S: "\<forall>i s j t. ((i, s), j, t) \<in> S \<longrightarrow>
      (\<exists>w. s = w @ t \<and> j = i + length w \<and> (\<forall>c\<in>set w. Q c) \<and> k \<le> length w)"
    and "((i, s), j, t) \<in> R O S"
  then obtain l u where "((i, s), l, u) \<in> R" "((l, u), j, t) \<in> S" by auto
  with R S obtain v w where "s = v @ u" "l = i + length v" "\<forall>c\<in>set v. Q c" "n \<le> length v"
    "u = w @ t" "j = l + length w" "\<forall>c\<in>set w. Q c" "k \<le> length w" by blast
  then show "\<exists>w. s = w @ t \<and> j = i + length w \<and> (\<forall>c\<in>set w. Q c) \<and> n + k \<le> length w"
    by (intro exI [of _ "v @ w"]) auto
qed

lemma eats_relpow: "eats Q n R \<Longrightarrow> eats Q (k * n) (R ^^ k)"
proof (induction k)
  case 0
  show ?case by (auto simp: eats_def)
next
  case (Suc k)
  then have "eats Q (k * n + n) (R ^^ k O R)" by (intro eats_comp) auto
  then show ?case by (simp add: add.commute)
qed

lemma eats_mono: "eats Q n R \<Longrightarrow> k \<le> n \<Longrightarrow> eats Q k R"
  unfolding eats_def by (meson order_trans)

lemma eats_den: "chars_sub Q r \<Longrightarrow> eats Q (minlen r) (den r)"
proof (induction r)
  case (Chr P)
  then show ?case by (auto simp: eats_def)
next
  case (Seq r1 r2)
  then show ?case by (simp add: eats_comp)
next
  case (Alt r1 r2)
  then have "eats Q (min (minlen r1) (minlen r2)) (den r1)"
    "eats Q (min (minlen r1) (minlen r2)) (den r2)"
    by (auto intro: eats_mono)
  then show ?case by (auto simp: eats_def)
next
  case (Rep g m M r)
  then have "eats Q (k * minlen r) (den r ^^ k)" for k by (simp add: eats_relpow)
  then have "m \<le> k \<Longrightarrow> eats Q (m * minlen r) (den r ^^ k)" for k
    by (rule eats_mono) (rule mult_le_mono1)
  then show ?case by (auto simp: eats_def)
qed (auto simp: eats_def)

lemma find_from_eats:
  assumes "wf_re r" and "chars_sub Q r" and "find_from r i s = Some (pre, m, post, cs)"
  shows "(\<forall>c\<in>set m. Q c) \<and> minlen r \<le> length m"
proof -
  from eats_den [OF assms(2)] find_from_den(2) [OF assms(1,3)]
  obtain w where "m @ post = w @ post" "\<forall>c\<in>set w. Q c" "minlen r \<le> length w"
    unfolding eats_def by blast
  then show ?thesis by simp
qed

text \<open>A greedy run of a class: the first alternative tried is the longest one.\<close>

lemma rep_Chr_Nil: "rep (ms (Chr P)) True 0 None (i, [], cs) = [(i, [], cs)]"
  by (subst rep.simps) simp

lemma rep_Chr_Cons:
  "rep (ms (Chr P)) True 0 None (i, c # s, cs) =
     (if P c then rep (ms (Chr P)) True 0 None (Suc i, s, cs) else []) @ [(i, c # s, cs)]"
  by (subst rep.simps) simp

lemma rep_run:
  "rep (ms (Chr P)) True 0 None (i, s, cs) \<noteq> []
   \<and> hd (rep (ms (Chr P)) True 0 None (i, s, cs))
     = (i + length (takeWhile P s), dropWhile P s, cs)"
proof (induction s arbitrary: i)
  case Nil
  show ?case by (simp add: rep_Chr_Nil del: ms.simps)
next
  case (Cons c s)
  then show ?case
    by (simp add: rep_Chr_Cons hd_append del: ms.simps)
qed

lemma ms_Star_Chr:
  "hd (ms (Star (Chr P)) (i, s, cs)) = (i + length (takeWhile P s), dropWhile P s, cs)"
  "ms (Star (Chr P)) (i, s, cs) \<noteq> []"
  using rep_run [of P i s cs] by auto

lemma ms_Plus_Chr:
  "ms (Plus (Chr P)) (i, s, cs) =
     (case s of [] \<Rightarrow> [] | c # t \<Rightarrow> if P c then ms (Star (Chr P)) (Suc i, t, cs) else [])"
  by (simp, subst rep.simps) (auto split: list.splits)

lemma hd_ms_Plus_Chr:
  "P c \<Longrightarrow> hd (ms (Plus (Chr P)) (i, c # t, cs))
     = (Suc i + length (takeWhile P t), dropWhile P t, cs)
   \<and> ms (Plus (Chr P)) (i, c # t, cs) \<noteq> []"
  using ms_Star_Chr [of P "Suc i" t cs] by (simp add: ms_Plus_Chr del: ms.simps)

text \<open>So a search for a run skips to its first character and takes it whole.\<close>

lemma find_Plus_Chr:
  "find_from (Plus (Chr P)) i s =
     (let pre = takeWhile (\<lambda>c. \<not> P c) s; t = dropWhile (\<lambda>c. \<not> P c) s
      in if t = [] then None else Some (pre, takeWhile P t, dropWhile P t, []))"
proof (induction s arbitrary: i)
  case Nil
  show ?case by (subst find_from.simps) (simp add: ms_Plus_Chr del: ms.simps)
next
  case (Cons c s)
  show ?case
  proof (cases "P c")
    case True
    let ?l = "ms (Plus (Chr P)) (i, c # s, [])"
    from hd_ms_Plus_Chr [where P = P, OF True, of i s "[]"]
    obtain sts where "?l = (Suc i + length (takeWhile P s), dropWhile P s, []) # sts"
      by (cases ?l) auto
    then have "find_from (Plus (Chr P)) i (c # s)
       = Some ([], take (length (c # s) - length (dropWhile P s)) (c # s), dropWhile P s, [])"
      by (subst find_from.simps) simp
    moreover have "take (length (c # s) - length (dropWhile P s)) (c # s) = takeWhile P (c # s)"
      using True by (metis append_eq_conv_conj dropWhile.simps(2) length_append add_diff_cancel_right' takeWhile_dropWhile_id)
    ultimately show ?thesis using True by simp
  next
    case False
    then have "ms (Plus (Chr P)) (i, c # s, []) = []" by (simp add: ms_Plus_Chr del: ms.simps)
    with False Cons.IH [of "Suc i"] show ?thesis
      by (subst find_from.simps) (simp add: Let_def)
  qed
qed

text \<open>Literal words under the \<open>i\<close> flag, and expressions anchored at the start.\<close>

lemma icase_eq: "\<not> is_upper c \<Longrightarrow> icase ((=) c) x \<longleftrightarrow> ascii_lower x = c"
  by (auto simp: icase_def ascii_lower_def is_upper_def is_lower_def)

lemma ms_IWord:
  "\<forall>c\<in>set w. \<not> is_upper c \<Longrightarrow>
   ms (IWord w) (i, s, cs) =
     (if starts_with w (map ascii_lower s) then [(i + length w, drop (length w) s, cs)] else [])"
proof (induction w arbitrary: i s)
  case (Cons c w)
  then show ?case by (cases s) (auto simp: icase_eq)
qed simp

lemma find_Bol:
  "find_re (Seq Bol r) s =
     (case ms r (0, s, []) of [] \<Rightarrow> None
      | (j, t, cs) # _ \<Rightarrow> Some ([], take (length s - length t) s, t, cs))"
proof -
  have late: "find_from (Seq Bol r) (Suc i) u = None" for i u
    by (induction u arbitrary: i) (subst find_from.simps, simp)+
  show ?thesis
    by (subst find_from.simps) (auto simp: late split: list.splits)
qed

lemma test_Bol: "test (Seq Bol r) s \<longleftrightarrow> ms r (0, s, []) \<noteq> []"
  by (auto simp: test_def find_Bol split: list.splits)

text \<open>The same facts in relational form, which composes without evaluating the words.\<close>

lemma den_Opt: "den (Opt r) = Id \<union> den r"
proof -
  have "(\<exists>n\<le>Suc 0. (x, y) \<in> den r ^^ n) \<longleftrightarrow> x = y \<or> (x, y) \<in> den r" for x y
    by (auto simp: le_Suc_eq)
  then show ?thesis by auto
qed

declare den.simps(5) [simp del]

lemma den_IWord:
  "\<forall>c\<in>set w. \<not> is_upper c \<Longrightarrow>
   ((i, s), (j, t)) \<in> den (IWord w) \<longleftrightarrow>
     starts_with w (map ascii_lower s) \<and> j = i + length w \<and> t = drop (length w) s"
  using ms_den [of "IWord w" j t i s "[]"] by (auto simp: ms_IWord)

lemma den_Word:
  "((i, s), (j, t)) \<in> den (Word w) \<longleftrightarrow>
     starts_with w s \<and> j = i + length w \<and> t = drop (length w) s"
  using ms_den [of "Word w" j t i s "[]"] by auto

lemma test_Bol_den: "wf_re r \<Longrightarrow> test (Seq Bol r) s \<longleftrightarrow> (\<exists>j t. ((0, s), (j, t)) \<in> den r)"
  unfolding test_Bol using ms_den [of r _ _ 0 s "[]"] by (metis empty_iff empty_set list.set_sel(1) surj_pair)

text \<open>
  A word, an optional word, and what follows, all under the \<open>i\<close> flag: the shape of every
  scheme and host test of the program.
\<close>

lemma den_IWord_comp:
  "\<forall>c\<in>set w. \<not> is_upper c \<Longrightarrow>
   (((i, s), y) \<in> den (IWord w) O R) \<longleftrightarrow>
     starts_with w (map ascii_lower s) \<and> ((i + length w, drop (length w) s), y) \<in> R"
  by (auto simp: den_IWord relcomp_unfold)

lemma den_Opt_comp:
  "(x, y) \<in> den (Opt r) O R \<longleftrightarrow> (x, y) \<in> R \<or> (x, y) \<in> den r O R"
  unfolding den_Opt by auto

lemma starts_with_two:
  "starts_with v s \<and> starts_with w (drop (length v) s) \<longleftrightarrow> starts_with (v @ w) s"
  by (induction v s rule: starts_with.induct) auto

lemma icase_words_iff:
  assumes "\<forall>c\<in>set a. \<not> is_upper c" "\<forall>c\<in>set b. \<not> is_upper c" "\<forall>c\<in>set d. \<not> is_upper c"
  shows "(\<exists>y. ((i, s), y) \<in> den (IWord a) O den (Opt (IWord b)) O den (IWord d) O R) \<longleftrightarrow>
     (\<exists>w\<in>{a @ d, a @ b @ d}. starts_with w (map ascii_lower s)
        \<and> (\<exists>y. ((i + length w, drop (length w) s), y) \<in> R))"
proof -
  let ?L = "map ascii_lower s"
  have fold: "starts_with w (map ascii_lower (drop n s)) = starts_with w (drop n ?L)" for w n
    by (simp add: drop_map)
  have "(\<exists>y. ((i, s), y) \<in> den (IWord a) O den (Opt (IWord b)) O den (IWord d) O R) \<longleftrightarrow>
     (\<exists>y. starts_with a ?L \<and> (starts_with d (drop (length a) ?L)
            \<and> ((i + length (a @ d), drop (length (a @ d)) s), y) \<in> R
          \<or> starts_with b (drop (length a) ?L) \<and> starts_with d (drop (length (a @ b)) ?L)
            \<and> ((i + length (a @ b @ d), drop (length (a @ b @ d)) s), y) \<in> R))"
    by (simp only: den_IWord_comp [OF assms(1)] den_Opt_comp den_IWord_comp [OF assms(2)]
        den_IWord_comp [OF assms(3)] fold drop_drop length_append add.assoc add.commute
        add.left_commute)
  also have "\<dots> \<longleftrightarrow> (\<exists>w\<in>{a @ d, a @ b @ d}. starts_with w ?L
        \<and> (\<exists>y. ((i + length w, drop (length w) s), y) \<in> R))"
  proof -
    have 1: "starts_with (a @ d) ?L \<longleftrightarrow> starts_with a ?L \<and> starts_with d (drop (length a) ?L)"
      by (simp add: starts_with_two)
    have 2: "starts_with (a @ b @ d) ?L \<longleftrightarrow> starts_with a ?L
        \<and> starts_with b (drop (length a) ?L) \<and> starts_with d (drop (length (a @ b)) ?L)"
      by (simp add: starts_with_two [symmetric] drop_drop add.commute)
    show ?thesis by (simp only: bex_simps insert_iff empty_iff 1 2 ex_disj_distrib) blast
  qed
  finally show ?thesis .
qed

lemma rep_zero: "rep f g m (Some 0) st = [st]"
  by (subst rep.simps) simp

lemma ms_Opt:
  "ms (Opt r) st = filter (\<lambda>st'. length (mrest st') < length (mrest st)) (ms r st) @ [st]"
proof -
  have *: "concat (map (\<lambda>st'. if length (mrest st') < length (mrest st) then [st'] else []) xs)
     = filter (\<lambda>st'. length (mrest st') < length (mrest st)) xs" for xs :: "mst list"
    by (induction xs) auto
  show ?thesis
    by (simp add: rep.simps [of _ _ _ "Some (Suc 0)"] rep_zero Let_def * cong: if_cong)
qed

text \<open>One step of a global replacement: a character skipped, or a match at the front.\<close>

lemma find_from_skip:
  "ms r (i, c # s, []) = [] \<Longrightarrow>
   find_from r i (c # s) = map_option (\<lambda>(pre, m). (c # pre, m)) (find_from r (Suc i) s)"
  by (subst find_from.simps) simp

lemma find_from_hit:
  "ms r (i, s, []) = (j, t, cs) # sts \<Longrightarrow>
   find_from r i s = Some ([], take (length s - length t) s, t, cs)"
  by (subst find_from.simps) simp

lemma replace_from_Nil: "ms r (i, [], []) = [] \<Longrightarrow> replace_from r f i [] = []"
  by (subst replace_from.simps, subst find_from.simps) simp

lemma replace_from_skip:
  assumes "wf_re r" and "ms r (i, c # s, []) = []"
  shows "replace_from r f i (c # s) = c # replace_from r f (Suc i) s"
proof (cases "find_from r (Suc i) s")
  case None
  with find_from_skip [OF assms(2)] show ?thesis
    by (simp add: replace_from.simps [of r f i] replace_from.simps [of r f "Suc i"])
next
  case (Some x)
  obtain pre m post cs where x: "x = (pre, m, post, cs)" by (cases x) auto
  with Some have fnd: "find_from r (Suc i) s = Some (pre, m, post, cs)" by simp
  from find_from_skip [OF assms(2)] fnd
  have fnd': "find_from r i (c # s) = Some (c # pre, m, post, cs)" by simp
  from find_from_den(1) [OF assms(1) fnd] have s: "s = pre @ m @ post" .
  then have len: "m \<noteq> [] \<Longrightarrow> length post < length s"
    and len': "post = d # rest \<Longrightarrow> length rest < length s" for d rest by auto
  show ?thesis
    using len len'
    by (cases "m = []"; cases post)
       (simp_all add: replace_from.simps [of r f i "c # s"] replace_from.simps [of r f "Suc i" s]
        fnd fnd' less_SucI)
qed

lemma replace_from_hit:
  assumes "ms r (i, s, []) = (j, t, cs) # sts" and "length t < length s"
  shows "replace_from r f i s = f i (take (length s - length t) s) cs
           @ replace_from r f (i + (length s - length t)) t"
proof -
  have "take (length s - length t) s \<noteq> []" using assms(2) by auto
  with assms(2) show ?thesis
    by (subst replace_from.simps) (simp add: find_from_hit [OF assms(1)])
qed

text \<open>Replacing a class of single characters maps over the string.\<close>

lemma replace_all_Chr:
  "replace_all (Chr P) (\<lambda>_ _ _. r) s = concat (map (\<lambda>c. if P c then r else [c]) s)"
proof -
  have "replace_from (Chr P) (\<lambda>_ _ _. r) i s = concat (map (\<lambda>c. if P c then r else [c]) s)" for i
  proof (induction s arbitrary: i)
    case Nil
    show ?case by (simp add: replace_from_Nil)
  next
    case (Cons c s)
    then show ?case
      by (cases "P c")
         (simp_all add: replace_from_skip replace_from_hit [of "Chr P" i "c # s" "Suc i" s "[]" "[]"])
  qed
  then show ?thesis by (simp add: replace_all_def)
qed

text \<open>Without a capturing group the captures pass through unchanged.\<close>

primrec no_grp :: "re \<Rightarrow> bool" where
  "no_grp Eps = True"
| "no_grp (Chr P) = True"
| "no_grp (Seq r1 r2) = (no_grp r1 \<and> no_grp r2)"
| "no_grp (Alt r1 r2) = (no_grp r1 \<and> no_grp r2)"
| "no_grp (Rep g m M r) = no_grp r"
| "no_grp (Grp n r) = False"
| "no_grp Bol = True"
| "no_grp Eol = True"

lemma rep_caps:
  assumes "\<And>st st'. st' \<in> set (f st) \<Longrightarrow> snd (snd st') = snd (snd st)"
  shows "st' \<in> set (rep f g m M st) \<Longrightarrow> snd (snd st') = snd (snd st)"
proof (induction "m + length (mrest st)" arbitrary: m M st rule: less_induct)
  case less
  show ?case
  proof (cases "st' = st")
    case False
    with less.prems have "M \<noteq> Some 0" by (subst (asm) rep.simps) (auto split: if_splits)
    with False less.prems obtain st1 where "st1 \<in> set (f st)"
      and "length (mrest st1) < length (mrest st) \<or> 0 < m \<and> length (mrest st1) \<le> length (mrest st)"
      and mem: "st' \<in> set (rep f g (m - 1) (map_option (\<lambda>k. k - 1) M) st1)"
      by (subst (asm) rep.simps) (auto simp: Let_def split: if_splits)
    then have "m - 1 + length (mrest st1) < m + length (mrest st)" by auto
    from less.hyps [OF this mem] assms [OF \<open>st1 \<in> set (f st)\<close>] show ?thesis by simp
  qed simp
qed

lemma ms_caps: "no_grp r \<Longrightarrow> st' \<in> set (ms r st) \<Longrightarrow> snd (snd st') = snd (snd st)"
proof (induction r arbitrary: st st')
  case (Chr P)
  then show ?case by (cases st) (auto split: list.splits if_splits)
next
  case (Rep g m M r)
  then have mem: "st' \<in> set (rep (ms r) g m M st)" by simp
  show ?case by (rule rep_caps [OF _ mem]) (use Rep in simp)
next
  case (Seq r1 r2)
  then obtain st1 where "st1 \<in> set (ms r1 st)" "st' \<in> set (ms r2 st1)" by auto
  with Seq show ?case by (metis no_grp.simps(3))
qed (auto split: if_splits)

text \<open>The same for a match that ends at a known place: the words lie inside the match.\<close>

lemma icase_words_match:
  assumes words: "\<forall>c\<in>set a. \<not> is_upper c" "\<forall>c\<in>set b. \<not> is_upper c" "\<forall>c\<in>set d. \<not> is_upper c"
    and R: "consumes R"
    and m: "((i, m @ post), (j, post)) \<in> den (IWord a) O den (Opt (IWord b)) O den (IWord d) O R"
  shows "\<exists>w\<in>{a @ d, a @ b @ d}. starts_with w (map ascii_lower m)
           \<and> ((i + length w, drop (length w) m @ post), (j, post)) \<in> R"
proof -
  let ?R = "R \<inter> {(x, y). y = (j, post)}"
  from m have "\<exists>y. ((i, m @ post), y)
      \<in> den (IWord a) O den (Opt (IWord b)) O den (IWord d) O ?R" by blast
  then obtain w where w: "w \<in> {a @ d, a @ b @ d}"
    and pre: "starts_with w (map ascii_lower (m @ post))"
    and r: "((i + length w, drop (length w) (m @ post)), (j, post)) \<in> R"
    unfolding icase_words_iff [OF words] by blast
  from consumesD [OF R r] obtain v where v: "drop (length w) (m @ post) = v @ post" by blast
  from starts_with_length [OF pre] have "length w \<le> length (m @ post)" by simp
  with v have "length w + length v = length m"
    by (metis add_right_imp_eq append.assoc append_take_drop_id length_append length_take min.absorb2)
  then have len: "length w \<le> length m" by simp
  with pre have "starts_with w (map ascii_lower m)"
    by (auto simp: starts_with_iff append_eq_append_conv2)
  with w r len show ?thesis by auto
qed

declare Word.simps [simp del] IWord.simps [simp del]

lemma no_grp_Word [simp]: "no_grp (Word w)"
  by (induction w) (auto simp: Word.simps)

lemma no_grp_IWord [simp]: "no_grp (IWord w)"
  by (induction w) (auto simp: IWord.simps)

lemma ms_Chr_Nil [simp]: "ms (Chr P) (i, [], cs) = []"
  by simp

lemma ms_Chr_Cons [simp]: "ms (Chr P) (i, x # s, cs) = (if P x then [(Suc i, s, cs)] else [])"
  by simp

declare ms.simps(2) [simp del]

end
