(* ===== verification/Matrix_Links.thy ===== *)
theory Matrix_Links
  imports Js_Regex
begin

text \<open>
  \<open>src/qml/pages/MatrixLinks.js\<close>: how a link is read (\<open>parse\<close>), whether a text carries a
  Matrix address (\<open>hasAddress\<close>), and where a tapped link leads (\<open>decide\<close>).
  \<open>decodeURIComponent\<close> is the one of ES5 15.1.3, with its exception as \<open>None\<close>.  An undefined
  or null link behaves as the empty string in every use the file makes of it.
\<close>

section \<open>Percent-decoding\<close>

definition hex_val :: "nat \<Rightarrow> nat option" where
  "hex_val c =
     (if is_digit c then Some (c - 48)
      else if 97 \<le> c \<and> c \<le> 102 then Some (c - 87)
      else if 65 \<le> c \<and> c \<le> 70 then Some (c - 55) else None)"

text \<open>One \<open>%XX\<close>: the octet and what follows.\<close>

fun pct :: "str \<Rightarrow> (nat \<times> str) option" where
  "pct (p # a # b # t) =
     (if p = 37 then (case (hex_val a, hex_val b) of
        (Some x, Some y) \<Rightarrow> Some (16 * x + y, t) | _ \<Rightarrow> None) else None)"
| "pct _ = None"

text \<open>The continuation octets \<open>10xxxxxx\<close> of a UTF-8 sequence.\<close>

fun conts :: "nat \<Rightarrow> nat \<Rightarrow> str \<Rightarrow> (nat \<times> str) option" where
  "conts 0 v s = Some (v, s)"
| "conts (Suc n) v s =
     (case pct s of None \<Rightarrow> None
      | Some (b, t) \<Rightarrow> if b div 64 = 2 then conts n (v * 64 + b mod 64) t else None)"

definition utf16 :: "nat \<Rightarrow> str" where
  "utf16 v = (if v < 0x10000 then [v]
              else [0xD800 + (v - 0x10000) div 1024, 0xDC00 + (v - 0x10000) mod 1024])"

text \<open>Length, initial bits and smallest value for the first octet of a longer sequence.\<close>

definition utf8_head :: "nat \<Rightarrow> (nat \<times> nat \<times> nat) option" where
  "utf8_head b =
     (if 0xC0 \<le> b \<and> b < 0xE0 then Some (1, b mod 32, 0x80)
      else if 0xE0 \<le> b \<and> b < 0xF0 then Some (2, b mod 16, 0x800)
      else if 0xF0 \<le> b \<and> b < 0xF8 then Some (3, b mod 8, 0x10000) else None)"

definition scalar_ok :: "nat \<Rightarrow> nat \<Rightarrow> bool" where
  "scalar_ok lo v \<longleftrightarrow> lo \<le> v \<and> v \<le> 0x10FFFF \<and> \<not> (0xD800 \<le> v \<and> v \<le> 0xDFFF)"

lemma pct_length: "pct s = Some (b, t) \<Longrightarrow> length t < length s"
  by (cases s rule: pct.cases) (auto split: if_splits option.splits)

lemma conts_length: "conts n v s = Some (w, t) \<Longrightarrow> length t \<le> length s"
  by (induction n v s rule: conts.induct) (force split: option.splits if_splits dest: pct_length)+

function decode_uri_component :: "str \<Rightarrow> str option" where
  "decode_uri_component [] = Some []"
| "decode_uri_component (c # cs) =
     (if c \<noteq> 37 then map_option ((#) c) (decode_uri_component cs)
      else (case pct (c # cs) of None \<Rightarrow> None
        | Some (b, t) \<Rightarrow>
            if b < 128 then map_option ((#) b) (decode_uri_component t)
            else (case utf8_head b of None \<Rightarrow> None
              | Some (n, v0, lo) \<Rightarrow>
                  (case conts n v0 t of None \<Rightarrow> None
                   | Some (v, u) \<Rightarrow>
                       if scalar_ok lo v then map_option ((@) (utf16 v)) (decode_uri_component u)
                       else None))))"
  by pat_completeness auto
termination
  by (relation "measure length") (auto dest!: pct_length conts_length)

definition safeDecode :: "str \<Rightarrow> str" where
  "safeDecode s = (case decode_uri_component s of None \<Rightarrow> s | Some t \<Rightarrow> t)"

lemma decode_plain: "37 \<notin> set s \<Longrightarrow> decode_uri_component s = Some s"
  by (induction s) auto

lemma safeDecode_plain: "37 \<notin> set s \<Longrightarrow> safeDecode s = s"
  by (simp add: safeDecode_def decode_plain)

section \<open>Addresses\<close>

definition local_char :: "nat \<Rightarrow> bool" where
  "local_char c \<longleftrightarrow> is_alnum c \<or> c = 46 \<or> c = 95 \<or> c = 61 \<or> c = 45 \<or> c = 47 \<or> c = 43"

definition server_char :: "nat \<Rightarrow> bool" where
  "server_char c \<longleftrightarrow> is_alnum c \<or> c = 46 \<or> c = 45"

definition sigil :: "nat \<Rightarrow> bool" where
  "sigil c \<longleftrightarrow> c = 35 \<or> c = 64 \<or> c = 33"

text \<open>\<open>[#@!][A-Za-z0-9._=\-\/+]+:[A-Za-z0-9.\-]+(?::[0-9]+)?\<close>\<close>

definition address_re :: re where
  "address_re = Seqs [Chr sigil, Plus (Chr local_char), Chr ((=) 58), Plus (Chr server_char),
     Opt (Seq (Chr ((=) 58)) (Plus (Chr is_digit)))]"

definition ADDRESS :: re where
  "ADDRESS = Grp 1 address_re"

definition INTERNAL_PREFIX :: str where
  "INTERNAL_PREFIX = lit ''xmatic:''"

section \<open>Reading a link\<close>

datatype link_kind = KRoom | KUser | KWeb | KNone

record link_target =
  lt_kind :: link_kind
  lt_id :: str

text \<open>
  The table \<open>{ r: #, roomid: !, u: @ }\<close>.  For a name every JavaScript object inherits the
  lookup is truthy too; the target then starts with the text of a function or of
  \<open>[object Object]\<close>, no sigil, and the link is refused a few lines later: the same result.
\<close>

definition sigil_of :: "str \<Rightarrow> nat option" where
  "sigil_of k = (if k = lit ''r'' then Some 35 else if k = lit ''roomid'' then Some 33
                 else if k = lit ''u'' then Some 64 else None)"

text \<open>\<open>/^https?:\/\/(www\.)?matrix\.to\/#\//i\<close>\<close>

definition permalink_re :: re where
  "permalink_re = Seqs [Bol, IWord (lit ''http''), Opt (IWord (lit ''s'')), IWord (lit ''://''),
     Opt (Grp 1 (IWord (lit ''www.''))), IWord (lit ''matrix.to/#/'')]"

definition link_text :: "str \<Rightarrow> str option" where
  "link_text link =
     (if starts_with INTERNAL_PREFIX link then Some (drop (length INTERNAL_PREFIX) link)
      else if starts_with (lit ''matrix:'') link then
        (let rest = hd (split_on ((=) 63) (drop (length (lit ''matrix:'')) link));
             parts = split_on ((=) 47) rest
         in if length parts < 2 then None
            else (case sigil_of (parts ! 0) of None \<Rightarrow> None
                  | Some c \<Rightarrow> Some (c # safeDecode (parts ! 1))))
      else
        (case (if test permalink_re link then index_of (lit ''matrix.to/#/'') link else None) of
           None \<Rightarrow> None
         | Some marker \<Rightarrow>
             (let target = safeDecode (drop (marker + length (lit ''matrix.to/#/'')) link)
              in Some (hd (split_on ((=) 47) (hd (split_on ((=) 63) target)))))))"

definition parse :: "str \<Rightarrow> link_target option" where
  "parse link =
     (if link = [] then None
      else (case link_text link of None \<Rightarrow> None
        | Some target \<Rightarrow>
            if length target < 3 then None
            else if hd target = 35 \<or> hd target = 33
              then Some \<lparr>lt_kind = KRoom, lt_id = target\<rparr>
            else if hd target = 64 then Some \<lparr>lt_kind = KUser, lt_id = target\<rparr>
            else None))"

definition hasAddress :: "str \<Rightarrow> bool" where
  "hasAddress body = test ADDRESS body"

text \<open>\<open>/^https?:\/\//i\<close>\<close>

definition web_scheme_re :: re where
  "web_scheme_re = Seqs [Bol, IWord (lit ''http''), Opt (IWord (lit ''s'')), IWord (lit ''://'')]"

definition decide :: "str \<Rightarrow> link_target" where
  "decide link =
     (case parse link of Some t \<Rightarrow> t
      | None \<Rightarrow>
          if test web_scheme_re link then \<lparr>lt_kind = KWeb, lt_id = link\<rparr>
          else \<lparr>lt_kind = KNone, lt_id = []\<rparr>)"

section \<open>Lemmas\<close>

lemma wf_address [simp]: "wf_re address_re"
  by (simp add: address_re_def)

lemma wf_ADDRESS [simp]: "wf_re ADDRESS"
  by (simp add: ADDRESS_def)

lemma address_minlen: "minlen address_re = 4"
  by (simp add: address_re_def)

definition address_char :: "nat \<Rightarrow> bool" where
  "address_char c \<longleftrightarrow> sigil c \<or> local_char c \<or> c = 58"

lemma address_chars: "chars_sub address_char address_re"
  by (auto simp: address_re_def address_char_def local_char_def server_char_def char_defs)

text \<open>What the scheme test and the permalink test accept.\<close>

lemma web_scheme_iff:
  "test web_scheme_re link \<longleftrightarrow>
     starts_with (lit ''http://'') (map ascii_lower link)
     \<or> starts_with (lit ''https://'') (map ascii_lower link)"
proof -
  have "test web_scheme_re link \<longleftrightarrow> (\<exists>y. ((0, link), y) \<in> den (IWord (lit ''http''))
      O den (Opt (IWord (lit ''s''))) O den (IWord (lit ''://'')) O Id)"
    unfolding web_scheme_re_def Seqs.simps
    by (subst test_Bol_den) (simp_all add: split_paired_Ex)
  also have "\<dots> \<longleftrightarrow> (\<exists>w\<in>{lit ''http'' @ lit ''://'', lit ''http'' @ lit ''s'' @ lit ''://''}.
      starts_with w (map ascii_lower link))"
    by (subst icase_words_iff) (auto simp: char_defs str_simps)
  finally show ?thesis by (simp add: str_simps)
qed

lemma permalink_iff:
  "test permalink_re link \<longleftrightarrow>
     (\<exists>h\<in>{lit ''http://matrix.to/#/'', lit ''https://matrix.to/#/'',
          lit ''http://www.matrix.to/#/'', lit ''https://www.matrix.to/#/''}.
        starts_with h (map ascii_lower link))"
proof -
  let ?R = "den (Opt (Grp 1 (IWord (lit ''www.'')))) O den (IWord (lit ''matrix.to/#/'')) O Id"
  let ?L = "map ascii_lower link"
  have R: "(\<exists>y. ((i, drop n link), y) \<in> ?R) \<longleftrightarrow> (\<exists>w\<in>{lit ''matrix.to/#/'', lit ''www.'' @ lit ''matrix.to/#/''}.
      starts_with w (drop n ?L))" for i n
  proof -
    have g: "den (Grp 1 r) = den r" for r by simp
    have up: "\<forall>c\<in>set (lit ''www.''). \<not> is_upper c" "\<forall>c\<in>set (lit ''matrix.to/#/''). \<not> is_upper c"
      by (simp_all add: char_defs str_simps)
    have fold: "starts_with w (map ascii_lower (drop k link)) = starts_with w (drop k ?L)" for w k
      by (simp add: drop_map)
    have "(\<exists>y. ((i, drop n link), y) \<in> ?R) \<longleftrightarrow>
        starts_with (lit ''matrix.to/#/'') (drop n ?L)
        \<or> starts_with (lit ''www.'') (drop n ?L)
           \<and> starts_with (lit ''matrix.to/#/'') (drop (length (lit ''www.'')) (drop n ?L))"
      by (simp only: den_Opt_comp g den_IWord_comp [OF up(1)] den_IWord_comp [OF up(2)] fold
          drop_drop ex_disj_distrib pair_in_Id_conv ex_simps simp_thms)
    then show ?thesis by (simp only: starts_with_two bex_simps insert_iff empty_iff) blast
  qed
  have "test permalink_re link \<longleftrightarrow> (\<exists>y. ((0, link), y) \<in> den (IWord (lit ''http''))
      O den (Opt (IWord (lit ''s''))) O den (IWord (lit ''://'')) O ?R)"
    unfolding permalink_re_def Seqs.simps
    by (subst test_Bol_den) (simp_all add: split_paired_Ex)
  also have "\<dots> \<longleftrightarrow> (\<exists>w\<in>{lit ''http'' @ lit ''://'', lit ''http'' @ lit ''s'' @ lit ''://''}.
      starts_with w ?L \<and> (\<exists>y. ((0 + length w, drop (length w) link), y) \<in> ?R))"
    by (rule icase_words_iff) (auto simp: char_defs str_simps)
  also have "\<dots> \<longleftrightarrow> (\<exists>w\<in>{lit ''http'' @ lit ''://'', lit ''http'' @ lit ''s'' @ lit ''://''}.
      \<exists>v\<in>{lit ''matrix.to/#/'', lit ''www.'' @ lit ''matrix.to/#/''}. starts_with (w @ v) ?L)"
    unfolding R starts_with_two [symmetric] by blast
  finally show ?thesis by (simp only: bex_simps insert_iff empty_iff) (simp add: str_simps, blast)
qed

lemma parse_Some:
  "parse link = Some t \<Longrightarrow>
   link_text link = Some (lt_id t) \<and> 3 \<le> length (lt_id t)
   \<and> (lt_kind t = KRoom \<and> (hd (lt_id t) = 35 \<or> hd (lt_id t) = 33)
      \<or> lt_kind t = KUser \<and> hd (lt_id t) = 64)"
  by (auto simp: parse_def split: option.splits if_splits)

lemma ascii_lower_fixed: "\<forall>c\<in>set p. \<not> is_upper c \<Longrightarrow> starts_with p s \<Longrightarrow> starts_with p (map ascii_lower s)"
  by (induction p s rule: starts_with.induct) (auto simp: ascii_lower_def)

text \<open>An address as the linker finds it: its first character and its size.\<close>

lemma address_found:
  assumes "find_from ADDRESS i s = Some (pre, m, post, cs)"
  shows "4 \<le> length m" "sigil (hd m)" "\<forall>c\<in>set m. address_char c"
proof -
  have sub: "chars_sub address_char ADDRESS" and len: "minlen ADDRESS = 4"
    using address_chars address_minlen by (simp_all add: ADDRESS_def)
  from find_from_eats [OF wf_ADDRESS sub assms] len
  show l: "4 \<le> length m" and "\<forall>c\<in>set m. address_char c" by auto
  from find_from_den(2) [OF wf_ADDRESS assms]
  obtain u where "((i + length pre, m @ post), u) \<in> den (Chr sigil)"
    by (auto simp: ADDRESS_def address_re_def)
  with l show "sigil (hd m)" by (cases m) auto
qed

section \<open>Properties\<close>

text \<open>\<open>decide\<close> never returns a target of the wrong shape: a room starts with \<open>#\<close> or \<open>!\<close>, a
  user with \<open>@\<close>, both have at least three characters; a web target is the link itself and
  carries an http or https scheme; everything else is \<open>none\<close> with an empty id.\<close>

theorem decide_sound:
  "case lt_kind (decide link) of
     KRoom \<Rightarrow> hd (lt_id (decide link)) \<in> {35, 33} \<and> 3 \<le> length (lt_id (decide link))
   | KUser \<Rightarrow> hd (lt_id (decide link)) = 64 \<and> 3 \<le> length (lt_id (decide link))
   | KWeb \<Rightarrow> lt_id (decide link) = link \<and> parse link = None
        \<and> (starts_with (lit ''http://'') (map ascii_lower link)
           \<or> starts_with (lit ''https://'') (map ascii_lower link))
   | KNone \<Rightarrow> lt_id (decide link) = []"
  by (auto simp: decide_def web_scheme_iff dest!: parse_Some split: option.split link_kind.split)

text \<open>C15: A link is read as a Matrix target only if it is the app's own \<open>xmatic:\<close>, a \<open>matrix:\<close>
  address, or an http(s) address whose host is exactly \<open>matrix.to\<close> or \<open>www.matrix.to\<close>
  (in any case): a host that merely contains the name is a web link.\<close>

theorem internal_link_host:
  assumes "lt_kind (decide link) \<in> {KRoom, KUser}"
  shows "starts_with INTERNAL_PREFIX link \<or> starts_with (lit ''matrix:'') link
    \<or> (\<exists>h\<in>{lit ''http://matrix.to/#/'', lit ''https://matrix.to/#/'',
          lit ''http://www.matrix.to/#/'', lit ''https://www.matrix.to/#/''}.
        starts_with h (map ascii_lower link))"
proof -
  from assms obtain t where "parse link = Some t"
    by (auto simp: decide_def split: option.splits if_splits)
  then have "link_text link \<noteq> None" by (auto dest: parse_Some)
  then show ?thesis
    unfolding permalink_iff [symmetric] by (auto simp: link_text_def split: if_splits)
qed

theorem internal_link_host_witness:
  "starts_with INTERNAL_PREFIX (lit ''xmatic:#a:b'')
   \<or> starts_with (lit ''matrix:'') (lit ''xmatic:#a:b'')
   \<or> (\<exists>h\<in>{lit ''http://matrix.to/#/'', lit ''https://matrix.to/#/'',
          lit ''http://www.matrix.to/#/'', lit ''https://www.matrix.to/#/''}.
        starts_with h (map ascii_lower (lit ''xmatic:#a:b'')))"
  by (rule internal_link_host)
     (simp add: decide_def parse_def link_text_def INTERNAL_PREFIX_def str_simps)

text \<open>C28: Round trip of the app's own links: for every Matrix address found in a text, the link
  \<open>xmatic:\<close> plus that address leads to that very room or user, nothing cut and nothing
  decoded.\<close>

theorem decide_own_link:
  assumes "find_re ADDRESS body = Some (pre, address, post, cs)"
  shows "decide (INTERNAL_PREFIX @ address)
    = \<lparr>lt_kind = (if hd address = 64 then KUser else KRoom), lt_id = address\<rparr>"
proof -
  note a = address_found [OF assms]
  have "link_text (INTERNAL_PREFIX @ address) = Some address"
    by (simp add: link_text_def)
  moreover have "INTERNAL_PREFIX @ address \<noteq> []" using a(1) by auto
  ultimately show ?thesis
    using a(1,2) by (auto simp: decide_def parse_def sigil_def)
qed

theorem decide_own_link_witness:
  "decide (INTERNAL_PREFIX @ lit ''@a:b'')
    = \<lparr>lt_kind = (if hd (lit ''@a:b'') = 64 then KUser else KRoom), lt_id = lit ''@a:b''\<rparr>"
  by (rule decide_own_link [of "lit ''x @a:b''" "lit ''x ''" "lit ''@a:b''" "[]" "[(1, lit ''@a:b'')]"])
     code_simp

text \<open>Round trip of permalinks: a matrix.to link to an id without \<open>%\<close>, \<open>?\<close> and \<open>/\<close> leads to
  that id, whatever event id or via servers follow it.\<close>

theorem decide_permalink:
  assumes "3 \<le> length x" and "sigil (hd x)" and "\<forall>c\<in>set x. c \<noteq> 63 \<and> c \<noteq> 47"
    and "37 \<notin> set (x @ rest)" and "rest = [] \<or> hd rest = 63 \<or> hd rest = 47"
  shows "decide (lit ''https://matrix.to/#/'' @ x @ rest)
    = \<lparr>lt_kind = (if hd x = 64 then KUser else KRoom), lt_id = x\<rparr>"
proof -
  let ?link = "lit ''https://matrix.to/#/'' @ x @ rest"
  have perm: "test permalink_re ?link"
    unfolding permalink_iff by (simp add: str_simps ascii_lower_def is_upper_def)
  have idx: "index_of (lit ''matrix.to/#/'') ?link = Some 8"
    by (simp add: str_simps)
  have dec: "safeDecode (x @ rest) = x @ rest"
    using assms(4) by (rule safeDecode_plain)
  have tw: "takeWhile (\<lambda>c. c \<noteq> 63) x = x" "takeWhile (\<lambda>c. c \<noteq> 47) x = x"
    using assms(3) by (auto simp: takeWhile_eq_all_conv)
  have cut: "hd (split_on ((=) 47) (hd (split_on ((=) 63) (x @ rest)))) = x"
    using assms(3,5) by (cases rest) (auto simp: hd_split_on takeWhile_append tw)
  have "link_text ?link = Some x"
    unfolding link_text_def using perm idx dec cut
    by (simp add: INTERNAL_PREFIX_def str_simps)
  then show ?thesis
    using assms(1,2) by (auto simp: decide_def parse_def sigil_def str_simps)
qed

theorem decide_permalink_witness:
  "decide (lit ''https://matrix.to/#/'' @ lit ''#room:example.org'' @ lit ''?via=x'')
    = \<lparr>lt_kind = (if hd (lit ''#room:example.org'') = 64 then KUser else KRoom),
       lt_id = lit ''#room:example.org''\<rparr>"
  by (rule decide_permalink) (simp_all add: str_simps sigil_def)

text \<open>Two divergences of the permalink reader.  The host test ignores case but the
  position of the target is looked up with case, so a permalink with a capital letter in its host
  is a web link; and percent-decoding happens before the path is cut, so an encoded slash inside
  an alias cuts the alias.\<close>

theorem permalink_divergences:
  "lt_kind (decide (lit ''https://Matrix.to/#/#room:example.org'')) = KWeb
   \<and> test permalink_re (lit ''https://Matrix.to/#/#room:example.org'')
   \<and> lt_id (decide (lit ''https://matrix.to/#/%23abc%2Fd:example.org'')) = lit ''#abc''"
  by code_simp

end
