(* ===== verification/Emoji_Data.thy ===== *)
theory Emoji_Data
  imports Prelude
begin

text \<open>
  \<open>src/qml/pages/Emoji.js\<close>: the ten groups of the emoji picker, each an icon and the list of
  its sequences in UTF-16 code units, in the order of the file.  Data only; \<open>Formatting\<close> builds
  its dictionary from it.
\<close>

record emoji_group =
  icon :: str
  items :: "str list"

definition emoji_group_1 :: emoji_group where
  "emoji_group_1 = \<lparr>icon = [11088], items = [
    [55357,56397], [55357,56398], [10084,65039], [55357,56834], [55356,57225], [55357,56878],
    [55357,56866], [55357,56911]]\<rparr>"

definition emoji_group_2 :: emoji_group where
  "emoji_group_2 = \<lparr>icon = [55357,56832], items = [
    [55357,56832], [55357,56835], [55357,56836], [55357,56833], [55357,56838], [55357,56837],
    [55358,56611], [55357,56834], [55357,56898], [55357,56899], [55358,57056], [55357,56841],
    [55357,56842], [55357,56839], [55358,56688], [55357,56845], [55358,56617], [55357,56856],
    [55357,56855], [9786,65039], [55357,56858], [55357,56857], [55358,56690], [55357,56843],
    [55357,56859], [55357,56860], [55358,56618], [55357,56861], [55358,56593], [55358,56599],
    [55358,56621], [55358,57058], [55358,57059], [55358,56619], [55358,56596], [55358,57057],
    [55358,56592], [55358,56616], [55357,56848], [55357,56849], [55357,56886], [55358,57061],
    [55357,56886,8205,55356,57131,65039], [55357,56847], [55357,56850], [55357,56900],
    [55357,56876], [55357,56878,8205,55357,56488], [55358,56613], [55358,57064],
    [55357,56898,8205,8596,65039], [55357,56898,8205,8597,65039], [55357,56844], [55357,56852],
    [55357,56874], [55358,56612], [55357,56884], [55358,57065], [55357,56887], [55358,56594],
    [55358,56597], [55358,56610], [55358,56622], [55358,56615], [55358,56693], [55358,56694],
    [55358,56692], [55357,56885], [55357,56885,8205,55357,56491], [55358,56623], [55358,56608],
    [55358,56691], [55358,56696], [55357,56846], [55358,56595], [55358,56784], [55357,56853],
    [55358,57060], [55357,56863], [55357,56897], [9785,65039], [55357,56878], [55357,56879],
    [55357,56882], [55357,56883], [55358,56698], [55358,56697], [55357,56870], [55357,56871],
    [55357,56872], [55357,56880], [55357,56869], [55357,56866], [55357,56877], [55357,56881],
    [55357,56854], [55357,56867], [55357,56862], [55357,56851], [55357,56873], [55357,56875],
    [55358,56689], [55357,56868], [55357,56865], [55357,56864], [55358,56620], [55357,56840],
    [55357,56447], [55357,56448], [9760,65039], [55357,56489], [55358,56609], [55357,56441],
    [55357,56442], [55357,56443], [55357,56445], [55357,56446], [55358,56598], [55357,56890],
    [55357,56888], [55357,56889], [55357,56891], [55357,56892], [55357,56893], [55357,56896],
    [55357,56895], [55357,56894], [55357,56904], [55357,56905], [55357,56906], [55357,56460],
    [55357,56472], [55357,56477], [55357,56470], [55357,56471], [55357,56467], [55357,56478],
    [55357,56469], [55357,56479], [10083,65039], [55357,56468], [10084,65039,8205,55357,56613],
    [10084,65039,8205,55358,56953], [10084,65039], [55358,56951], [55358,56801], [55357,56475],
    [55357,56474], [55357,56473], [55358,56949], [55357,56476], [55358,56590], [55357,56740],
    [55358,56950], [55358,56589], [55357,56459], [55357,56495], [55357,56482], [55357,56485],
    [55357,56491], [55357,56486], [55357,56488], [55357,56691,65039], [55357,56492],
    [55357,56385,65039,8205,55357,56808,65039], [55357,56808,65039], [55357,56815,65039],
    [55357,56493], [55357,56484]]\<rparr>"

definition emoji_group_3 :: emoji_group where
  "emoji_group_3 = \<lparr>icon = [55357,56395], items = [
    [55357,56395], [55358,56602], [55357,56720,65039], [9995], [55357,56726], [55358,57073],
    [55358,57074], [55358,57075], [55358,57076], [55358,57079], [55358,57080], [55357,56396],
    [55358,56588], [55358,56591], [9996,65039], [55358,56606], [55358,57072], [55358,56607],
    [55358,56600], [55358,56601], [55357,56392], [55357,56393], [55357,56390], [55357,56725],
    [55357,56391], [9757,65039], [55358,57077], [55357,56397], [55357,56398], [9994],
    [55357,56394], [55358,56603], [55358,56604], [55357,56399], [55357,56908], [55358,57078],
    [55357,56400], [55358,56626], [55358,56605], [55357,56911], [9997,65039], [55357,56453],
    [55358,56627], [55357,56490], [55358,56766], [55358,56767], [55358,56757], [55358,56758],
    [55357,56386], [55358,56763], [55357,56387], [55358,56800], [55358,57024], [55358,57025],
    [55358,56759], [55358,56756], [55357,56384], [55357,56385,65039], [55357,56389],
    [55357,56388], [55358,57062], [55357,56438], [55358,56786], [55357,56422], [55357,56423],
    [55358,56785], [55357,56433], [55357,56424], [55358,56788], [55358,56788,8205,9794,65039],
    [55358,56788,8205,9792,65039], [55357,56424,8205,55358,56752],
    [55357,56424,8205,55358,56753], [55357,56424,8205,55358,56755],
    [55357,56424,8205,55358,56754], [55357,56425], [55357,56425,8205,55358,56752],
    [55358,56785,8205,55358,56752], [55357,56425,8205,55358,56753],
    [55358,56785,8205,55358,56753], [55357,56425,8205,55358,56755],
    [55358,56785,8205,55358,56755], [55357,56425,8205,55358,56754],
    [55358,56785,8205,55358,56754], [55357,56433,8205,9792,65039],
    [55357,56433,8205,9794,65039], [55358,56787], [55357,56436], [55357,56437], [55357,56909],
    [55357,56909,8205,9794,65039], [55357,56909,8205,9792,65039], [55357,56910],
    [55357,56910,8205,9794,65039], [55357,56910,8205,9792,65039], [55357,56901],
    [55357,56901,8205,9794,65039], [55357,56901,8205,9792,65039], [55357,56902],
    [55357,56902,8205,9794,65039], [55357,56902,8205,9792,65039], [55357,56449],
    [55357,56449,8205,9794,65039], [55357,56449,8205,9792,65039], [55357,56907],
    [55357,56907,8205,9794,65039], [55357,56907,8205,9792,65039], [55358,56783],
    [55358,56783,8205,9794,65039], [55358,56783,8205,9792,65039], [55357,56903],
    [55357,56903,8205,9794,65039], [55357,56903,8205,9792,65039], [55358,56614],
    [55358,56614,8205,9794,65039], [55358,56614,8205,9792,65039], [55358,56631],
    [55358,56631,8205,9794,65039], [55358,56631,8205,9792,65039], [55358,56785,8205,9877,65039],
    [55357,56424,8205,9877,65039], [55357,56425,8205,9877,65039],
    [55358,56785,8205,55356,57235], [55357,56424,8205,55356,57235],
    [55357,56425,8205,55356,57235], [55358,56785,8205,55356,57323],
    [55357,56424,8205,55356,57323], [55357,56425,8205,55356,57323],
    [55358,56785,8205,9878,65039], [55357,56424,8205,9878,65039], [55357,56425,8205,9878,65039],
    [55358,56785,8205,55356,57150], [55357,56424,8205,55356,57150],
    [55357,56425,8205,55356,57150], [55358,56785,8205,55356,57203],
    [55357,56424,8205,55356,57203], [55357,56425,8205,55356,57203],
    [55358,56785,8205,55357,56615], [55357,56424,8205,55357,56615],
    [55357,56425,8205,55357,56615], [55358,56785,8205,55356,57325],
    [55357,56424,8205,55356,57325], [55357,56425,8205,55356,57325],
    [55358,56785,8205,55357,56508], [55357,56424,8205,55357,56508],
    [55357,56425,8205,55357,56508], [55358,56785,8205,55357,56620],
    [55357,56424,8205,55357,56620], [55357,56425,8205,55357,56620],
    [55358,56785,8205,55357,56507], [55357,56424,8205,55357,56507],
    [55357,56425,8205,55357,56507], [55358,56785,8205,55356,57252],
    [55357,56424,8205,55356,57252], [55357,56425,8205,55356,57252],
    [55358,56785,8205,55356,57256], [55357,56424,8205,55356,57256],
    [55357,56425,8205,55356,57256], [55358,56785,8205,9992,65039],
    [55357,56424,8205,9992,65039], [55357,56425,8205,9992,65039],
    [55358,56785,8205,55357,56960], [55357,56424,8205,55357,56960],
    [55357,56425,8205,55357,56960], [55358,56785,8205,55357,56978],
    [55357,56424,8205,55357,56978], [55357,56425,8205,55357,56978], [55357,56430],
    [55357,56430,8205,9794,65039], [55357,56430,8205,9792,65039], [55357,56693,65039],
    [55357,56693,65039,8205,9794,65039], [55357,56693,65039,8205,9792,65039], [55357,56450],
    [55357,56450,8205,9794,65039], [55357,56450,8205,9792,65039], [55358,56695], [55357,56439],
    [55357,56439,8205,9794,65039], [55357,56439,8205,9792,65039], [55358,57029], [55358,56628],
    [55357,56440], [55357,56435], [55357,56435,8205,9794,65039], [55357,56435,8205,9792,65039],
    [55357,56434], [55358,56789], [55358,56629], [55358,56629,8205,9794,65039],
    [55358,56629,8205,9792,65039], [55357,56432], [55357,56432,8205,9794,65039],
    [55357,56432,8205,9792,65039], [55358,56624], [55358,57027], [55358,57028], [55358,56625],
    [55357,56425,8205,55356,57212], [55357,56424,8205,55356,57212],
    [55358,56785,8205,55356,57212], [55357,56444], [55356,57221], [55358,56630],
    [55358,56785,8205,55356,57220], [55358,56760], [55358,56760,8205,9794,65039],
    [55358,56760,8205,9792,65039], [55358,56761], [55358,56761,8205,9794,65039],
    [55358,56761,8205,9792,65039], [55358,56793], [55358,56793,8205,9794,65039],
    [55358,56793,8205,9792,65039], [55358,56794], [55358,56794,8205,9794,65039],
    [55358,56794,8205,9792,65039], [55358,56795], [55358,56795,8205,9794,65039],
    [55358,56795,8205,9792,65039], [55358,56796], [55358,56796,8205,9794,65039],
    [55358,56796,8205,9792,65039], [55358,56797], [55358,56797,8205,9794,65039],
    [55358,56797,8205,9792,65039], [55358,56798], [55358,56798,8205,9794,65039],
    [55358,56798,8205,9792,65039], [55358,56799], [55358,56799,8205,9794,65039],
    [55358,56799,8205,9792,65039], [55358,56780], [55357,56454], [55357,56454,8205,9794,65039],
    [55357,56454,8205,9792,65039], [55357,56455], [55357,56455,8205,9794,65039],
    [55357,56455,8205,9792,65039], [55357,57014], [55357,57014,8205,9794,65039],
    [55357,57014,8205,9792,65039], [55357,57014,8205,10145,65039],
    [55357,57014,8205,9792,65039,8205,10145,65039],
    [55357,57014,8205,9794,65039,8205,10145,65039], [55358,56781],
    [55358,56781,8205,9794,65039], [55358,56781,8205,9792,65039], [55358,56782],
    [55358,56782,8205,9794,65039], [55358,56782,8205,9792,65039],
    [55358,56782,8205,10145,65039], [55358,56782,8205,9792,65039,8205,10145,65039],
    [55358,56782,8205,9794,65039,8205,10145,65039], [55358,56785,8205,55358,56751],
    [55358,56785,8205,55358,56751,8205,10145,65039], [55357,56424,8205,55358,56751],
    [55357,56424,8205,55358,56751,8205,10145,65039], [55357,56425,8205,55358,56751],
    [55357,56425,8205,55358,56751,8205,10145,65039], [55358,56785,8205,55358,56764],
    [55358,56785,8205,55358,56764,8205,10145,65039], [55357,56424,8205,55358,56764],
    [55357,56424,8205,55358,56764,8205,10145,65039], [55357,56425,8205,55358,56764],
    [55357,56425,8205,55358,56764,8205,10145,65039], [55358,56785,8205,55358,56765],
    [55358,56785,8205,55358,56765,8205,10145,65039], [55357,56424,8205,55358,56765],
    [55357,56424,8205,55358,56765,8205,10145,65039], [55357,56425,8205,55358,56765],
    [55357,56425,8205,55358,56765,8205,10145,65039], [55356,57283],
    [55356,57283,8205,9794,65039], [55356,57283,8205,9792,65039],
    [55356,57283,8205,10145,65039], [55356,57283,8205,9792,65039,8205,10145,65039],
    [55356,57283,8205,9794,65039,8205,10145,65039], [55357,56451], [55357,56698],
    [55357,56692,65039], [55357,56431], [55357,56431,8205,9794,65039],
    [55357,56431,8205,9792,65039], [55358,56790], [55358,56790,8205,9794,65039],
    [55358,56790,8205,9792,65039], [55358,56791], [55358,56791,8205,9794,65039],
    [55358,56791,8205,9792,65039], [55358,56634], [55356,57287], [9975,65039], [55356,57282],
    [55356,57292,65039], [55356,57292,65039,8205,9794,65039],
    [55356,57292,65039,8205,9792,65039], [55356,57284], [55356,57284,8205,9794,65039],
    [55356,57284,8205,9792,65039], [55357,56995], [55357,56995,8205,9794,65039],
    [55357,56995,8205,9792,65039], [55356,57290], [55356,57290,8205,9794,65039],
    [55356,57290,8205,9792,65039], [9977,65039], [9977,65039,8205,9794,65039],
    [9977,65039,8205,9792,65039], [55356,57291,65039], [55356,57291,65039,8205,9794,65039],
    [55356,57291,65039,8205,9792,65039], [55357,57012], [55357,57012,8205,9794,65039],
    [55357,57012,8205,9792,65039], [55357,57013], [55357,57013,8205,9794,65039],
    [55357,57013,8205,9792,65039], [55358,56632], [55358,56632,8205,9794,65039],
    [55358,56632,8205,9792,65039], [55358,56636], [55358,56636,8205,9794,65039],
    [55358,56636,8205,9792,65039], [55358,56637], [55358,56637,8205,9794,65039],
    [55358,56637,8205,9792,65039], [55358,56638], [55358,56638,8205,9794,65039],
    [55358,56638,8205,9792,65039], [55358,56633], [55358,56633,8205,9794,65039],
    [55358,56633,8205,9792,65039], [55358,56792], [55358,56792,8205,9794,65039],
    [55358,56792,8205,9792,65039], [55357,57024], [55357,57036],
    [55358,56785,8205,55358,56605,8205,55358,56785], [55357,56429], [55357,56427],
    [55357,56428], [55357,56463],
    [55357,56425,8205,10084,65039,8205,55357,56459,8205,55357,56424],
    [55357,56424,8205,10084,65039,8205,55357,56459,8205,55357,56424],
    [55357,56425,8205,10084,65039,8205,55357,56459,8205,55357,56425], [55357,56465],
    [55357,56425,8205,10084,65039,8205,55357,56424],
    [55357,56424,8205,10084,65039,8205,55357,56424],
    [55357,56425,8205,10084,65039,8205,55357,56425],
    [55357,56424,8205,55357,56425,8205,55357,56422],
    [55357,56424,8205,55357,56425,8205,55357,56423],
    [55357,56424,8205,55357,56425,8205,55357,56423,8205,55357,56422],
    [55357,56424,8205,55357,56425,8205,55357,56422,8205,55357,56422],
    [55357,56424,8205,55357,56425,8205,55357,56423,8205,55357,56423],
    [55357,56424,8205,55357,56424,8205,55357,56422],
    [55357,56424,8205,55357,56424,8205,55357,56423],
    [55357,56424,8205,55357,56424,8205,55357,56423,8205,55357,56422],
    [55357,56424,8205,55357,56424,8205,55357,56422,8205,55357,56422],
    [55357,56424,8205,55357,56424,8205,55357,56423,8205,55357,56423],
    [55357,56425,8205,55357,56425,8205,55357,56422],
    [55357,56425,8205,55357,56425,8205,55357,56423],
    [55357,56425,8205,55357,56425,8205,55357,56423,8205,55357,56422],
    [55357,56425,8205,55357,56425,8205,55357,56422,8205,55357,56422],
    [55357,56425,8205,55357,56425,8205,55357,56423,8205,55357,56423],
    [55357,56424,8205,55357,56422], [55357,56424,8205,55357,56422,8205,55357,56422],
    [55357,56424,8205,55357,56423], [55357,56424,8205,55357,56423,8205,55357,56422],
    [55357,56424,8205,55357,56423,8205,55357,56423], [55357,56425,8205,55357,56422],
    [55357,56425,8205,55357,56422,8205,55357,56422], [55357,56425,8205,55357,56423],
    [55357,56425,8205,55357,56423,8205,55357,56422],
    [55357,56425,8205,55357,56423,8205,55357,56423], [55357,56803,65039], [55357,56420],
    [55357,56421], [55358,57026], [55357,56426],
    [55358,56785,8205,55358,56785,8205,55358,56786],
    [55358,56785,8205,55358,56785,8205,55358,56786,8205,55358,56786],
    [55358,56785,8205,55358,56786], [55358,56785,8205,55358,56786,8205,55358,56786],
    [55357,56419], [55358,57030]]\<rparr>"

definition emoji_group_4 :: emoji_group where
  "emoji_group_4 = \<lparr>icon = [55357,56379], items = [
    [55357,56373], [55357,56338], [55358,56717], [55358,56743], [55357,56374], [55357,56341],
    [55358,56750], [55357,56341,8205,55358,56762], [55357,56361], [55357,56378], [55358,56714],
    [55358,56733], [55357,56369], [55357,56328], [55357,56328,8205,11035], [55358,56705],
    [55357,56367], [55357,56325], [55357,56326], [55357,56372], [55358,57038], [55358,57039],
    [55357,56334], [55358,56708], [55358,56723], [55358,56716], [55358,56748], [55357,56366],
    [55357,56322], [55357,56323], [55357,56324], [55357,56375], [55357,56342], [55357,56343],
    [55357,56381], [55357,56335], [55357,56337], [55357,56336], [55357,56362], [55357,56363],
    [55358,56729], [55358,56722], [55357,56344], [55358,56739], [55358,56719], [55358,56731],
    [55357,56365], [55357,56321], [55357,56320], [55357,56377], [55357,56368], [55357,56327],
    [55357,56383,65039], [55358,56747], [55358,56724], [55358,56711], [55357,56379],
    [55357,56379,8205,10052,65039], [55357,56360], [55357,56380], [55358,56741], [55358,56742],
    [55358,56744], [55358,56728], [55358,56737], [55357,56382], [55358,56707], [55357,56340],
    [55357,56339], [55357,56355], [55357,56356], [55357,56357], [55357,56358], [55357,56359],
    [55357,56650,65039], [55358,56709], [55358,56710], [55358,56738], [55358,56713],
    [55358,56740], [55358,57014], [55358,56745], [55358,56730], [55358,56732], [55358,57021],
    [55357,56358,8205,11035], [55358,57023], [55357,56358,8205,55357,56613], [55357,56376],
    [55357,56330], [55357,56354], [55358,56718], [55357,56333], [55357,56370], [55357,56329],
    [55358,56725], [55358,56726], [55357,56371], [55357,56331], [55357,56364], [55358,56749],
    [55357,56351], [55357,56352], [55357,56353], [55358,56712], [55357,56345], [55357,56346],
    [55358,57016], [55358,57020], [55358,56704], [55358,56734], [55358,56720], [55358,56721],
    [55358,56746], [55357,56332], [55358,56715], [55357,56347], [55357,56348], [55357,56349],
    [55358,57010], [55357,56350], [55358,56727], [55358,57011], [55357,56695,65039],
    [55357,56696,65039], [55358,56706], [55358,56735], [55358,57008], [55358,57009],
    [55358,56736], [55357,56464], [55356,57144], [55357,56494], [55358,57015],
    [55356,57333,65039], [55356,57145], [55358,56640], [55356,57146], [55356,57147],
    [55356,57148], [55356,57143], [55358,57019], [55356,57137], [55358,57012], [55356,57138],
    [55356,57139], [55356,57140], [55356,57141], [55356,57150], [55356,57151], [9752,65039],
    [55356,57152], [55356,57153], [55356,57154], [55356,57155], [55358,57017], [55358,57018],
    [55356,57156], [55358,57022]]\<rparr>"

definition emoji_group_5 :: emoji_group where
  "emoji_group_5 = \<lparr>icon = [55356,57166], items = [
    [55356,57159], [55356,57160], [55356,57161], [55356,57162], [55356,57163],
    [55356,57163,8205,55357,57321], [55356,57164], [55356,57165], [55358,56685], [55356,57166],
    [55356,57167], [55356,57168], [55356,57169], [55356,57170], [55356,57171], [55358,57040],
    [55358,56669], [55356,57157], [55358,57042], [55358,56677], [55358,56657], [55356,57158],
    [55358,56660], [55358,56661], [55356,57149], [55356,57142,65039], [55358,57041],
    [55358,56658], [55358,56684], [55358,56678], [55358,56772], [55358,56773], [55358,56668],
    [55358,57048], [55356,57136], [55358,57050], [55358,57051], [55356,57156,8205,55357,57323],
    [55358,57052], [55356,57182], [55358,56656], [55358,56662], [55358,57043], [55358,56680],
    [55358,56687], [55358,56670], [55358,56775], [55358,56768], [55356,57174], [55356,57175],
    [55358,56681], [55358,56659], [55356,57172], [55356,57183], [55356,57173], [55356,57133],
    [55358,56682], [55356,57134], [55356,57135], [55358,57044], [55358,56665], [55358,56774],
    [55358,56666], [55356,57203], [55358,56664], [55356,57202], [55358,57045], [55358,56675],
    [55358,56663], [55356,57215], [55358,56776], [55358,56770], [55358,56683], [55356,57201],
    [55356,57176], [55356,57177], [55356,57178], [55356,57179], [55356,57180], [55356,57181],
    [55356,57184], [55356,57186], [55356,57187], [55356,57188], [55356,57189], [55358,56686],
    [55356,57185], [55358,56671], [55358,56672], [55358,56673], [55356,57190], [55356,57191],
    [55356,57192], [55356,57193], [55356,57194], [55356,57218], [55356,57200], [55358,56769],
    [55358,56679], [55356,57195], [55356,57196], [55356,57197], [55356,57198], [55356,57199],
    [55356,57212], [55358,56667], [9749], [55358,57046], [55356,57205], [55356,57206],
    [55356,57214], [55356,57207], [55356,57208], [55356,57209], [55356,57210], [55356,57211],
    [55358,56642], [55358,56643], [55358,57047], [55358,56676], [55358,56779], [55358,56771],
    [55358,56777], [55358,56778], [55358,56674], [55356,57213,65039], [55356,57204],
    [55358,56644], [55357,56618], [55358,57049], [55356,57338]]\<rparr>"

definition emoji_group_6 :: emoji_group where
  "emoji_group_6 = \<lparr>icon = [9917], items = [
    [55356,57219], [55356,57220], [55356,57222], [55356,57223], [55358,56808], [10024],
    [55356,57224], [55356,57225], [55356,57226], [55356,57227], [55356,57229], [55356,57230],
    [55356,57231], [55356,57232], [55356,57233], [55358,56807], [55356,57216], [55356,57217],
    [55356,57239,65039], [55356,57247,65039], [55356,57259], [55356,57238,65039], [55356,57286],
    [55356,57285], [55358,56647], [55358,56648], [55358,56649], [9917], [9918], [55358,56654],
    [55356,57280], [55356,57296], [55356,57288], [55356,57289], [55356,57278], [55358,56655],
    [55356,57267], [55356,57295], [55356,57297], [55356,57298], [55358,56653], [55356,57299],
    [55356,57336], [55358,56650], [55358,56651], [55358,56645], [9971], [9976,65039],
    [55356,57251], [55358,56639], [55356,57277], [55356,57279], [55357,57079], [55358,56652],
    [55356,57263], [55358,56960], [55358,56961], [55357,56619], [55356,57265], [55357,56622],
    [55358,56964], [55356,57262], [55357,56697,65039], [55356,57264], [55356,57266],
    [55358,56809], [55358,56824], [55358,56965], [55358,57001], [55358,56966], [9824,65039],
    [9829,65039], [9830,65039], [9827,65039], [9823,65039], [55356,56527], [55356,56324],
    [55356,57268], [55356,57261], [55357,56764,65039], [55356,57256], [55358,56821],
    [55358,56993], [55358,56822], [55358,56994]]\<rparr>"

definition emoji_group_7 :: emoji_group where
  "emoji_group_7 = \<lparr>icon = [9992,65039], items = [
    [55356,57101], [55356,57102], [55356,57103], [55356,57104], [55357,56826,65039],
    [55357,56830], [55358,56813], [55356,57300,65039], [9968,65039], [55356,57099],
    [55357,56827], [55356,57301,65039], [55356,57302,65039], [55356,57308,65039],
    [55356,57309,65039], [55356,57310,65039], [55356,57311,65039], [55356,57307,65039],
    [55356,57303,65039], [55358,56817], [55358,57000], [55358,57013], [55357,57046],
    [55356,57304,65039], [55356,57306,65039], [55356,57312], [55356,57313], [55356,57314],
    [55356,57315], [55356,57316], [55356,57317], [55356,57318], [55356,57320], [55356,57321],
    [55356,57322], [55356,57323], [55356,57324], [55356,57325], [55356,57327], [55356,57328],
    [55357,56466], [55357,56828], [55357,56829], [9962], [55357,56652], [55357,57045],
    [55357,56653], [9961,65039], [55357,56651], [9970], [9978], [55356,57089], [55356,57091],
    [55356,57305,65039], [55356,57092], [55356,57093], [55356,57094], [55356,57095],
    [55356,57097], [9832,65039], [55356,57248], [55357,57053], [55356,57249], [55356,57250],
    [55357,56456], [55356,57258], [55357,56962], [55357,56963], [55357,56964], [55357,56965],
    [55357,56966], [55357,56967], [55357,56968], [55357,56969], [55357,56970], [55357,56989],
    [55357,56990], [55357,56971], [55357,56972], [55357,56973], [55357,56974], [55357,56976],
    [55357,56977], [55357,56978], [55357,56979], [55357,56980], [55357,56981], [55357,56982],
    [55357,56983], [55357,56984], [55357,56985], [55357,57083], [55357,56986], [55357,56987],
    [55357,56988], [55356,57294,65039], [55356,57293,65039], [55357,57077], [55358,56765],
    [55358,56764], [55357,57082], [55357,57010], [55357,57076], [55357,57081], [55357,57084],
    [55357,56975], [55357,57059,65039], [55357,57060,65039], [55357,57058,65039], [9981],
    [55357,57054], [55357,57000], [55357,56997], [55357,56998], [55357,57041], [55357,56999],
    [9875], [55357,57055], [9973], [55357,57078], [55357,56996], [55357,57075,65039],
    [9972,65039], [55357,57061,65039], [55357,56994], [9992,65039], [55357,57065,65039],
    [55357,57067], [55357,57068], [55358,56962], [55357,56506], [55357,56961], [55357,56991],
    [55357,56992], [55357,56993], [55357,57072,65039], [55357,56960], [55357,57080],
    [55357,57038,65039], [55358,56819], [8987], [9203], [8986], [9200], [9201,65039],
    [9202,65039], [55357,56688,65039], [55357,56667], [55357,56679], [55357,56656],
    [55357,56668], [55357,56657], [55357,56669], [55357,56658], [55357,56670], [55357,56659],
    [55357,56671], [55357,56660], [55357,56672], [55357,56661], [55357,56673], [55357,56662],
    [55357,56674], [55357,56663], [55357,56675], [55357,56664], [55357,56676], [55357,56665],
    [55357,56677], [55357,56666], [55357,56678], [55356,57105], [55356,57106], [55356,57107],
    [55356,57108], [55356,57109], [55356,57110], [55356,57111], [55356,57112], [55356,57113],
    [55356,57114], [55356,57115], [55356,57116], [55356,57121,65039], [9728,65039],
    [55356,57117], [55356,57118], [55358,56976], [11088], [55356,57119], [55356,57120],
    [55356,57100], [9729,65039], [9925], [9928,65039], [55356,57124,65039], [55356,57125,65039],
    [55356,57126,65039], [55356,57127,65039], [55356,57128,65039], [55356,57129,65039],
    [55356,57130,65039], [55356,57131,65039], [55356,57132,65039], [55356,57088], [55356,57096],
    [55356,57090], [9730,65039], [9748], [9969,65039], [9889], [10052,65039], [9731,65039],
    [9924], [9732,65039], [55357,56613], [55357,56487], [55356,57098]]\<rparr>"

definition emoji_group_8 :: emoji_group where
  "emoji_group_8 = \<lparr>icon = [55357,56481], items = [
    [55357,56403], [55357,56694,65039], [55358,56701], [55358,56700], [55358,56762],
    [55357,56404], [55357,56405], [55357,56406], [55358,56803], [55358,56804], [55358,56805],
    [55358,56806], [55357,56407], [55357,56408], [55358,56699], [55358,56945], [55358,56946],
    [55358,56947], [55357,56409], [55357,56410], [55358,57005], [55357,56411], [55357,56412],
    [55357,56413], [55357,57037,65039], [55356,57234], [55358,56948], [55357,56414],
    [55357,56415], [55358,56702], [55358,56703], [55357,56416], [55357,56417], [55358,56944],
    [55357,56418], [55358,57006], [55357,56401], [55357,56402], [55356,57257], [55356,57235],
    [55358,56802], [55358,56982], [9937,65039], [55357,56575], [55357,56452], [55357,56461],
    [55357,56462], [55357,56583], [55357,56584], [55357,56585], [55357,56586], [55357,56546],
    [55357,56547], [55357,56559], [55357,56596], [55357,56597], [55356,57276], [55356,57269],
    [55356,57270], [55356,57241,65039], [55356,57242,65039], [55356,57243,65039], [55356,57252],
    [55356,57255], [55357,56571], [55356,57271], [55358,56983], [55356,57272], [55356,57273],
    [55356,57274], [55356,57275], [55358,56981], [55358,56641], [55358,56984], [55358,56967],
    [55358,56968], [55358,56969], [55357,56561], [55357,56562], [9742,65039], [55357,56542],
    [55357,56543], [55357,56544], [55357,56587], [55358,57003], [55357,56588], [55357,56507],
    [55357,56741,65039], [55357,56744,65039], [9000,65039], [55357,56753,65039],
    [55357,56754,65039], [55357,56509], [55357,56510], [55357,56511], [55357,56512],
    [55358,56814], [55356,57253], [55356,57246,65039], [55357,56573,65039], [55356,57260],
    [55357,56570], [55357,56567], [55357,56568], [55357,56569], [55357,56572], [55357,56589],
    [55357,56590], [55357,56687,65039], [55357,56481], [55357,56614], [55356,57326],
    [55358,56980], [55357,56532], [55357,56533], [55357,56534], [55357,56535], [55357,56536],
    [55357,56537], [55357,56538], [55357,56531], [55357,56530], [55357,56515], [55357,56540],
    [55357,56516], [55357,56560], [55357,56798,65039], [55357,56529], [55357,56598],
    [55356,57335,65039], [55357,56496], [55358,56985], [55357,56500], [55357,56501],
    [55357,56502], [55357,56503], [55357,56504], [55357,56499], [55358,56830], [55357,56505],
    [9993,65039], [55357,56551], [55357,56552], [55357,56553], [55357,56548], [55357,56549],
    [55357,56550], [55357,56555], [55357,56554], [55357,56556], [55357,56557], [55357,56558],
    [55357,56819,65039], [9999,65039], [10002,65039], [55357,56715,65039], [55357,56714,65039],
    [55357,56716,65039], [55357,56717,65039], [55357,56541], [55357,56508], [55357,56513],
    [55357,56514], [55357,56770,65039], [55357,56517], [55357,56518], [55357,56786,65039],
    [55357,56787,65039], [55357,56519], [55357,56520], [55357,56521], [55357,56522],
    [55357,56523], [55357,56524], [55357,56525], [55357,56526], [55357,56711,65039],
    [55357,56527], [55357,56528], [9986,65039], [55357,56771,65039], [55357,56772,65039],
    [55357,56785,65039], [55357,56594], [55357,56595], [55357,56591], [55357,56592],
    [55357,56593], [55357,56797,65039], [55357,56616], [55358,56979], [9935,65039],
    [9874,65039], [55357,57056,65039], [55357,56801,65039], [9876,65039], [55357,56483],
    [55358,56963], [55356,57337], [55357,57057,65039], [55358,56986], [55357,56615],
    [55358,56987], [55357,56617], [9881,65039], [55357,56796,65039], [9878,65039],
    [55358,56751], [55357,56599], [9939,65039,8205,55357,56485], [9939,65039], [55358,56989],
    [55358,56816], [55358,56818], [55358,56988], [55358,56975], [9879,65039], [55358,56810],
    [55358,56811], [55358,56812], [55357,56620], [55357,56621], [55357,56545], [55357,56457],
    [55358,56952], [55357,56458], [55358,56953], [55358,56956], [55358,56954], [55358,56955],
    [55357,57002], [55357,57047], [55358,56990], [55358,56991], [55357,57039,65039],
    [55357,57035,65039], [55358,56977], [55357,57021], [55358,56992], [55357,57023],
    [55357,57025], [55358,56996], [55358,56978], [55358,56820], [55358,56823], [55358,56825],
    [55358,56826], [55358,56827], [55358,56995], [55358,56828], [55358,57063], [55358,56997],
    [55358,56829], [55358,56815], [55357,57042], [55357,57004], [9904,65039], [55358,56998],
    [9905,65039], [55358,56831], [55358,57004], [55357,56831], [55358,56999],
    [55358,57002]]\<rparr>"

definition emoji_group_9 :: emoji_group where
  "emoji_group_9 = \<lparr>icon = [10071], items = [
    [55356,57319], [55357,57006], [55357,57008], [9855], [55357,57017], [55357,57018],
    [55357,57019], [55357,57020], [55357,57022], [55357,57026], [55357,57027], [55357,57028],
    [55357,57029], [9888,65039], [55357,57016], [9940], [55357,57003], [55357,57011],
    [55357,57005], [55357,57007], [55357,57009], [55357,57015], [55357,56565], [55357,56606],
    [9762,65039], [9763,65039], [11014,65039], [8599,65039], [10145,65039], [8600,65039],
    [11015,65039], [8601,65039], [11013,65039], [8598,65039], [8597,65039], [8596,65039],
    [8617,65039], [8618,65039], [10548,65039], [10549,65039], [55357,56579], [55357,56580],
    [55357,56601], [55357,56602], [55357,56603], [55357,56604], [55357,56605], [55357,57040],
    [9883,65039], [55357,56649,65039], [10017,65039], [9784,65039], [9775,65039], [10013,65039],
    [9766,65039], [9770,65039], [9774,65039], [55357,56654], [55357,56623], [55358,57007],
    [9800], [9801], [9802], [9803], [9804], [9805], [9806], [9807], [9808], [9809], [9810],
    [9811], [9934], [55357,56576], [55357,56577], [55357,56578], [9654,65039], [9193],
    [9197,65039], [9199,65039], [9664,65039], [9194], [9198,65039], [55357,56636], [9195],
    [55357,56637], [9196], [9208,65039], [9209,65039], [9210,65039], [9167,65039],
    [55356,57254], [55357,56581], [55357,56582], [55357,56566], [55357,57052], [55357,56563],
    [55357,56564], [9792,65039], [9794,65039], [9895,65039], [10006,65039], [10133], [10134],
    [10135], [55357,57328], [9854,65039], [8252,65039], [8265,65039], [10067], [10068], [10069],
    [10071], [12336,65039], [55357,56497], [55357,56498], [9877,65039], [9851,65039],
    [9884,65039], [55357,56625], [55357,56539], [55357,56624], [11093], [9989], [9745,65039],
    [10004,65039], [10060], [10062], [10160], [10175], [12349,65039], [10035,65039],
    [10036,65039], [10055,65039], [169,65039], [174,65039], [8482,65039], [55358,57055],
    [35,65039,8419], [42,65039,8419], [48,65039,8419], [49,65039,8419], [50,65039,8419],
    [51,65039,8419], [52,65039,8419], [53,65039,8419], [54,65039,8419], [55,65039,8419],
    [56,65039,8419], [57,65039,8419], [55357,56607], [55357,56608], [55357,56609],
    [55357,56610], [55357,56611], [55357,56612], [55356,56688,65039], [55356,56718],
    [55356,56689,65039], [55356,56721], [55356,56722], [55356,56723], [8505,65039],
    [55356,56724], [9410,65039], [55356,56725], [55356,56726], [55356,56702,65039],
    [55356,56727], [55356,56703,65039], [55356,56728], [55356,56729], [55356,56730],
    [55356,56833], [55356,56834,65039], [55356,56887,65039], [55356,56886], [55356,56879],
    [55356,56912], [55356,56889], [55356,56858], [55356,56882], [55356,56913], [55356,56888],
    [55356,56884], [55356,56883], [12951,65039], [12953,65039], [55356,56890], [55356,56885],
    [55357,56628], [55357,57312], [55357,57313], [55357,57314], [55357,56629], [55357,57315],
    [55357,57316], [9899], [9898], [55357,57317], [55357,57319], [55357,57320], [55357,57321],
    [55357,57318], [55357,57322], [55357,57323], [11035], [11036], [9724,65039], [9723,65039],
    [9726], [9725], [9642,65039], [9643,65039], [55357,56630], [55357,56631], [55357,56632],
    [55357,56633], [55357,56634], [55357,56635], [55357,56480], [55357,56600], [55357,56627],
    [55357,56626]]\<rparr>"

definition emoji_group_10 :: emoji_group where
  "emoji_group_10 = \<lparr>icon = [55356,57281], items = [
    [55356,57281], [55357,57001], [55356,57228], [55356,57332], [55356,57331,65039],
    [55356,57331,65039,8205,55356,57096], [55356,57331,65039,8205,9895,65039],
    [55356,57332,8205,9760,65039], [55356,56806,55356,56808], [55356,56806,55356,56809],
    [55356,56806,55356,56810], [55356,56806,55356,56811], [55356,56806,55356,56812],
    [55356,56806,55356,56814], [55356,56806,55356,56817], [55356,56806,55356,56818],
    [55356,56806,55356,56820], [55356,56806,55356,56822], [55356,56806,55356,56823],
    [55356,56806,55356,56824], [55356,56806,55356,56825], [55356,56806,55356,56826],
    [55356,56806,55356,56828], [55356,56806,55356,56829], [55356,56806,55356,56831],
    [55356,56807,55356,56806], [55356,56807,55356,56807], [55356,56807,55356,56809],
    [55356,56807,55356,56810], [55356,56807,55356,56811], [55356,56807,55356,56812],
    [55356,56807,55356,56813], [55356,56807,55356,56814], [55356,56807,55356,56815],
    [55356,56807,55356,56817], [55356,56807,55356,56818], [55356,56807,55356,56819],
    [55356,56807,55356,56820], [55356,56807,55356,56822], [55356,56807,55356,56823],
    [55356,56807,55356,56824], [55356,56807,55356,56825], [55356,56807,55356,56827],
    [55356,56807,55356,56828], [55356,56807,55356,56830], [55356,56807,55356,56831],
    [55356,56808,55356,56806], [55356,56808,55356,56808], [55356,56808,55356,56809],
    [55356,56808,55356,56811], [55356,56808,55356,56812], [55356,56808,55356,56813],
    [55356,56808,55356,56814], [55356,56808,55356,56816], [55356,56808,55356,56817],
    [55356,56808,55356,56818], [55356,56808,55356,56819], [55356,56808,55356,56820],
    [55356,56808,55356,56821], [55356,56808,55356,56822], [55356,56808,55356,56823],
    [55356,56808,55356,56826], [55356,56808,55356,56827], [55356,56808,55356,56828],
    [55356,56808,55356,56829], [55356,56808,55356,56830], [55356,56808,55356,56831],
    [55356,56809,55356,56810], [55356,56809,55356,56812], [55356,56809,55356,56815],
    [55356,56809,55356,56816], [55356,56809,55356,56818], [55356,56809,55356,56820],
    [55356,56809,55356,56831], [55356,56810,55356,56806], [55356,56810,55356,56808],
    [55356,56810,55356,56810], [55356,56810,55356,56812], [55356,56810,55356,56813],
    [55356,56810,55356,56823], [55356,56810,55356,56824], [55356,56810,55356,56825],
    [55356,56810,55356,56826], [55356,56811,55356,56814], [55356,56811,55356,56815],
    [55356,56811,55356,56816], [55356,56811,55356,56818], [55356,56811,55356,56820],
    [55356,56811,55356,56823], [55356,56812,55356,56806], [55356,56812,55356,56807],
    [55356,56812,55356,56809], [55356,56812,55356,56810], [55356,56812,55356,56811],
    [55356,56812,55356,56812], [55356,56812,55356,56813], [55356,56812,55356,56814],
    [55356,56812,55356,56817], [55356,56812,55356,56818], [55356,56812,55356,56819],
    [55356,56812,55356,56821], [55356,56812,55356,56822], [55356,56812,55356,56823],
    [55356,56812,55356,56824], [55356,56812,55356,56825], [55356,56812,55356,56826],
    [55356,56812,55356,56828], [55356,56812,55356,56830], [55356,56813,55356,56816],
    [55356,56813,55356,56818], [55356,56813,55356,56819], [55356,56813,55356,56823],
    [55356,56813,55356,56825], [55356,56813,55356,56826], [55356,56814,55356,56808],
    [55356,56814,55356,56809], [55356,56814,55356,56810], [55356,56814,55356,56817],
    [55356,56814,55356,56818], [55356,56814,55356,56819], [55356,56814,55356,56820],
    [55356,56814,55356,56822], [55356,56814,55356,56823], [55356,56814,55356,56824],
    [55356,56814,55356,56825], [55356,56815,55356,56810], [55356,56815,55356,56818],
    [55356,56815,55356,56820], [55356,56815,55356,56821], [55356,56816,55356,56810],
    [55356,56816,55356,56812], [55356,56816,55356,56813], [55356,56816,55356,56814],
    [55356,56816,55356,56818], [55356,56816,55356,56819], [55356,56816,55356,56821],
    [55356,56816,55356,56823], [55356,56816,55356,56828], [55356,56816,55356,56830],
    [55356,56816,55356,56831], [55356,56817,55356,56806], [55356,56817,55356,56807],
    [55356,56817,55356,56808], [55356,56817,55356,56814], [55356,56817,55356,56816],
    [55356,56817,55356,56823], [55356,56817,55356,56824], [55356,56817,55356,56825],
    [55356,56817,55356,56826], [55356,56817,55356,56827], [55356,56817,55356,56830],
    [55356,56818,55356,56806], [55356,56818,55356,56808], [55356,56818,55356,56809],
    [55356,56818,55356,56810], [55356,56818,55356,56811], [55356,56818,55356,56812],
    [55356,56818,55356,56813], [55356,56818,55356,56816], [55356,56818,55356,56817],
    [55356,56818,55356,56818], [55356,56818,55356,56819], [55356,56818,55356,56820],
    [55356,56818,55356,56821], [55356,56818,55356,56822], [55356,56818,55356,56823],
    [55356,56818,55356,56824], [55356,56818,55356,56825], [55356,56818,55356,56826],
    [55356,56818,55356,56827], [55356,56818,55356,56828], [55356,56818,55356,56829],
    [55356,56818,55356,56830], [55356,56818,55356,56831], [55356,56819,55356,56806],
    [55356,56819,55356,56808], [55356,56819,55356,56810], [55356,56819,55356,56811],
    [55356,56819,55356,56812], [55356,56819,55356,56814], [55356,56819,55356,56817],
    [55356,56819,55356,56820], [55356,56819,55356,56821], [55356,56819,55356,56823],
    [55356,56819,55356,56826], [55356,56819,55356,56831], [55356,56820,55356,56818],
    [55356,56821,55356,56806], [55356,56821,55356,56810], [55356,56821,55356,56811],
    [55356,56821,55356,56812], [55356,56821,55356,56813], [55356,56821,55356,56816],
    [55356,56821,55356,56817], [55356,56821,55356,56818], [55356,56821,55356,56819],
    [55356,56821,55356,56823], [55356,56821,55356,56824], [55356,56821,55356,56825],
    [55356,56821,55356,56828], [55356,56821,55356,56830], [55356,56822,55356,56806],
    [55356,56823,55356,56810], [55356,56823,55356,56820], [55356,56823,55356,56824],
    [55356,56823,55356,56826], [55356,56823,55356,56828], [55356,56824,55356,56806],
    [55356,56824,55356,56807], [55356,56824,55356,56808], [55356,56824,55356,56809],
    [55356,56824,55356,56810], [55356,56824,55356,56812], [55356,56824,55356,56813],
    [55356,56824,55356,56814], [55356,56824,55356,56815], [55356,56824,55356,56816],
    [55356,56824,55356,56817], [55356,56824,55356,56818], [55356,56824,55356,56819],
    [55356,56824,55356,56820], [55356,56824,55356,56823], [55356,56824,55356,56824],
    [55356,56824,55356,56825], [55356,56824,55356,56827], [55356,56824,55356,56829],
    [55356,56824,55356,56830], [55356,56824,55356,56831], [55356,56825,55356,56806],
    [55356,56825,55356,56808], [55356,56825,55356,56809], [55356,56825,55356,56811],
    [55356,56825,55356,56812], [55356,56825,55356,56813], [55356,56825,55356,56815],
    [55356,56825,55356,56816], [55356,56825,55356,56817], [55356,56825,55356,56818],
    [55356,56825,55356,56819], [55356,56825,55356,56820], [55356,56825,55356,56823],
    [55356,56825,55356,56825], [55356,56825,55356,56827], [55356,56825,55356,56828],
    [55356,56825,55356,56831], [55356,56826,55356,56806], [55356,56826,55356,56812],
    [55356,56826,55356,56818], [55356,56826,55356,56819], [55356,56826,55356,56824],
    [55356,56826,55356,56830], [55356,56826,55356,56831], [55356,56827,55356,56806],
    [55356,56827,55356,56808], [55356,56827,55356,56810], [55356,56827,55356,56812],
    [55356,56827,55356,56814], [55356,56827,55356,56819], [55356,56827,55356,56826],
    [55356,56828,55356,56811], [55356,56828,55356,56824], [55356,56829,55356,56816],
    [55356,56830,55356,56810], [55356,56830,55356,56825], [55356,56831,55356,56806],
    [55356,56831,55356,56818], [55356,56831,55356,56828],
    [55356,57332,56128,56423,56128,56418,56128,56421,56128,56430,56128,56423,56128,56447],
    [55356,57332,56128,56423,56128,56418,56128,56435,56128,56419,56128,56436,56128,56447],
    [55356,57332,56128,56423,56128,56418,56128,56439,56128,56428,56128,56435,56128,56447]]\<rparr>"

definition emoji_groups :: "emoji_group list" where
  "emoji_groups = [emoji_group_1, emoji_group_2, emoji_group_3, emoji_group_4, emoji_group_5,
     emoji_group_6, emoji_group_7, emoji_group_8, emoji_group_9, emoji_group_10]"

lemmas emoji_group_defs =
  emoji_group_1_def emoji_group_2_def emoji_group_3_def emoji_group_4_def emoji_group_5_def
  emoji_group_6_def emoji_group_7_def emoji_group_8_def emoji_group_9_def emoji_group_10_def

end
