(* ===== verification/Formatting.thy ===== *)
theory Formatting
  imports Js_Regex Emoji_Data
begin

text \<open>
  \<open>src/qml/pages/Formatting.js\<close>: the core's markup adjusted for the web-link setting
  (\<open>renderFormatted\<close>), and emoji replaced by pictures (\<open>withEmojiPictures\<close>) over the
  dictionary built from \<open>Emoji.js\<close>.
\<close>

section \<open>The formatted body\<close>

text \<open>\<open>/<code>([\s\S]*?)<\/code>/g\<close> and \<open>/<a href="([^"]*)">([\s\S]*?)<\/a>/g\<close>\<close>

definition any_char :: "nat \<Rightarrow> bool" where
  "any_char c = True"

lemma ms_any_char [simp]: "ms (Chr any_char) (i, x # s, cs) = [(Suc i, s, cs)]"
  by (simp add: any_char_def)

definition code_re :: re where
  "code_re = Seqs [Word (lit ''<code>''), Grp 1 (LazyStar (Chr any_char)), Word (lit ''</code>'')]"

definition anchor_re :: re where
  "anchor_re = Seqs [Word (lit ''<a href='' @ [34]), Grp 1 (Star (Chr (\<lambda>c. c \<noteq> 34))),
     Word (34 # lit ''>''), Grp 2 (LazyStar (Chr any_char)), Word (lit ''</a>'')]"

text \<open>\<open>/^https?:\/\/(www\.)?matrix\.to\/#\//i\<close>, the \<open>internal\<close> test.\<close>

definition matrix_to_re :: re where
  "matrix_to_re = Seqs [Bol, IWord (lit ''http''), Opt (IWord (lit ''s'')), IWord (lit ''://''),
     Opt (Grp 1 (IWord (lit ''www.''))), IWord (lit ''matrix.to/#/'')]"

definition internal_href :: "str \<Rightarrow> bool" where
  "internal_href href \<longleftrightarrow> test matrix_to_re href \<or> starts_with (lit ''matrix:'') href
     \<or> starts_with (lit ''xmatic:'') href"

definition capture :: "nat \<Rightarrow> caps \<Rightarrow> str" where
  "capture n cs = (case cap n cs of None \<Rightarrow> [] | Some s \<Rightarrow> s)"

definition renderFormatted :: "str \<Rightarrow> bool \<Rightarrow> str \<Rightarrow> str" where
  "renderFormatted markup clickableLinks codeColour =
     (let out = replace_all code_re (\<lambda>_ m cs.
            lit ''<font color='' @ [34] @ codeColour @ [34] @ lit ''>'' @ capture 1 cs
            @ lit ''</font>'') markup
      in if clickableLinks then out
         else replace_all anchor_re (\<lambda>_ anchor cs.
            if internal_href (capture 1 cs) then anchor else capture 2 cs) out)"

section \<open>Emoji as pictures\<close>

text \<open>
  \<open>_dictionary\<close> fills a set of all sequences and the length of the longest; it is built once
  and never changes, so it is a pair of constants here.
\<close>

definition sequences :: "str list" where
  "sequences = concat (map items emoji_groups)"

definition longest :: nat where
  "longest = foldl (\<lambda>m s. if m < length s then length s else m) 0 sequences"

text \<open>The longest known candidate at the front of \<open>s\<close>, tried from \<open>n\<close> units downwards.\<close>

fun longest_hit :: "str list \<Rightarrow> nat \<Rightarrow> str \<Rightarrow> str" where
  "longest_hit known 0 s = []"
| "longest_hit known (Suc n) s =
     (if take (Suc n) s \<in> set known then take (Suc n) s else longest_hit known n s)"

definition img_tag :: "str \<Rightarrow> str \<Rightarrow> str" where
  "img_tag picture pixels =
     lit ''<img src='' @ [34] @ picture @ [34] @ lit '' width='' @ [34] @ pixels @ [34]
     @ lit '' height='' @ [34] @ pixels @ [34] @ lit ''>''"

text \<open>
  The loop over the text from position \<open>i\<close> on, as the rest of the string: the output it
  appends and whether it inserted a picture.
\<close>

lemma longest_hit_prefix: "starts_with (longest_hit known n s) s"
  by (induction known n s rule: longest_hit.induct) (auto simp: starts_with_iff, metis append_take_drop_id)

function emoji_loop ::
  "str list \<Rightarrow> nat \<Rightarrow> str \<Rightarrow> (str \<Rightarrow> str) \<Rightarrow> bool \<Rightarrow> str \<Rightarrow> str \<times> bool" where
  "emoji_loop known most pixels source inTag [] = ([], False)"
| "emoji_loop known most pixels source inTag (here # rest) =
     (let inTag' = (if here = 60 then True else if here = 62 then False else inTag);
          copy = (case emoji_loop known most pixels source inTag' rest of (out, r) \<Rightarrow> (here # out, r))
      in if inTag' then copy
         else if here < 0x203C then copy
         else (let hit = longest_hit known (min most (length (here # rest))) (here # rest)
               in if hit = [] then copy
                  else (let picture = source hit;
                            (out, r) = emoji_loop known most pixels source inTag'
                                         (drop (length hit) (here # rest))
                        in if picture = [] then (hit @ out, r)
                           else (img_tag picture pixels @ out, True))))"
  by pat_completeness auto
termination
  by (relation "measure (\<lambda>(known, most, pixels, source, inTag, s). length s)") auto

definition withEmojiPictures :: "str \<Rightarrow> str \<Rightarrow> (str \<Rightarrow> str) \<Rightarrow> str" where
  "withEmojiPictures escaped pixels source =
     (if escaped = [] then escaped
      else (case emoji_loop sequences longest pixels source False escaped of
              (out, replaced) \<Rightarrow> if replaced then out else escaped))"

end
