(* ===== verification/Message_Body.thy ===== *)
theory Message_Body
  imports Matrix_Links Formatting
begin

text \<open>
  \<open>src/qml/pages/MessageBody.js\<close>: a message's text as the room and the thread draw it.  Plain
  bodies are escaped and linked (\<open>escapeText\<close>, \<open>linkify\<close>, \<open>linkBare\<close>), addresses pass one
  gate (\<open>safeHref\<close>), and \<open>rich\<close>, \<open>previewUrl\<close> and \<open>rowText\<close> decide what a row shows.  The
  main results say that linking changes nothing but inserts anchors around text that was already
  there, and that every anchor leads into the app or to a harmless web address.
\<close>

section \<open>Escaping and the gate for addresses\<close>

definition escapeText :: "str \<Rightarrow> str" where
  "escapeText body =
     replace_all (Chr ((=) 62)) (\<lambda>_ _ _. lit ''&gt;'')
       (replace_all (Chr ((=) 60)) (\<lambda>_ _ _. lit ''&lt;'')
         (replace_all (Chr ((=) 38)) (\<lambda>_ _ _. lit ''&amp;'') body))"

text \<open>The class of double quote, quote, angle brackets, backtick, backslash and white space, and
  everything outside printable ASCII.\<close>

definition href_breaker :: "nat \<Rightarrow> bool" where
  "href_breaker c \<longleftrightarrow> c = 34 \<or> c = 39 \<or> c = 60 \<or> c = 62 \<or> c = 96 \<or> c = 92 \<or> js_space c"

definition not_printable :: "nat \<Rightarrow> bool" where
  "not_printable c \<longleftrightarrow> \<not> (0x20 \<le> c \<and> c \<le> 0x7e)"

definition path_start :: "nat \<Rightarrow> bool" where
  "path_start c \<longleftrightarrow> c = 47 \<or> c = 63 \<or> c = 35"

definition safeHref :: "str \<Rightarrow> str" where
  "safeHref url =
     (if test (Chr href_breaker) url then []
      else if test (Chr not_printable) url then []
      else (let authority = split_on path_start (replace_first web_scheme_re (\<lambda>_ _. []) url) ! 0
            in if contains [64] authority then [] else url))"

text \<open>\<open>/^https?:/i\<close>\<close>

definition lowerScheme :: "str \<Rightarrow> str" where
  "lowerScheme url =
     replace_first (Seqs [Bol, IWord (lit ''http''), Opt (IWord (lit ''s'')), IWord (lit '':'')])
       (\<lambda>scheme _. map ascii_lower scheme) url"

section \<open>Bare addresses\<close>

definition BARE_ENDINGS :: "str list" where
  "BARE_ENDINGS = split_on ((=) 32)
    (lit ''com net org biz edu gov int eu io dev xyz online site shop store tech cloud blog ''
     @ lit ''news social chat space art page live club top ad ae af ag al ao aq ar at au aw ax ''
     @ lit ''az ba bb bd be bf bg bh bi bj bm bn bo br bs bt bw by ca cd cf cg ch ci ck cm cn co ''
     @ lit ''cu cv cw cx cy cz de dj dk dm dz ec ee eg er es et fi fj fk fm fo fr ga ge gf gg gh ''
     @ lit ''gi gl gm gn gp gq gr gt gu gw gy hk hm hn hr ht hu id ie il im iq ir is it je jm jo ''
     @ lit ''jp ke kg kh ki km kn kp kr kw ky kz lb lc li lk lr ls lt lu lv ma mc me mg mh mn mp ''
     @ lit ''mq mr mt mu mv mw mx my mz na nc ne nf ng ni nl no np nr nu nz om pa pe pf pg ph pk ''
     @ lit ''pn pr pw qa ro ru rw sa sb sd se sg si sk sl sm sn sr ss su sx sy sz tc td tg th tj ''
     @ lit ''tk tl tm tn to tr tt tv tw tz ua ug uk us uy uz va vc ve vg vn vu wf ws ye yt za zm ''
     @ lit ''zw'')"

text \<open>\<open>[^\s<>"]\<close>, the class of \<open>WORD\<close> and of the web addresses.\<close>

definition word_char :: "nat \<Rightarrow> bool" where
  "word_char c \<longleftrightarrow> \<not> (js_space c \<or> c = 60 \<or> c = 62 \<or> c = 34)"

definition WORD :: re where
  "WORD = Plus (Chr word_char)"

definition LONGEST_WORD :: nat where
  "LONGEST_WORD = 2048"

definition host_char :: "nat \<Rightarrow> bool" where
  "host_char c \<longleftrightarrow> is_alnum c \<or> c = 45"

text \<open>
  \<open>^(?:[A-Za-z0-9](?:[A-Za-z0-9\-]{0,61}[A-Za-z0-9])?\.){1,8}([a-z]{2,24})(?::[0-9]{1,5})?
  (?:[\/?#][^\s<>"]*)?\<close>
\<close>

definition host_label :: re where
  "host_label = Seqs [Chr is_alnum,
     Opt (Seq (Rep True 0 (Some 61) (Chr host_char)) (Chr is_alnum)), Chr ((=) 46)]"

definition BARE_HOST :: re where
  "BARE_HOST = Seqs [Bol, Rep True 1 (Some 8) host_label, Grp 1 (Rep True 2 (Some 24) (Chr is_lower)),
     Opt (Seq (Chr ((=) 58)) (Rep True 1 (Some 5) (Chr is_digit))),
     Opt (Seq (Chr path_start) (Star (Chr word_char)))]"

text \<open>The lead: any run of the escaped angle bracket, opening brackets, a quote, a star and the
  opening quotation marks U+00AB, U+201C and U+201E.\<close>

definition lead_char :: "nat \<Rightarrow> bool" where
  "lead_char c \<longleftrightarrow> c = 40 \<or> c = 91 \<or> c = 123 \<or> c = 39 \<or> c = 42 \<or> c = 0xAB \<or> c = 0x201C \<or> c = 0x201E"

definition lead_re :: re where
  "lead_re = Seq Bol (Star (Alt (Word (lit ''&lt;'')) (Chr lead_char)))"

text \<open>\<open>/^[A-Za-z0-9_\-=+%~@]/\<close>\<close>

definition glue_char :: "nat \<Rightarrow> bool" where
  "glue_char c \<longleftrightarrow> is_alnum c \<or> c = 95 \<or> c = 45 \<or> c = 61 \<or> c = 43 \<or> c = 37 \<or> c = 126 \<or> c = 64"

record bare =
  bare_lead :: str
  bare_address :: str
  bare_tail :: str

definition bareIn :: "str \<Rightarrow> bare option" where
  "bareIn word =
     (if length word > LONGEST_WORD \<or> \<not> contains [46] word then None
      else
        (let lead = (case find_re lead_re word of None \<Rightarrow> [] | Some (_, m, _, _) \<Rightarrow> m);
             rest = drop (length lead) word
         in (case find_re BARE_HOST rest of
               None \<Rightarrow> None
             | Some (_, found, _, cs) \<Rightarrow>
                 if capture 1 cs \<notin> set BARE_ENDINGS
                    \<or> test (Seq Bol (Chr glue_char)) (drop (length found) rest)
                 then None
                 else Some \<lparr>bare_lead = lead, bare_address = found,
                            bare_tail = drop (length found) rest\<rparr>)))"

text \<open>The successive matches of \<open>WORD.exec\<close> with its \<open>lastIndex\<close>: the words of the text.\<close>

function words_from :: "nat \<Rightarrow> str \<Rightarrow> str list" where
  "words_from i s =
     (case find_from WORD i s of None \<Rightarrow> []
      | Some (pre, m, post, cs) \<Rightarrow>
          if length post < length s
          then m # words_from (i + length pre + length m) post else [])"
  by pat_completeness auto
termination
  by (relation "measure (\<lambda>(i, s). length s)") auto

declare words_from.simps [simp del]

definition hasBareAddress :: "str \<Rightarrow> bool" where
  "hasBareAddress body = list_ex (\<lambda>word. bareIn word \<noteq> None) (words_from 0 body)"

section \<open>Cutting the sentence off an address\<close>

definition sentence_mark :: "nat \<Rightarrow> bool" where
  "sentence_mark c \<longleftrightarrow> c \<in> set (lit ''.,;:!?'')"

text \<open>The \<open>for (;;)\<close> of \<open>splitTrail\<close>; every round shortens the target.\<close>

function trail_loop :: "str \<Rightarrow> str \<Rightarrow> str \<times> str" where
  "trail_loop target trail =
     (if ends_with (lit ''&amp;'') target
      then trail_loop (take (length target - 5) target) (lit ''&amp;'' @ trail)
      else if target \<noteq> [] \<and> sentence_mark (last target)
      then trail_loop (butlast target) (last target # trail)
      else (target, trail))"
  by pat_completeness auto
termination
  by (relation "measure (\<lambda>(target, trail). length target)") (auto simp: ends_with_iff)

declare trail_loop.simps [simp del]

text \<open>\<open>/&[lg]t;/\<close>\<close>

definition angle_entity_re :: re where
  "angle_entity_re = Seqs [Chr ((=) 38), Chr (\<lambda>c. c = 108 \<or> c = 103), Word (lit ''t;'')]"

definition splitTrail :: "str \<Rightarrow> bool \<Rightarrow> str \<times> str" where
  "splitTrail target url =
     (let (target, trail) =
            (case search angle_entity_re target of
               None \<Rightarrow> (target, []) | Some b \<Rightarrow> (take b target, drop b target));
          (target, trail) = trail_loop target trail
      in if url \<and> target \<noteq> [] \<and> last target = 41 \<and> \<not> contains [40] target
         then (butlast target, 41 # trail) else (target, trail))"

section \<open>Linking\<close>

definition anchor :: "str \<Rightarrow> str \<Rightarrow> str" where
  "anchor href shown =
     lit ''<a href='' @ [34] @ href @ [34] @ lit ''>'' @ shown @ lit ''</a>''"

definition unescapeAmp :: "str \<Rightarrow> str" where
  "unescapeAmp s = replace_all (Word (lit ''&amp;'')) (\<lambda>_ _ _. lit ''&'') s"

definition webAnchor :: "str \<Rightarrow> str \<Rightarrow> str" where
  "webAnchor shown full =
     (let href = safeHref (unescapeAmp full) in if href = [] then shown else anchor href shown)"

text \<open>\<open>/(<a [^>]*>[\s\S]*?<\/a>)/\<close>\<close>

definition anchor_split_re :: re where
  "anchor_split_re = Grp 1 (Seqs [Word (lit ''<a ''), Star (Chr (\<lambda>c. c \<noteq> 62)), Chr ((=) 62),
     LazyStar (Chr any_char), Word (lit ''</a>'')])"

definition linkWord :: "str \<Rightarrow> str" where
  "linkWord word =
     (case bareIn word of None \<Rightarrow> word
      | Some found \<Rightarrow>
          (let (target, trail) = splitTrail (bare_address found) True
           in bare_lead found @ webAnchor target (lit ''https://'' @ target) @ trail @ bare_tail found))"

text \<open>One piece between the anchors; a word that runs into an anchor is left alone.\<close>

definition linkPiece :: "bool \<Rightarrow> bool \<Rightarrow> str \<Rightarrow> str" where
  "linkPiece afterAnchor beforeAnchor t =
     replace_all WORD (\<lambda>offset word _.
        if (afterAnchor \<and> offset = 0) \<or> (beforeAnchor \<and> offset + length word = length t) then word
        else linkWord word) t"

definition linkBare :: "str \<Rightarrow> str" where
  "linkBare html =
     (let parts = split_from anchor_split_re 0 html
      in concat (map (\<lambda>i. if even i
                          then linkPiece (i > 0) (i < length parts - 1) (parts ! i)
                          else parts ! i) [0..<length parts]))"

text \<open>\<open>(https?:\/\/[^\s<>"]+)|([#@!]...)\<close> with the flags \<open>gi\<close>.  The classes of the address hold
  both cases of every letter, so the \<open>i\<close> flag adds nothing to them.\<close>

definition link_pattern :: re where
  "link_pattern = Alt
     (Grp 1 (Seqs [IWord (lit ''http''), Opt (IWord (lit ''s'')), IWord (lit ''://''),
        Plus (Chr word_char)]))
     (Grp 2 address_re)"

definition linkMatch :: "bool \<Rightarrow> caps \<Rightarrow> str" where
  "linkMatch clickableLinks cs =
     (let url = capture 1 cs; address = capture 2 cs;
          (target, trail) = splitTrail (if url \<noteq> [] then url else address) (url \<noteq> [])
      in if url \<noteq> []
         then (let full = lowerScheme target
               in if \<not> clickableLinks \<and> parse full = None then target @ trail
                  else webAnchor target full @ trail)
         else anchor (lit ''xmatic:'' @ target) target @ trail)"

definition linkify :: "str \<Rightarrow> bool \<Rightarrow> str" where
  "linkify body clickableLinks =
     (let escaped = escapeText body;
          linked = replace_all link_pattern (\<lambda>_ _ cs. linkMatch clickableLinks cs) escaped
      in if clickableLinks then linkBare linked else linked)"

text \<open>\<open>/https?:\/\//i\<close>, not anchored.\<close>

definition hasLink :: "str \<Rightarrow> bool \<Rightarrow> bool" where
  "hasLink body clickableLinks \<longleftrightarrow>
     (clickableLinks \<and>
        (test (Seqs [IWord (lit ''http''), Opt (IWord (lit ''s'')), IWord (lit ''://'')]) body
         \<or> hasBareAddress body))
     \<or> hasAddress body"

section \<open>What a row shows\<close>

record link_settings =
  clickableLinks :: bool
  emojiImages :: bool

definition rich :: "str \<Rightarrow> str \<Rightarrow> link_settings \<Rightarrow> str \<Rightarrow> str \<Rightarrow> (str \<Rightarrow> str) \<Rightarrow> str" where
  "rich body formatted settings codeColour emojiPixels emojiSource =
     (let choice =
        (if formatted \<noteq> []
           then Some (renderFormatted formatted (clickableLinks settings) codeColour, True)
         else if hasLink body (clickableLinks settings)
           then Some (linkify body (clickableLinks settings), True)
         else if emojiImages settings then Some (escapeText body, False)
         else None)
      in case choice of None \<Rightarrow> []
         | Some (base, linked) \<Rightarrow>
             if \<not> emojiImages settings then base
             else (let pictured = withEmojiPictures base emojiPixels emojiSource
                   in if \<not> linked \<and> pictured = base then [] else pictured))"

definition previewUrl :: "str \<Rightarrow> str \<Rightarrow> bool \<Rightarrow> str" where
  "previewUrl body linkPreviews encrypted =
     (if linkPreviews = lit ''never'' \<or> (linkPreviews = lit ''unencrypted'' \<and> encrypted) then []
      else (case find_re (Seqs [IWord (lit ''http''), Opt (IWord (lit ''s'')), IWord (lit ''://''),
                               Plus (Chr word_char)]) body of
              None \<Rightarrow> []
            | Some (_, found, _, _) \<Rightarrow>
                (let address = replace_first (Seq (Plus (Chr sentence_mark)) Eol) (\<lambda>_ _. []) found;
                     address = (if test (Seq (Chr ((=) 41)) Eol) address \<and> \<not> contains [40] address
                                then butlast address else address)
                 in safeHref (lowerScheme address))))"

text \<open>
  The texts are looked up in the catalogue of the installed language: \<open>tr context source\<close> is
  Qt's \<open>qsTranslate\<close>.
\<close>

definition undecryptableText :: "(str \<Rightarrow> str \<Rightarrow> str) \<Rightarrow> str \<Rightarrow> str" where
  "undecryptableText tr cause =
     (if cause = lit ''withheldInsecure'' then
        tr (lit ''RoomPage'') (lit ''The sender did not share the key: they consider this device insecure. Verify this device.'')
      else if cause = lit ''withheldBySender'' then
        tr (lit ''RoomPage'') (lit ''The sender could not deliver the key to this device.'')
      else if cause = lit ''verificationViolation'' then
        tr (lit ''RoomPage'') (lit ''The sender's identity has changed since you verified them, so the key was withheld.'')
      else if cause = lit ''unsignedDevice'' then
        tr (lit ''RoomPage'') (lit ''The sender's device is not signed by its owner.'')
      else if cause = lit ''unknownDevice'' then
        tr (lit ''RoomPage'') (lit ''The sender's device is unknown here.'')
      else if cause = lit ''sentBeforeJoin'' then
        tr (lit ''RoomPage'') (lit ''Sent before you joined the room.'')
      else if cause = lit ''historicalNoBackup'' then
        tr (lit ''RoomPage'') (lit ''Older than this device, and there is no key backup.'')
      else if cause = lit ''historicalUnverifiedDevice'' then
        tr (lit ''RoomPage'') (lit ''Older than this device. Verify this device to read it.'')
      else
        tr (lit ''RoomPage'') (lit ''Cannot be decrypted '' @ [0x2014] @ lit '' this device is missing the key''))"

record message_row =
  row_kind :: str
  utdCause :: str
  row_body :: str
  caption :: str
  media :: bool
  image :: bool
  drawn :: bool
  row_rich :: str

definition rowText :: "(str \<Rightarrow> str \<Rightarrow> str) \<Rightarrow> message_row \<Rightarrow> str" where
  "rowText tr row =
     (if row_kind row = lit ''undecryptable'' then undecryptableText tr (utdCause row)
      else if row_kind row = lit ''redacted'' then tr (lit ''RoomPage'') (lit ''Message deleted'')
      else if media row then
        (if drawn row then (if row_rich row \<noteq> [] then row_rich row else caption row)
         else
           (let label =
              (if image row
               then [0xD83D, 0xDDBC, 32] @ (if row_body row \<noteq> [] then row_body row
                                            else tr (lit ''RoomPage'') (lit ''Picture''))
               else [0xD83D, 0xDCCE, 32] @ (if row_body row \<noteq> [] then row_body row
                                            else tr (lit ''ThreadPage'') (lit ''Attachment'')))
            in if caption row = [] then label
               else if row_rich row \<noteq> [] then escapeText label @ lit ''<br>'' @ row_rich row
               else label @ [10] @ caption row))
      else (if row_rich row \<noteq> [] then row_rich row else row_body row))"

end
