(* ===== verification/Markup_Text.thy ===== *)
theory Markup_Text
  imports Prelude
begin

text \<open>
  How a reader sees markup, for both halves of the program: \<open>strip_tags\<close> is the text a label
  shows, \<open>unescape\<close> decodes the entities in it, \<open>hrefs\<close> are the addresses its anchors carry.  The
  locale \<open>escaper\<close> is the contract of an escaping function; the JavaScript and the Rust one are
  interpretations of it.
\<close>

section \<open>Reading markup\<close>

fun strip_tags :: "bool \<Rightarrow> str \<Rightarrow> str" where
  "strip_tags inside [] = []"
| "strip_tags inside (c # s) =
     (if c = 60 then strip_tags True s
      else if c = 62 then strip_tags False s
      else if inside then strip_tags True s
      else c # strip_tags False s)"

fun unescape :: "str \<Rightarrow> str" where
  "unescape [] = []"
| "unescape (c # s) =
     (if c \<noteq> 38 then c # unescape s
      else if starts_with (lit ''amp;'') s then 38 # unescape (drop 4 s)
      else if starts_with (lit ''lt;'') s then 60 # unescape (drop 3 s)
      else if starts_with (lit ''gt;'') s then 62 # unescape (drop 3 s)
      else if starts_with (lit ''nbsp;'') s then 32 # unescape (drop 5 s)
      else c # unescape s)"

definition href_open :: str where
  "href_open = lit ''<a href='' @ [34]"

fun hrefs :: "str \<Rightarrow> str list" where
  "hrefs [] = []"
| "hrefs (c # s) =
     (if starts_with href_open (c # s)
      then takeWhile (\<lambda>c. c \<noteq> 34) (drop (length href_open) (c # s)) # hrefs s else hrefs s)"

text \<open>Text without angle brackets cannot be mistaken for a tag.\<close>

definition no_angle :: "str \<Rightarrow> bool" where
  "no_angle s \<longleftrightarrow> 60 \<notin> set s \<and> 62 \<notin> set s"

lemma no_angle_simps [simp]:
  "no_angle []" "no_angle (c # s) \<longleftrightarrow> c \<noteq> 60 \<and> c \<noteq> 62 \<and> no_angle s"
  "no_angle (s @ t) \<longleftrightarrow> no_angle s \<and> no_angle t"
  by (auto simp: no_angle_def)

lemma strip_text [simp]: "no_angle x \<Longrightarrow> strip_tags False (x @ s) = x @ strip_tags False s"
  by (induction x) auto

lemma strip_inside: "60 \<notin> set x \<Longrightarrow> 62 \<notin> set x \<Longrightarrow> strip_tags True (x @ 62 # s) = strip_tags False s"
  by (induction x) auto

lemma strip_tag: "no_angle x \<Longrightarrow> strip_tags b (60 # x @ 62 # s) = strip_tags False s"
  by (simp add: strip_inside no_angle_def)

lemma hrefs_text [simp]: "60 \<notin> set x \<Longrightarrow> hrefs (x @ s) = hrefs s"
  by (induction x) (auto simp: href_open_def str_simps)

section \<open>Escaping\<close>

locale escaper =
  fixes esc :: "nat \<Rightarrow> str"
  assumes decoded: "unescape (esc c @ t) = c # unescape t"
    and clean: "no_angle (esc c)"
begin

definition escaped :: "str \<Rightarrow> str" where
  "escaped s = concat (map esc s)"

lemma escaped_simps: "escaped [] = []" "escaped (c # s) = esc c @ escaped s"
  by (simp_all add: escaped_def)

lemma roundtrip_append: "unescape (escaped s @ t) = s @ unescape t"
  by (induction s) (simp_all add: escaped_simps decoded)

lemma roundtrip: "unescape (escaped s) = s"
  using roundtrip_append [of s "[]"] by simp

lemma escaped_inj: "escaped s = escaped t \<Longrightarrow> s = t"
  by (metis roundtrip)

lemma escaped_clean: "no_angle (escaped s)"
  by (induction s) (simp_all add: escaped_simps clean)

lemma escaped_shown: "unescape (strip_tags False (escaped s)) = s"
  using strip_text [OF escaped_clean, of s "[]"] by (simp add: roundtrip)

end

text \<open>The three entities every writer of the program uses for text.\<close>

definition esc_char :: "nat \<Rightarrow> str" where
  "esc_char c = (if c = 38 then lit ''&amp;'' else if c = 60 then lit ''&lt;''
                 else if c = 62 then lit ''&gt;'' else [c])"

interpretation text_escape: escaper esc_char
  by unfold_locales (auto simp: esc_char_def str_simps)

lemma map_esc_id: "\<forall>c\<in>set s. c \<noteq> 38 \<and> c \<noteq> 60 \<and> c \<noteq> 62 \<Longrightarrow> concat (map esc_char s) = s"
  by (induction s) (auto simp: esc_char_def)

end
