(* ===== verification/Linking.thy ===== *)
theory Linking
  imports Message_Body Markup_Text
begin

text \<open>
  The linker of \<open>MessageBody.js\<close>: \<open>escapeText\<close>, \<open>splitTrail\<close>, \<open>bareIn\<close>, \<open>linkify\<close> and
  \<open>linkBare\<close>.  The contract is \<open>linked_as\<close>: the markup is the escaped text with anchors around
  some of its pieces.  Every pass over the text keeps it, so the body can be read back from the
  markup and every address an anchor carries went through the gate.
\<close>

section \<open>Lemmas: escaping and addresses\<close>

text \<open>The three passes of \<open>escapeText\<close> are one pass over the characters.\<close>

lemma concat_map_concat_map: "concat (map f (concat (map g s))) = concat (map (\<lambda>c. concat (map f (g c))) s)"
  by (induction s) auto

lemma escapeText_eq: "escapeText body = concat (map esc_char body)"
  unfolding escapeText_def replace_all_Chr concat_map_concat_map
  by (intro arg_cong [where f = concat] map_cong refl) (simp add: esc_char_def str_simps)

lemma escapeText_Cons: "escapeText (c # s) = esc_char c @ escapeText s"
  by (simp add: escapeText_eq)

lemma escapeText_escaped: "escapeText body = text_escape.escaped body"
  by (simp add: escapeText_eq text_escape.escaped_def)

lemma escapeText_clean: "60 \<notin> set (escapeText body) \<and> 62 \<notin> set (escapeText body)"
  by (auto simp: escapeText_eq esc_char_def str_simps split: if_splits)

lemma find_re_Bol_prefix: "find_re (Seq Bol r) s = Some (pre, m, post, cs) \<Longrightarrow> pre = []"
  by (auto simp: find_Bol split: list.splits)

lemma safeHref_cases: "safeHref url = [] \<or> safeHref url = url"
  by (auto simp: safeHref_def Let_def)

lemma wf_web_scheme [simp]: "wf_re web_scheme_re"
  by (simp add: web_scheme_re_def)

lemma wf_link_pattern [simp]: "wf_re link_pattern"
  by (simp add: link_pattern_def)

lemma wf_WORD [simp]: "wf_re WORD"
  by (simp add: WORD_def)

lemma wf_BARE_HOST [simp]: "wf_re BARE_HOST"
  by (simp add: BARE_HOST_def host_label_def)

lemma wf_lead_re [simp]: "wf_re lead_re"
  by (simp add: lead_re_def)

text \<open>What \<open>bareIn\<close> returns is the word, in three parts.\<close>

lemma bareIn_parts:
  assumes "bareIn word = Some b"
  shows "word = bare_lead b @ bare_address b @ bare_tail b"
proof -
  define lead where "lead = (case find_re lead_re word of None \<Rightarrow> [] | Some (_, m, _, _) \<Rightarrow> m)"
  have word: "word = lead @ drop (length lead) word"
  proof (cases "find_re lead_re word")
    case (Some x)
    obtain pre m post cs where x: "x = (pre, m, post, cs)" by (cases x) auto
    with Some have "find_re lead_re word = Some (pre, m, post, cs)" by simp
    then have "pre = []" "word = pre @ m @ post"
      by (auto simp: lead_re_def dest: find_re_Bol_prefix find_from_den(1) [OF wf_lead_re, unfolded lead_re_def])
    with Some x show ?thesis by (simp add: lead_def)
  qed (simp add: lead_def)
  from assms obtain pre found post cs
    where f: "find_re BARE_HOST (drop (length lead) word) = Some (pre, found, post, cs)"
    and b: "b = \<lparr>bare_lead = lead, bare_address = found,
              bare_tail = drop (length found) (drop (length lead) word)\<rparr>"
    by (auto simp: bareIn_def lead_def [symmetric] Let_def split: if_splits option.splits prod.splits)
  from f have "pre = []" by (auto simp: BARE_HOST_def dest: find_re_Bol_prefix)
  with find_from_den(1) [OF wf_BARE_HOST f] have "drop (length lead) word = found @ post" by simp
  with b word show ?thesis by simp
qed

section \<open>Lemmas: cutting the trail\<close>

lemma ends_with_append [simp]: "ends_with v (u @ v)"
  by (auto simp: ends_with_iff)

lemma trail_loop_amp [simp]:
  "trail_loop (u @ lit ''&amp;'') trail = trail_loop u (lit ''&amp;'' @ trail)"
  by (subst trail_loop.simps) simp

lemma trail_loop_mark:
  "\<not> ends_with (lit ''&amp;'') (u @ [c]) \<Longrightarrow> sentence_mark c \<Longrightarrow>
   trail_loop (u @ [c]) trail = trail_loop u (c # trail)"
  by (subst trail_loop.simps) simp

lemma trail_loop_stop:
  "\<not> ends_with (lit ''&amp;'') t \<Longrightarrow> t = [] \<or> \<not> sentence_mark (last t) \<Longrightarrow> trail_loop t trail = (t, trail)"
  by (subst trail_loop.simps) auto

lemma trail_loop_induct [case_names amp mark stop]:
  assumes amp: "\<And>u trail. P u (lit ''&amp;'' @ trail) \<Longrightarrow> P (u @ lit ''&amp;'') trail"
    and mark: "\<And>u c trail. \<not> ends_with (lit ''&amp;'') (u @ [c]) \<Longrightarrow> sentence_mark c \<Longrightarrow>
        P u (c # trail) \<Longrightarrow> P (u @ [c]) trail"
    and stop: "\<And>t trail. \<not> ends_with (lit ''&amp;'') t \<Longrightarrow> t = [] \<or> \<not> sentence_mark (last t) \<Longrightarrow> P t trail"
  shows "P t trail"
proof (induction t trail rule: trail_loop.induct)
  case (1 t trail)
  show ?case
  proof (cases "ends_with (lit ''&amp;'') t")
    case True
    then obtain u where "t = u @ lit ''&amp;''" by (auto simp: ends_with_iff)
    with 1(1) [OF True] amp show ?thesis by simp
  next
    case False
    show ?thesis
    proof (cases "t \<noteq> [] \<and> sentence_mark (last t)")
      case True
      then have "t = butlast t @ [last t]" by simp
      with mark [of "butlast t" "last t" trail] False True 1(2) [OF False True] show ?thesis by simp
    qed (use stop False in blast)
  qed
qed

lemma trail_loop_concat: "fst (trail_loop target trail) @ snd (trail_loop target trail) = target @ trail"
  by (induction target trail rule: trail_loop_induct)
     (simp_all add: trail_loop_mark trail_loop_stop)

lemma splitTrail_concat: "splitTrail target url = (a, b) \<Longrightarrow> a @ b = target"
proof -
  assume st: "splitTrail target url = (a, b)"
  obtain t1 r1 where cut: "(case search angle_entity_re target of
      None \<Rightarrow> (target, []) | Some b \<Rightarrow> (take b target, drop b target)) = (t1, r1)"
    by fastforce
  then have 1: "t1 @ r1 = target" by (auto split: option.splits)
  obtain t2 r2 where loop: "trail_loop t1 r1 = (t2, r2)" by fastforce
  have 2: "t2 @ r2 = t1 @ r1" using trail_loop_concat [of t1 r1] loop by simp
  from st cut loop have "(a, b) = (if url \<and> t2 \<noteq> [] \<and> last t2 = 41 \<and> \<not> contains [40] t2
      then (butlast t2, 41 # r2) else (t2, r2))"
    by (simp add: splitTrail_def)
  with 1 2 show ?thesis
    by (auto split: if_splits) (metis append_butlast_last_id append.assoc append_Cons append_Nil)
qed

text \<open>A prefix that ends in a slash, such as a scheme, survives every cut.\<close>

lemma prefix_cut:
  assumes "starts_with p (u @ v)" and "p \<noteq> []" and "last p \<notin> set v"
  shows "starts_with p u"
proof -
  from assms(1) obtain w where w: "u @ v = p @ w" by (auto simp: starts_with_iff)
  then obtain x where "u = p @ x \<or> p = u @ x \<and> x @ w = v"
    by (auto simp: append_eq_append_conv2)
  moreover have "x = [] \<or> last (u @ x) \<in> set (x @ w)" by auto
  ultimately show ?thesis using assms(3) by auto
qed

lemma trail_loop_prefix:
  "starts_with p target \<Longrightarrow> p \<noteq> [] \<Longrightarrow> last p = 47 \<Longrightarrow> starts_with p (fst (trail_loop target trail))"
proof (induction target trail rule: trail_loop_induct)
  case (amp u trail)
  then have "starts_with p u" by (auto intro!: prefix_cut [of p u "lit ''&amp;''"] simp: str_simps)
  with amp show ?case by simp
next
  case (mark u c trail)
  then have "c \<noteq> 47" by (auto simp: sentence_mark_def str_simps)
  with mark have "starts_with p u" by (auto intro!: prefix_cut [of p u "[c]"])
  with mark show ?case by (simp add: trail_loop_mark)
qed (simp add: trail_loop_stop)

lemma wf_angle_entity [simp]: "wf_re angle_entity_re"
  by (simp add: angle_entity_re_def)

lemma search_angle:
  assumes "search angle_entity_re s = Some b"
  shows "\<exists>w. s = take b s @ 38 # w"
proof -
  from assms obtain pre m post cs where f: "find_re angle_entity_re s = Some (pre, m, post, cs)"
    and b: "b = length pre" by (auto simp: search_def)
  from find_from_den [OF wf_angle_entity f]
  have s: "s = pre @ m @ post" and d: "((0 + length pre, m @ post), (0 + length pre + length m, post)) \<in> den angle_entity_re"
    by auto
  from d obtain x where "((length pre, m @ post), x) \<in> den (Chr ((=) 38))"
    by (auto simp: angle_entity_re_def)
  then obtain w where "m @ post = 38 # w" by auto
  with s b show ?thesis by simp
qed

lemma splitTrail_prefix:
  assumes st: "splitTrail target url = (a, b)" and p: "starts_with p target" "p \<noteq> []" "last p = 47"
    "38 \<notin> set p"
  shows "starts_with p a"
proof -
  obtain t1 r1 where cut: "(case search angle_entity_re target of
      None \<Rightarrow> (target, []) | Some b \<Rightarrow> (take b target, drop b target)) = (t1, r1)"
    by fastforce
  have 1: "starts_with p t1"
  proof (cases "search angle_entity_re target")
    case None
    with cut p show ?thesis by simp
  next
    case (Some b)
    then obtain w where w: "target = take b target @ 38 # w" using search_angle by blast
    from p(1) obtain x where x: "target = p @ x" by (auto simp: starts_with_iff)
    have "length p \<le> b"
    proof (rule ccontr)
      assume "\<not> length p \<le> b"
      then have "38 = p ! b"
        using w x by (metis append_eq_conv_conj linorder_not_le nth_append nth_append_length
            length_take min.absorb2 le_cases order_less_le_trans take_all)
      with \<open>\<not> length p \<le> b\<close> p(4) show False by auto
    qed
    with x have "take b target = p @ take (b - length p) x" by simp
    moreover have "t1 = take b target" using Some cut by simp
    ultimately show ?thesis by simp
  qed
  obtain t2 r2 where loop: "trail_loop t1 r1 = (t2, r2)" by fastforce
  have 2: "starts_with p t2" using trail_loop_prefix [OF 1 p(2,3), of r1] loop by simp
  from st cut loop have ab: "(a, b) = (if url \<and> t2 \<noteq> [] \<and> last t2 = 41 \<and> \<not> contains [40] t2
      then (butlast t2, 41 # r2) else (t2, r2))"
    by (simp add: splitTrail_def)
  show ?thesis
  proof (cases "a = t2")
    case False
    with ab have "t2 \<noteq> []" "last t2 = 41" "a = butlast t2" by (auto split: if_splits)
    then have "t2 = a @ [41]" by (metis append_butlast_last_id)
    with 2 p(2,3) show ?thesis by (auto intro!: prefix_cut [of p a "[41]"])
  qed (use 2 in simp)
qed

section \<open>Lemmas: markup as text with anchors\<close>

text \<open>
  \<open>linked_as Q s out\<close>: the markup \<open>out\<close> is the text \<open>s\<close> with some pieces wrapped in anchors
  whose addresses satisfy \<open>Q\<close>.  This is the contract of the linker: it adds anchors and nothing
  else.
\<close>

inductive linked_as :: "(str \<Rightarrow> bool) \<Rightarrow> str \<Rightarrow> str \<Rightarrow> bool" for Q :: "str \<Rightarrow> bool" where
  linked_nil: "linked_as Q [] []"
| linked_char: "linked_as Q s out \<Longrightarrow> linked_as Q (c # s) (c # out)"
| linked_anchor: "Q href \<Longrightarrow> linked_as Q s out \<Longrightarrow> linked_as Q (x @ s) (anchor href x @ out)"

lemma linked_as_refl: "linked_as Q s s"
  by (induction s) (auto intro: linked_as.intros)

lemma linked_as_append:
  "linked_as Q s out \<Longrightarrow> linked_as Q s' out' \<Longrightarrow> linked_as Q (s @ s') (out @ out')"
proof (induction rule: linked_as.induct)
  case (linked_anchor href s out x)
  then have "linked_as Q (x @ (s @ s')) (anchor href x @ (out @ out'))"
    by (intro linked_as.intros) auto
  then show ?case by simp
qed (auto intro: linked_as.intros)

lemma linked_as_anchor: "Q href \<Longrightarrow> linked_as Q x (anchor href x)"
  using linked_as.linked_anchor [OF _ linked_as.linked_nil, of Q href x] by simp

lemma linked_as_mono: "linked_as Q s out \<Longrightarrow> (\<And>h. Q h \<Longrightarrow> R h) \<Longrightarrow> linked_as R s out"
  by (induction rule: linked_as.induct) (auto intro: linked_as.intros)

text \<open>A global replacement whose replacements keep the contract keeps it.\<close>

lemma linked_replace:
  assumes "wf_re r"
    and "\<And>i s pre m post cs. find_from r i s = Some (pre, m, post, cs) \<Longrightarrow> m \<noteq> []"
    and "\<And>i s pre m post cs. set s \<subseteq> S \<Longrightarrow> find_from r i s = Some (pre, m, post, cs) \<Longrightarrow>
        linked_as Q m (f (i + length pre) m cs)"
    and "set s \<subseteq> S"
  shows "linked_as Q s (replace_all r f s)"
proof -
  have "set s \<subseteq> S \<longrightarrow> linked_as Q s (replace_from r f 0 s)"
  proof (rule replace_induct [OF assms(1,2)])
    show "set s \<subseteq> S \<longrightarrow> linked_as Q s s" for s by (simp add: linked_as_refl)
    show "set (pre @ m @ post) \<subseteq> S \<longrightarrow>
        linked_as Q (pre @ m @ post) (pre @ f (i + length pre) m cs @ out)"
      if f: "find_from r i (pre @ m @ post) = Some (pre, m, post, cs)"
        and IH: "set post \<subseteq> S \<longrightarrow> linked_as Q post out" for i pre m post cs out
    proof
      assume S: "set (pre @ m @ post) \<subseteq> S"
      with IH have "linked_as Q post out" by simp
      with assms(3) [OF S f] show "linked_as Q (pre @ m @ post) (pre @ f (i + length pre) m cs @ out)"
        by (intro linked_as_append linked_as_refl)
    qed
  qed
  with assms(4) show ?thesis by (simp add: replace_all_def)
qed

section \<open>Lemmas: web addresses\<close>

text \<open>
  An address a browser may be given: http or https in lower case, accepted by the gate.
\<close>

definition web_href :: "str \<Rightarrow> bool" where
  "web_href h \<longleftrightarrow> safeHref h = h \<and>
     (starts_with (lit ''http://'') h \<or> starts_with (lit ''https://'') h)"

lemma unescape_prefix:
  assumes "starts_with p s" and "38 \<notin> set p"
  shows "starts_with p (unescapeAmp s)"
proof -
  from assms(1) obtain t where s: "s = p @ t" by (auto simp: starts_with_iff)
  have "replace_from (Word (lit ''&amp;'')) f i (p @ t)
      = p @ replace_from (Word (lit ''&amp;'')) f (i + length p) t" for i f
    using assms(2)
  proof (induction p arbitrary: i)
    case (Cons c p)
    then have "ms (Word (lit ''&amp;'')) (i, (c # p) @ t, []) = []"
      by (simp add: str_simps)
    with Cons show ?case by (simp add: replace_from_skip)
  qed simp
  with s show ?thesis by (simp add: unescapeAmp_def replace_all_def)
qed

lemma unescape_id: "38 \<notin> set s \<Longrightarrow> unescapeAmp s = s"
proof -
  have "38 \<notin> set s \<Longrightarrow> replace_from (Word (lit ''&amp;'')) f i s = s" for f i
  proof (induction s arbitrary: i)
    case Nil
    show ?case by (rule replace_from_Nil) (simp add: str_simps)
  next
    case (Cons c s)
    then show ?case by (subst replace_from_skip) (auto simp: str_simps)
  qed
  then show "38 \<notin> set s \<Longrightarrow> unescapeAmp s = s" by (simp add: unescapeAmp_def replace_all_def)
qed

lemma webAnchor_linked:
  assumes "starts_with (lit ''http://'') full \<or> starts_with (lit ''https://'') full"
    and "\<And>h. web_href h \<Longrightarrow> h = unescapeAmp full \<Longrightarrow> Q h"
  shows "linked_as Q shown (webAnchor shown full)"
proof (cases "safeHref (unescapeAmp full) = []")
  case True
  then show ?thesis by (simp add: webAnchor_def linked_as_refl)
next
  case False
  then have "safeHref (unescapeAmp full) = unescapeAmp full" using safeHref_cases by blast
  moreover have "starts_with (lit ''http://'') (unescapeAmp full)
      \<or> starts_with (lit ''https://'') (unescapeAmp full)"
    using assms(1) by (auto intro: unescape_prefix simp: str_simps)
  ultimately show ?thesis
    using False assms(2) by (auto simp: webAnchor_def web_href_def intro: linked_as_anchor)
qed

lemma lower_slash: "ascii_lower c = 47 \<longleftrightarrow> c = 47"
  by (auto simp: ascii_lower_def is_upper_def)

text \<open>\<open>lowerScheme\<close> on a text that starts with a scheme in any case.\<close>

lemma lowerScheme_http:
  assumes "starts_with (lit ''http:'') (map ascii_lower s)"
  shows "lowerScheme s = lit ''http:'' @ drop 5 s"
proof -
  have low: "\<forall>c\<in>set (lit ''http''). \<not> is_upper c" "\<forall>c\<in>set (lit ''s''). \<not> is_upper c"
    "\<forall>c\<in>set (lit '':''). \<not> is_upper c" by (simp_all add: str_simps char_defs)
  from assms obtain a b c d e t where s: "s = a # b # c # d # e # t"
    and l: "map ascii_lower [a, b, c, d, e] = lit ''http:''"
    by (auto simp: starts_with_iff str_simps map_eq_append_conv map_eq_Cons_conv)
  have "find_re (Seqs [Bol, IWord (lit ''http''), Opt (IWord (lit ''s'')), IWord (lit '':'')]) s
      = Some ([], [a, b, c, d, e], t, [])"
    using l by (simp add: s find_Bol ms_IWord low ms_Opt del: ms.simps(5)) (simp add: str_simps)
  with l s show ?thesis by (simp add: lowerScheme_def replace_first_def str_simps)
qed

lemma lowerScheme_https:
  assumes "starts_with (lit ''https:'') (map ascii_lower s)"
  shows "lowerScheme s = lit ''https:'' @ drop 6 s"
proof -
  have low: "\<forall>c\<in>set (lit ''http''). \<not> is_upper c" "\<forall>c\<in>set (lit ''s''). \<not> is_upper c"
    "\<forall>c\<in>set (lit '':''). \<not> is_upper c" by (simp_all add: str_simps char_defs)
  from assms obtain a b c d e f t where s: "s = a # b # c # d # e # f # t"
    and l: "map ascii_lower [a, b, c, d, e, f] = lit ''https:''"
    by (auto simp: starts_with_iff str_simps map_eq_append_conv map_eq_Cons_conv)
  have "find_re (Seqs [Bol, IWord (lit ''http''), Opt (IWord (lit ''s'')), IWord (lit '':'')]) s
      = Some ([], [a, b, c, d, e, f], t, [])"
    using l by (simp add: s find_Bol ms_IWord low ms_Opt del: ms.simps(5)) (simp add: str_simps)
  with l s show ?thesis by (simp add: lowerScheme_def replace_first_def str_simps)
qed

lemma lowerScheme_web:
  assumes "p \<in> {lit ''http://'', lit ''https://''}" and "starts_with p (map ascii_lower s)"
  shows "starts_with p (lowerScheme s)"
proof -
  from assms(2) obtain u v where s: "s = u @ v" and u: "map ascii_lower u = p"
    by (auto simp: starts_with_iff map_eq_append_conv)
  show ?thesis
  proof (cases "p = lit ''http://''")
    case True
    with u have "drop 5 u = [47, 47]" and len: "length u = 7"
      by (auto simp: str_simps map_eq_Cons_conv lower_slash)
    have "starts_with (lit ''http:'') (map ascii_lower s)" by (simp add: s u True str_simps)
    from lowerScheme_http [OF this] \<open>drop 5 u = [47, 47]\<close> len s True show ?thesis
      by (simp add: str_simps)
  next
    case False
    with assms(1) have p: "p = lit ''https://''" by simp
    with u have "drop 6 u = [47, 47]" and len: "length u = 8"
      by (auto simp: str_simps map_eq_Cons_conv lower_slash)
    have "starts_with (lit ''https:'') (map ascii_lower s)" by (simp add: s u p str_simps)
    from lowerScheme_https [OF this] \<open>drop 6 u = [47, 47]\<close> len s p show ?thesis
      by (simp add: str_simps)
  qed
qed

section \<open>Lemmas: the linker\<close>

text \<open>The two kinds of address the first pass finds.\<close>

lemma link_pattern_ne: "find_from link_pattern i s = Some (pre, m, post, cs) \<Longrightarrow> m \<noteq> []"
proof -
  assume f: "find_from link_pattern i s = Some (pre, m, post, cs)"
  have "minlen link_pattern = 4" by (simp add: link_pattern_def address_re_def)
  with find_from_eats [OF wf_link_pattern _ f, of "\<lambda>_. True"] show "m \<noteq> []" by auto
qed

lemma link_pattern_cases:
  assumes "find_from link_pattern i s = Some (pre, m, post, cs)"
  obtains (url) p where "capture 1 cs = m" "p \<in> {lit ''http://'', lit ''https://''}"
      "starts_with p (map ascii_lower m)"
    | (address) "capture 1 cs = []" "capture 2 cs = m" "\<forall>c\<in>set m. address_char c" "sigil (hd m)"
proof -
  let ?url = "Seqs [IWord (lit ''http''), Opt (IWord (lit ''s'')), IWord (lit ''://''), Plus (Chr word_char)]"
  let ?st = "(i + length pre, m @ post, [])"
  have m: "m \<noteq> []" using link_pattern_ne [OF assms] .
  from find_from_Some [OF wf_link_pattern assms]
  have "(i + length pre + length m, post, cs) \<in> set (ms link_pattern ?st)"
    by (metis list.set_sel(1))
  then consider (1) cs' where "(i + length pre + length m, post, cs') \<in> set (ms ?url ?st)" "cs = (1, m) # cs'"
    | (2) cs' where "(i + length pre + length m, post, cs') \<in> set (ms address_re ?st)" "cs = (2, m) # cs'"
    unfolding link_pattern_def by (fastforce simp del: Seqs.simps)
  then show ?thesis
  proof cases
    case 1
    have wf: "wf_re ?url" by simp
    have low: "\<forall>c\<in>set (lit ''http''). \<not> is_upper c" "\<forall>c\<in>set (lit ''s''). \<not> is_upper c"
      "\<forall>c\<in>set (lit ''://''). \<not> is_upper c" by (simp_all add: str_simps char_defs)
    from ms_consumes [OF wf 1(1)] have "((i + length pre, m @ post), (i + length pre + length m, post))
        \<in> den (IWord (lit ''http'')) O den (Opt (IWord (lit ''s''))) O den (IWord (lit ''://''))
          O den (Plus (Chr word_char))"
      by (simp del: relcomp.simps)
    from icase_words_match [OF low consumes_den this]
    obtain p where p: "p \<in> {lit ''http'' @ lit ''://'', lit ''http'' @ lit ''s'' @ lit ''://''}"
      and pre: "starts_with p (map ascii_lower m)" by blast
    have "p \<in> {lit ''http://'', lit ''https://''}" using p by (auto simp: str_simps)
    with pre 1(2) show ?thesis by (intro url) (simp_all add: capture_def cap_def)
  next
    case 2
    have "no_grp address_re" by (simp add: address_re_def)
    from ms_caps [OF this 2(1)] have cs: "cs = [(2, m)]" using 2(2) by simp
    from ms_consumes [OF wf_address 2(1)]
    have d: "((i + length pre, m @ post), (i + length pre + length m, post)) \<in> den address_re" by blast
    with eats_den [OF address_chars] have "\<forall>c\<in>set m. address_char c"
      unfolding eats_def by (metis append_same_eq)
    moreover from d obtain u where "((i + length pre, m @ post), u) \<in> den (Chr sigil)"
      by (auto simp: address_re_def)
    with m have "sigil (hd m)" by (cases m) auto
    ultimately show ?thesis using cs by (intro address) (simp_all add: capture_def cap_def)
  qed
qed

text \<open>
  Where an anchor may lead: into the app, over the app's own prefix and the characters of an
  address, or to a web address that passed the gate.
\<close>

definition own_href :: "str \<Rightarrow> bool" where
  "own_href h \<longleftrightarrow> (\<exists>a. h = INTERNAL_PREFIX @ a \<and> list_all address_char a)"

definition good_href :: "str \<Rightarrow> bool" where
  "good_href h \<longleftrightarrow> own_href h \<or> web_href h"

lemma linkMatch_linked:
  assumes f: "find_from link_pattern i s = Some (pre, m, post, cs)"
    and own: "\<And>h. own_href h \<Longrightarrow> Q h"
    and web: "\<And>h full. web_href h \<Longrightarrow> h = unescapeAmp full \<Longrightarrow> set full \<subseteq> set m \<union> set (lit ''https:'') \<Longrightarrow>
        click \<or> parse full \<noteq> None \<Longrightarrow> Q h"
  shows "linked_as Q m (linkMatch click cs)"
proof (cases rule: link_pattern_cases [OF f, case_names url address])
  case (url p)
  have m: "m \<noteq> []" using link_pattern_ne [OF f] .
  obtain target trail where st: "splitTrail m True = (target, trail)" by fastforce
  have cat: "target @ trail = m" using splitTrail_concat [OF st] .
  from url(3) obtain u v where uv: "m = u @ v" and u: "map ascii_lower u = p"
    by (auto simp: starts_with_iff map_eq_append_conv)
  have plast: "p \<noteq> [] \<and> last p = 47 \<and> 38 \<notin> set p" using url(2) by (auto simp: str_simps)
  have "u \<noteq> []" using u plast by auto
  moreover have "ascii_lower (last u) = 47" using u plast \<open>u \<noteq> []\<close> by (metis last_map)
  moreover have "38 \<notin> set u"
  proof
    assume "38 \<in> set u"
    then have "ascii_lower 38 \<in> set p" using u by force
    with plast show False by (simp add: ascii_lower_def is_upper_def)
  qed
  ultimately have uprops: "u \<noteq> [] \<and> last u = 47 \<and> 38 \<notin> set u" by (simp add: lower_slash)
  have "starts_with u target"
    using splitTrail_prefix [OF st] uv uprops by simp
  then have "starts_with p (map ascii_lower target)"
    using u by (auto simp: starts_with_iff)
  then have pre: "starts_with p (lowerScheme target)"
    using lowerScheme_web url(2) by blast
  have chars: "set (lowerScheme target) \<subseteq> set m \<union> set (lit ''https:'')"
  proof -
    have "starts_with (lit ''http:'') (map ascii_lower target)
        \<or> starts_with (lit ''https:'') (map ascii_lower target)"
      using \<open>starts_with p (map ascii_lower target)\<close> url(2)
      by (auto simp: starts_with_iff str_simps)
    then have "lowerScheme target \<in> {lit ''http:'' @ drop 5 target, lit ''https:'' @ drop 6 target}"
      using lowerScheme_http lowerScheme_https by blast
    moreover have "set (drop 5 target) \<subseteq> set m" "set (drop 6 target) \<subseteq> set m"
      using cat by (auto dest: in_set_dropD)
    ultimately show ?thesis by (auto simp: str_simps)
  qed
  have "linked_as Q target (webAnchor target (lowerScheme target))"
    if "click \<or> parse (lowerScheme target) \<noteq> None"
    using pre url(2) that chars web by (intro webAnchor_linked) auto
  then have "linked_as Q (target @ trail) (linkMatch click cs)"
    using url(1) m st
    by (auto simp: linkMatch_def Let_def intro: linked_as_append linked_as_refl)
  with cat show ?thesis by simp
next
  case address
  obtain target trail where st: "splitTrail m False = (target, trail)" by fastforce
  have cat: "target @ trail = m" using splitTrail_concat [OF st] .
  with address(3) have "list_all address_char target" by (auto simp: list_all_iff)
  then have "Q (lit ''xmatic:'' @ target)"
    by (intro own) (auto simp: own_href_def INTERNAL_PREFIX_def)
  then have "linked_as Q (target @ trail) (linkMatch click cs)"
    using address(1,2) st
    by (auto simp: linkMatch_def Let_def intro: linked_as_append linked_as_refl linked_as_anchor)
  with cat show ?thesis by simp
qed

lemma linkWord_linked:
  assumes "\<And>h. web_href h \<Longrightarrow> Q h"
  shows "linked_as Q word (linkWord word)"
proof (cases "bareIn word")
  case None
  then show ?thesis by (simp add: linkWord_def linked_as_refl)
next
  case (Some b)
  obtain target trail where st: "splitTrail (bare_address b) True = (target, trail)" by fastforce
  have "linked_as Q target (webAnchor target (lit ''https://'' @ target))"
    by (rule webAnchor_linked) (auto intro: assms)
  then have "linked_as Q (bare_lead b @ target @ trail @ bare_tail b) (linkWord word)"
    using Some st by (auto simp: linkWord_def intro: linked_as_append linked_as_refl)
  moreover have "word = bare_lead b @ target @ trail @ bare_tail b"
    using bareIn_parts [OF Some] splitTrail_concat [OF st] by simp
  ultimately show ?thesis by simp
qed

lemma find_WORD_ne: "find_from WORD i s = Some (pre, m, post, cs) \<Longrightarrow> m \<noteq> []"
  using find_from_eats [OF wf_WORD, of "\<lambda>_. True"] by (force simp: WORD_def)

lemma linkPiece_linked:
  assumes "\<And>h. web_href h \<Longrightarrow> Q h"
  shows "linked_as Q t (linkPiece a b t)"
  unfolding linkPiece_def
  by (rule linked_replace [where S = UNIV])
     (auto intro: linkWord_linked linked_as_refl assms dest: find_WORD_ne)

text \<open>The split at the anchors already made: pieces of text and whole anchors in turn.\<close>

definition no_lt :: "str \<Rightarrow> bool" where
  "no_lt s \<longleftrightarrow> 60 \<notin> set s"

inductive anchor_parts :: "(str \<Rightarrow> bool) \<Rightarrow> str \<Rightarrow> str list \<Rightarrow> bool" for Q :: "str \<Rightarrow> bool" where
  parts_one: "anchor_parts Q t [t]"
| parts_more: "Q href \<Longrightarrow> anchor_parts Q s ps \<Longrightarrow>
     anchor_parts Q (t @ x @ s) (t # anchor href x # ps)"

lemma rep_any_skip:
  "ms R (i, c # s, cs) = [] \<Longrightarrow>
   concat (map (ms R) (rep (ms (Chr any_char)) False 0 None (i, c # s, cs)))
     = concat (map (ms R) (rep (ms (Chr any_char)) False 0 None (Suc i, s, cs)))"
  by (subst rep.simps) (simp add: any_char_def)

lemma lazy_word:
  assumes "w = 60 # w'" and "no_lt x"
  shows "\<exists>sts. concat (map (ms (Seq (Word w) Eps)) (rep (ms (Chr any_char)) False 0 None (i, x @ w @ r, cs)))
     = (i + length x + length w, r, cs) # sts"
  using assms(2)
proof (induction x arbitrary: i)
  case Nil
  show ?case by (subst rep.simps) (simp add: assms(1) flip: assms(1))
next
  case (Cons c x)
  then have c: "c \<noteq> 60" "no_lt x" by (auto simp: no_lt_def)
  then have "\<not> starts_with w (c # x @ w @ r)" by (simp add: assms(1))
  then have "ms (Seq (Word w) Eps) (i, c # x @ w @ r, cs) = []" by simp
  from rep_any_skip [OF this] Cons.IH [OF c(2), of "Suc i"] show ?case
    by (simp del: ms.simps(3))
qed

lemma greedy_then:
  assumes "\<forall>x\<in>set h. P x" and "\<not> P c" and "\<And>x. P x \<Longrightarrow> ms R (0, [], []) = ms R (0, [], []) \<and> (\<forall>i s cs. ms R (i, x # s, cs) = [])"
  shows "concat (map (ms R) (rep (ms (Chr P)) True 0 None (i, h @ c # r, cs)))
     = ms R (i + length h, c # r, cs)"
  using assms(1)
proof (induction h arbitrary: i)
  case Nil
  with assms(2) show ?case by (simp add: rep_Chr_Cons)
next
  case (Cons x h)
  with assms(3) show ?case by (simp add: rep_Chr_Cons)
qed

lemma split_anchor_match:
  assumes "no_lt x" and "62 \<notin> set href"
  shows "\<exists>cs sts. ms anchor_split_re (i, anchor href x @ r, [])
      = (i + length (anchor href x), r, (1, anchor href x) # cs) # sts"
proof -
  let ?R = "Seq (Chr ((=) 62)) (Seq (LazyStar (Chr any_char)) (Seq (Word (lit ''</a>'')) Eps))"
  let ?h = "lit ''href='' @ [34] @ href @ [34]"
  have a: "anchor href x @ r = lit ''<a '' @ ?h @ 62 # x @ lit ''</a>'' @ r"
    by (simp add: anchor_def str_simps)
  have h: "\<forall>c\<in>set ?h. c \<noteq> 62" using assms(2) by (auto simp: str_simps)
  have "concat (map (ms ?R) (rep (ms (Chr (\<lambda>c. c \<noteq> 62))) True 0 None (i + length (lit ''<a ''), ?h @ 62 # x @ lit ''</a>'' @ r, [])))
     = ms ?R (i + length (lit ''<a '') + length ?h, 62 # x @ lit ''</a>'' @ r, [])"
    by (rule greedy_then [OF h]) auto
  moreover obtain sts where "ms ?R (i + length (lit ''<a '') + length ?h, 62 # x @ lit ''</a>'' @ r, [])
     = (Suc (i + length (lit ''<a '') + length ?h) + length x + length (lit ''</a>''), r, []) # sts"
    using lazy_word [of "lit ''</a>''" _ x "Suc (i + length (lit ''<a '') + length ?h)" r "[]", OF _ assms(1)]
    by (fastforce simp: str_simps simp del: rep.simps)
  moreover have "length (anchor href x) = length (lit ''<a '') + length ?h + 1 + length x + length (lit ''</a>'')"
    by (simp add: anchor_def)
  ultimately have "ms (Seqs [Word (lit ''<a ''), Star (Chr (\<lambda>c. c \<noteq> 62)), Chr ((=) 62),
      LazyStar (Chr any_char), Word (lit ''</a>'')]) (i, anchor href x @ r, [])
     = (i + length (anchor href x), r, []) # sts"
    by (simp add: a)
  then show ?thesis by (simp add: anchor_split_re_def)
qed

lemma wf_anchor_split [simp]: "wf_re anchor_split_re"
  by (simp add: anchor_split_re_def)

lemma anchor_split_no_lt: "x \<noteq> 60 \<Longrightarrow> ms anchor_split_re (i, x # s, cs) = []"
  by (simp add: anchor_split_re_def str_simps)

lemma find_anchor_none: "no_lt t \<Longrightarrow> find_from anchor_split_re i t = None"
proof (induction t arbitrary: i)
  case Nil
  show ?case by (subst find_from.simps) (simp add: anchor_split_re_def str_simps)
next
  case (Cons c t)
  then show ?case by (simp add: no_lt_def find_from_skip anchor_split_no_lt)
qed

lemma find_anchor:
  assumes "no_lt t" and "no_lt x" and "62 \<notin> set href"
  shows "\<exists>cs. find_from anchor_split_re i (t @ anchor href x @ r)
     = Some (t, anchor href x, r, (1, anchor href x) # cs)"
  using assms(1)
proof (induction t arbitrary: i)
  case Nil
  from split_anchor_match [OF assms(2,3)]
  obtain cs sts where "ms anchor_split_re (i, anchor href x @ r, [])
      = (i + length (anchor href x), r, (1, anchor href x) # cs) # sts" by blast
  from find_from_hit [OF this] show ?case by simp
next
  case (Cons c t)
  then have "c \<noteq> 60" "no_lt t" by (auto simp: no_lt_def)
  with Cons.IH [of "Suc i"] show ?case
    by (auto simp: find_from_skip anchor_split_no_lt)
qed

lemma anchor_ne [simp]: "anchor href x \<noteq> []"
  by (simp add: anchor_def str_simps)

lemma split_parts:
  assumes "linked_as Q s out" and "no_lt s" and "no_lt t" and "\<And>h. Q h \<Longrightarrow> 62 \<notin> set h"
  shows "anchor_parts Q (t @ s) (split_from anchor_split_re i (t @ out))"
  using assms(1-3)
proof (induction arbitrary: t i rule: linked_as.induct)
  case linked_nil
  then show ?case
    by (subst split_from.simps) (simp add: find_anchor_none anchor_parts.parts_one)
next
  case (linked_char s out c)
  then have "anchor_parts Q ((t @ [c]) @ s) (split_from anchor_split_re i ((t @ [c]) @ out))"
    by (intro linked_char.IH) (auto simp: no_lt_def)
  then show ?case by simp
next
  case (linked_anchor href s out x)
  then have x: "no_lt x" "no_lt s" by (auto simp: no_lt_def)
  from find_anchor [OF linked_anchor.prems(2) x(1) assms(4) [OF linked_anchor.hyps(1)]]
  obtain cs where f: "find_from anchor_split_re i (t @ anchor href x @ out)
     = Some (t, anchor href x, out, (1, anchor href x) # cs)" by blast
  have "anchor_parts Q ([] @ s) (split_from anchor_split_re (i + length t + length (anchor href x)) ([] @ out))"
    using x(2) by (intro linked_anchor.IH) (auto simp: no_lt_def)
  then have "anchor_parts Q (t @ x @ s) (t # anchor href x
      # split_from anchor_split_re (i + length t + length (anchor href x)) out)"
    using linked_anchor.hyps(1) by (intro anchor_parts.parts_more) auto
  with f show ?case by (subst split_from.simps) (simp add: cap_def)
qed

lemma linked_parts:
  assumes "anchor_parts Q s ps" and "\<And>i t. linked_as Q t (g i t)"
  shows "linked_as Q s (concat (map (\<lambda>i. if even i then g i (ps ! i) else ps ! i) [0..<length ps]))"
  using assms
proof (induction arbitrary: g rule: anchor_parts.induct)
  case (parts_one t)
  then show ?case by simp
next
  case (parts_more href s ps t x)
  let ?f = "\<lambda>i. if even i then g (Suc (Suc i)) (ps ! i) else ps ! i"
  have "linked_as Q s (concat (map ?f [0..<length ps]))"
    by (rule parts_more.IH) (rule parts_more.prems)
  then have "linked_as Q (t @ x @ s) (g 0 t @ anchor href x @ concat (map ?f [0..<length ps]))"
    using parts_more.prems [of t 0] parts_more.hyps(1)
    by (intro linked_as_append linked_as.linked_anchor) auto
  moreover have "[0..<length (t # anchor href x # ps)] = 0 # 1 # map (\<lambda>i. i + 2) [0..<length ps]"
    using map_add_upt [of 2 "length ps"] by (simp add: upt_conv_Cons add.commute numeral_2_eq_2 del: upt_Suc)
  ultimately show ?case by (simp add: comp_def cong: if_cong del: upt_Suc)
qed

lemma linkBare_linked:
  assumes "linked_as Q s out" and "no_lt s" and "\<And>h. Q h \<Longrightarrow> 62 \<notin> set h" and "\<And>h. web_href h \<Longrightarrow> Q h"
  shows "linked_as Q s (linkBare out)"
proof -
  have p: "anchor_parts Q ([] @ s) (split_from anchor_split_re 0 ([] @ out))"
    using assms(1,2,3) by (intro split_parts) (auto simp: no_lt_def)
  show ?thesis
    unfolding linkBare_def Let_def
    using linked_parts [OF p [simplified], of "\<lambda>i. linkPiece (i > 0) (i < length (split_from anchor_split_re 0 out) - 1)"]
    by (simp add: linkPiece_linked assms(4))
qed

lemma web_href_chars: "web_href h \<Longrightarrow> c \<in> set h \<Longrightarrow> \<not> href_breaker c \<and> 32 \<le> c \<and> c \<le> 126"
proof -
  assume w: "web_href h" and c: "c \<in> set h"
  then have "safeHref h = h" "h \<noteq> []" by (auto simp: web_href_def)
  then have "\<not> test (Chr href_breaker) h" "\<not> test (Chr not_printable) h"
    by (auto simp: safeHref_def split: if_splits)
  with c show ?thesis by (auto simp: test_Chr not_printable_def)
qed

lemma good_href_gt: "good_href h \<Longrightarrow> 62 \<notin> set h"
proof
  assume "good_href h" and m: "62 \<in> set h"
  then consider "own_href h" | "web_href h" by (auto simp: good_href_def)
  then show False
  proof cases
    case 1
    then obtain a where h: "h = INTERNAL_PREFIX @ a" and a: "list_all address_char a"
      by (auto simp: own_href_def)
    have "\<not> address_char 62" by (simp add: address_char_def sigil_def local_char_def char_defs)
    with a have "62 \<notin> set a" by (auto simp: list_all_iff)
    with h m show False by (simp add: INTERNAL_PREFIX_def str_simps)
  next
    case 2
    with m show False using web_href_chars [of h 62] by (simp add: href_breaker_def)
  qed
qed

lemma linkify_first:
  "linked_as good_href (escapeText body)
     (replace_all link_pattern (\<lambda>_ _ cs. linkMatch click cs) (escapeText body))"
  by (rule linked_replace [where S = UNIV])
     (auto intro: linkMatch_linked dest: link_pattern_ne simp: good_href_def)

lemma linkify_linked: "linked_as good_href (escapeText body) (linkify body click)"
proof (cases click)
  case True
  have "no_lt (escapeText body)" using escapeText_clean by (simp add: no_lt_def)
  from linkBare_linked [OF linkify_first this good_href_gt] True show ?thesis
    by (simp add: linkify_def good_href_def)
next
  case False
  then show ?thesis using linkify_first by (simp add: linkify_def)
qed

section \<open>The contract, read back\<close>

lemma anchor_shape:
  "anchor href x = 60 # (lit ''a href='' @ [34] @ href @ [34]) @ 62 # x @ 60 # lit ''/a'' @ 62 # []"
  by (simp add: anchor_def str_simps)

lemma strip_anchor:
  "no_angle href \<Longrightarrow> no_angle x \<Longrightarrow> strip_tags False (anchor href x @ s) = x @ strip_tags False s"
proof -
  assume "no_angle href" "no_angle x"
  moreover have "no_angle (lit ''/a'')" "no_angle (lit ''a href='')" by (simp_all add: str_simps)
  ultimately have "strip_tags False (60 # (lit ''a href='' @ [34] @ href @ [34]) @ 62 # x @ 60 # lit ''/a'' @ 62 # s)
      = x @ strip_tags False s"
    by (subst strip_tag) (simp_all add: strip_tag del: strip_tags.simps)
  then show ?thesis by (simp add: anchor_shape)
qed

lemma hrefs_anchor:
  assumes "no_angle href" and "34 \<notin> set href" and "no_lt x"
  shows "hrefs (anchor href x @ s) = href # hrefs s"
proof -
  let ?t = "href @ 34 # 62 # x @ lit ''</a>'' @ s"
  have a: "anchor href x @ s = href_open @ ?t"
    by (simp add: anchor_def href_open_def str_simps)
  have o: "href_open = 60 # lit ''a href='' @ [34]" by (simp add: href_open_def str_simps)
  have "hrefs ?t = hrefs s"
  proof -
    have "hrefs ?t = hrefs (lit ''</a>'' @ s)"
      using assms hrefs_text [of "href @ 34 # 62 # x"] by (simp add: no_angle_def no_lt_def)
    then show ?thesis by (simp add: href_open_def str_simps)
  qed
  moreover have "hrefs (lit ''a href='' @ 34 # ?t) = hrefs ?t"
    using hrefs_text [of "lit ''a href='' @ [34]" ?t] by (simp add: str_simps)
  moreover have "takeWhile (\<lambda>c. c \<noteq> 34) ?t = href" using assms(2) by (subst takeWhile_append2) auto
  moreover have "starts_with (lit ''a href='' @ [34]) (lit ''a href='' @ 34 # ?t)"
    using starts_with_append [of "lit ''a href='' @ [34]" ?t] by simp
  ultimately show ?thesis
    unfolding a by (subst o) (simp add: o)
qed

lemma linked_shown:
  assumes "linked_as Q s out" and "no_angle s" and "\<And>h. Q h \<Longrightarrow> no_angle h"
  shows "strip_tags False out = s"
  using assms(1,2) by (induction rule: linked_as.induct) (auto simp: strip_anchor assms(3))

lemma linked_hrefs:
  assumes "linked_as Q s out" and "no_angle s" and "\<And>h. Q h \<Longrightarrow> no_angle h \<and> 34 \<notin> set h"
  shows "h \<in> set (hrefs out) \<Longrightarrow> Q h"
  using assms(1,2)
proof (induction rule: linked_as.induct)
  case (linked_char s out c)
  then show ?case using hrefs_text [of "[c]" out] by simp
next
  case (linked_anchor href s out x)
  then show ?case using assms(3) [of href] by (auto simp: hrefs_anchor no_lt_def no_angle_def)
qed simp

locale linked_markup =
  fixes text_of :: "'a \<Rightarrow> str" and markup_of :: "'a \<Rightarrow> str" and Q :: "str \<Rightarrow> bool"
  assumes linked: "linked_as Q (text_of a) (markup_of a)"
    and clean_text: "no_angle (text_of a)"
    and clean_href: "Q h \<Longrightarrow> no_angle h \<and> 34 \<notin> set h"
begin

lemma shown: "strip_tags False (markup_of a) = text_of a"
  using linked_shown [OF linked clean_text] clean_href by blast

lemma hrefs_ok: "h \<in> set (hrefs (markup_of a)) \<Longrightarrow> Q h"
  using linked_hrefs [OF linked clean_text] clean_href by blast

end

lemma good_href_clean: "good_href h \<Longrightarrow> no_angle h \<and> 34 \<notin> set h"
proof -
  assume g: "good_href h"
  then consider a where "h = INTERNAL_PREFIX @ a" "list_all address_char a" | "web_href h"
    by (auto simp: good_href_def own_href_def)
  then show ?thesis
  proof cases
    case 1
    have "\<not> address_char 62" "\<not> address_char 60" "\<not> address_char 34"
      by (simp_all add: address_char_def sigil_def local_char_def char_defs)
    with 1(2) have "no_angle a" "34 \<notin> set a" by (auto simp: list_all_iff no_angle_def)
    with 1(1) show ?thesis by (simp add: INTERNAL_PREFIX_def str_simps)
  next
    case 2
    have "href_breaker 62" "href_breaker 60" "href_breaker 34" by (simp_all add: href_breaker_def)
    with web_href_chars [OF 2] show ?thesis by (auto simp: no_angle_def)
  qed
qed

text \<open>The whole linker, and its two passes, keep the contract.\<close>

lemma escapeText_no_angle: "no_angle (escapeText body)"
  by (simp add: escapeText_escaped text_escape.escaped_clean)

interpretation link_all: linked_markup
  "\<lambda>(body, click). escapeText body" "\<lambda>(body, click). linkify body click" good_href
  by unfold_locales (auto simp: escapeText_no_angle linkify_linked dest: good_href_clean)

interpretation link_words: linked_markup
  "\<lambda>(a, b, body). escapeText body" "\<lambda>(a, b, body). linkPiece a b (escapeText body)" web_href
  by unfold_locales
     (use good_href_clean in \<open>auto simp: escapeText_no_angle good_href_def intro!: linkPiece_linked\<close>)

section \<open>Properties of the linker\<close>

text \<open>C3: Linking loses nothing and invents nothing: the text a reader sees in the markup, its
  entities decoded, is the body as it was sent - whatever the body contains and whether or not web
  links are on.\<close>

theorem linkify_text: "unescape (strip_tags False (linkify body click)) = body"
  using link_all.shown [of "(body, click)"]
  by (simp add: escapeText_escaped text_escape.roundtrip)

text \<open>C16: Every address an anchor of a plain body carries leads into the app over the app's own
  prefix and the characters of a Matrix address, or is an http(s) address that passed the gate:
  printable ASCII, nothing that could end the attribute, no user name before the host.\<close>

theorem linkify_hrefs:
  "list_all (\<lambda>h. (\<exists>a. h = INTERNAL_PREFIX @ a \<and> list_all address_char a)
     \<or> safeHref h = h \<and> (starts_with (lit ''http://'') h \<or> starts_with (lit ''https://'') h))
   (hrefs (linkify body click))"
  using link_all.hrefs_ok [of _ "(body, click)"]
  by (auto simp: list_all_iff good_href_def own_href_def web_href_def)

text \<open>With web links off, only permalinks are linked, and a tap on one stays in the app.\<close>

lemma own_href_no_web: "own_href h \<Longrightarrow> lt_kind (decide h) \<noteq> KWeb"
proof -
  assume "own_href h"
  then obtain a where "h = INTERNAL_PREFIX @ a" by (auto simp: own_href_def)
  then have "\<not> test web_scheme_re h"
    unfolding web_scheme_iff by (simp add: INTERNAL_PREFIX_def str_simps ascii_lower_def is_upper_def)
  then show ?thesis by (auto simp: decide_def dest: parse_Some split: option.splits)
qed

lemma parsed_no_web: "parse h \<noteq> None \<Longrightarrow> lt_kind (decide h) \<noteq> KWeb"
proof -
  assume "parse h \<noteq> None"
  then obtain t where t: "parse h = Some t" by blast
  from parse_Some [OF t] t show ?thesis by (auto simp: decide_def)
qed

lemma linkify_off:
  assumes "\<forall>c\<in>set body. c \<noteq> 38 \<and> c \<noteq> 60 \<and> c \<noteq> 62"
  shows "linked_as (\<lambda>h. good_href h \<and> lt_kind (decide h) \<noteq> KWeb) body (linkify body False)"
proof -
  let ?Q = "\<lambda>h. good_href h \<and> lt_kind (decide h) \<noteq> KWeb"
  have e: "escapeText body = body"
    unfolding escapeText_eq by (rule map_esc_id) (rule assms)
  have "linked_as ?Q body (replace_all link_pattern (\<lambda>_ _ cs. linkMatch False cs) body)"
  proof (rule linked_replace [OF wf_link_pattern, where S = "{c. c \<noteq> 38}"])
    show "set body \<subseteq> {c. c \<noteq> 38}" using assms by blast
    show "m \<noteq> []" if "find_from link_pattern i s = Some (pre, m, post, cs)" for i s pre m post cs
      using link_pattern_ne [OF that] .
    show "linked_as ?Q m (linkMatch False cs)"
      if "set s \<subseteq> {c. c \<noteq> 38}" and f: "find_from link_pattern i s = Some (pre, m, post, cs)"
      for i s pre m post cs
    proof (rule linkMatch_linked [OF f])
      show "?Q h" if "own_href h" for h using that own_href_no_web by (simp add: good_href_def)
      show "?Q h" if h: "web_href h" "h = unescapeAmp full" "set full \<subseteq> set m \<union> set (lit ''https:'')"
          "False \<or> parse full \<noteq> None" for h full
      proof -
        have "s = pre @ m @ post" using find_from_den(1) [OF wf_link_pattern f] .
        then have "38 \<notin> set full" using \<open>set s \<subseteq> _\<close> h(3) by (auto simp: str_simps)
        then have "h = full" using h(2) unescape_id by simp
        with h(1,4) show "?Q h" by (simp add: good_href_def parsed_no_web)
      qed
    qed
  qed
  then show ?thesis by (simp add: linkify_def e)
qed

text \<open>With web links off, no anchor of a plain body opens a browser: every one leads to a
  room or a user, or nowhere.  (The body may not contain the characters that are escaped; with an
  ampersand the claim fails, see \<open>linkify_amp_web\<close>.)\<close>

theorem linkify_off_internal:
  assumes "\<forall>c\<in>set body. c \<noteq> 38 \<and> c \<noteq> 60 \<and> c \<noteq> 62"
    and "h \<in> set (hrefs (linkify body False))"
  shows "lt_kind (decide h) \<in> {KRoom, KUser, KNone}"
proof -
  have "no_angle body" using assms(1) by (auto simp: no_angle_def)
  from linked_hrefs [OF linkify_off [OF assms(1)] this _ assms(2)] good_href_clean
  have "lt_kind (decide h) \<noteq> KWeb" by blast
  then show ?thesis by (cases "lt_kind (decide h)") auto
qed

theorem linkify_off_internal_witness:
  "lt_kind (decide (lit ''xmatic:@a:b'')) \<in> {KRoom, KUser, KNone}"
  by (rule linkify_off_internal [of "lit ''hi @a:b''"]) (simp add: str_simps, code_simp)

text \<open>With an ampersand in the body the promise above fails: the linker reads the escaped
  text, the tap the unescaped address, and in this body the two see different targets - an anchor
  made although web links are off, which the tap hands to the browser.\<close>

theorem linkify_amp_web:
  "hrefs (linkify (lit ''https://matrix.to/#/#&?x'') False) = [lit ''https://matrix.to/#/#&?x'']
   \<and> lt_kind (decide (lit ''https://matrix.to/#/#&?x'')) = KWeb"
  by code_simp

section \<open>Properties of the gate and of the preview\<close>

text \<open>The scheme cut off the front of an address.\<close>

definition after_scheme :: "str \<Rightarrow> str" where
  "after_scheme url =
     (if starts_with (lit ''http://'') (map ascii_lower url) then drop 7 url
      else if starts_with (lit ''https://'') (map ascii_lower url) then drop 8 url else url)"

lemma scheme_cut: "replace_first web_scheme_re (\<lambda>_ _. []) url = after_scheme url"
proof -
  have low: "\<forall>c\<in>set (lit ''http''). \<not> is_upper c" "\<forall>c\<in>set (lit ''s''). \<not> is_upper c"
    "\<forall>c\<in>set (lit ''://''). \<not> is_upper c" by (simp_all add: str_simps char_defs)
  have two: "starts_with (lit ''http://'') s \<longleftrightarrow>
      starts_with (lit ''http'') s \<and> starts_with (lit ''://'') (drop 4 s)" for s
    using starts_with_two [of "lit ''http''" s "lit ''://''"] by (simp add: str_simps eval_nat_numeral)
  have three: "starts_with (lit ''https://'') s \<longleftrightarrow>
      starts_with (lit ''http'') s \<and> starts_with (lit ''s'') (drop 4 s)
      \<and> starts_with (lit ''://'') (drop 5 s)" for s
    using starts_with_two [of "lit ''http''" s "lit ''s://''"]
      starts_with_two [of "lit ''s''" "drop 4 s" "lit ''://''"]
    by (simp add: str_simps drop_drop eval_nat_numeral)
  have no: "\<not> (starts_with (lit ''s'') s \<and> starts_with (lit ''://'') s)" for s
    by (cases s) (auto simp: str_simps)
  have short: "starts_with (lit ''s'') (drop 4 (map ascii_lower url)) \<Longrightarrow> 4 < length url"
    by (rule ccontr) (simp add: str_simps)
  let ?L = "map ascii_lower url"
  have f: "find_re web_scheme_re url =
    (if starts_with (lit ''http'') ?L \<and> starts_with (lit ''s'') (drop 4 ?L) \<and> starts_with (lit ''://'') (drop 5 ?L)
     then Some ([], take (length url - length (drop 8 url)) url, drop 8 url, [])
     else if starts_with (lit ''http'') ?L \<and> starts_with (lit ''://'') (drop 4 ?L)
     then Some ([], take (length url - length (drop 7 url)) url, drop 7 url, []) else None)"
    unfolding web_scheme_re_def Seqs.simps find_Bol
    using short
    by (auto simp: ms_IWord low ms_Opt drop_map drop_drop eval_nat_numeral simp del: ms.simps(5))
  show ?thesis
    unfolding replace_first_def f after_scheme_def two three using no
    by (auto simp: drop_map drop_drop)
qed

text \<open>The gate for addresses lets exactly the printable ASCII addresses pass that contain
  no quote, angle bracket, backtick, backslash or space and no user name before the host, and it
  never changes what it lets pass.\<close>

theorem safeHref_iff:
  "safeHref url =
     (if list_all (\<lambda>c. 33 \<le> c \<and> c \<le> 126 \<and> c \<notin> {34, 39, 60, 62, 96, 92}) url
         \<and> 64 \<notin> set (takeWhile (\<lambda>c. c \<notin> {47, 63, 35}) (after_scheme url))
      then url else [])"
proof -
  have sp: "js_space c \<and> 32 \<le> c \<and> c \<le> 126 \<longleftrightarrow> c = 32" for c
    by (auto simp: js_space_def)
  have ok: "\<not> href_breaker c \<and> \<not> not_printable c \<longleftrightarrow>
      33 \<le> c \<and> c \<le> 126 \<and> c \<notin> {34, 39, 60, 62, 96, 92}" for c
    using sp [of c] by (auto simp: href_breaker_def not_printable_def)
  have "\<not> test (Chr href_breaker) url \<and> \<not> test (Chr not_printable) url \<longleftrightarrow>
      list_all (\<lambda>c. 33 \<le> c \<and> c \<le> 126 \<and> c \<notin> {34, 39, 60, 62, 96, 92}) url"
    unfolding ok [symmetric] by (auto simp: test_Chr list_all_iff)
  moreover have "split_on path_start s ! 0 = takeWhile (\<lambda>c. c \<notin> {47, 63, 35}) s" for s
    unfolding hd_split_on [symmetric] by (simp add: hd_conv_nth path_start_def [abs_def])
  ultimately show ?thesis
    by (auto simp: safeHref_def scheme_cut Let_def)
qed

text \<open>The trailing punctuation a preview drops.\<close>

lemma marks_cut:
  "\<exists>v. s = replace_first (Seq (Plus (Chr sentence_mark)) Eol) (\<lambda>_ _. []) s @ v
     \<and> (\<forall>c\<in>set v. sentence_mark c)"
proof (cases "find_re (Seq (Plus (Chr sentence_mark)) Eol) s")
  case (Some x)
  let ?r = "Seq (Plus (Chr sentence_mark)) Eol"
  obtain pre m post cs where x: "x = (pre, m, post, cs)" by (cases x) auto
  have wf: "wf_re ?r" by simp
  from Some x have f: "find_re ?r s = Some (pre, m, post, cs)" by simp
  from find_from_den [OF wf f] have s: "s = pre @ m @ post" and "post = []"
    by (auto simp: relcomp_unfold)
  moreover have "\<forall>c\<in>set m. sentence_mark c"
    using find_from_eats [OF wf _ f, of sentence_mark] by simp
  moreover have "replace_first ?r (\<lambda>_ _. []) s = pre @ post" by (simp add: replace_first_def f)
  ultimately show ?thesis by auto
qed (simp add: replace_first_def)

lemma bracket_cut:
  assumes p: "starts_with p (map ascii_lower a)" "p \<noteq> []" "last p = 47"
    and b: "b = (if test (Seq (Chr ((=) 41)) Eol) a \<and> \<not> contains [40] a then butlast a else a)"
  shows "\<exists>w. a = b @ w \<and> starts_with p (map ascii_lower b)"
proof (cases "b = a")
  case False
  with b have "b = butlast a" "test (Seq (Chr ((=) 41)) Eol) a" by (auto split: if_splits)
  then obtain pr mm po c where g: "find_re (Seq (Chr ((=) 41)) Eol) a = Some (pr, mm, po, c)"
    by (auto simp: test_def)
  have "wf_re (Seq (Chr ((=) 41)) Eol)" by simp
  from find_from_den [OF this g] have "a = pr @ [41]" by (auto simp: relcomp_unfold)
  with \<open>b = butlast a\<close> have a: "a = b @ [41]" by simp
  moreover have "last p \<notin> set (map ascii_lower [41])"
    using p(3) by (simp add: ascii_lower_def is_upper_def)
  ultimately have "starts_with p (map ascii_lower b)"
    using p(1,2) by (intro prefix_cut [of p "map ascii_lower b" "map ascii_lower [41]"]) auto
  with a show ?thesis by blast
next
  case True
  then show ?thesis using p(1) by (intro exI [of _ "[]"]) simp
qed

lemma preview_re_cases:
  assumes "find_re (Seqs [IWord (lit ''http''), Opt (IWord (lit ''s'')), IWord (lit ''://''),
             Plus (Chr word_char)]) body = Some (pre, m, post, cs)"
  obtains p where "body = pre @ m @ post" "p \<in> {lit ''http://'', lit ''https://''}"
    "starts_with p (map ascii_lower m)"
proof -
  let ?url = "Seqs [IWord (lit ''http''), Opt (IWord (lit ''s'')), IWord (lit ''://''), Plus (Chr word_char)]"
  have wf: "wf_re ?url" by simp
  have low: "\<forall>c\<in>set (lit ''http''). \<not> is_upper c" "\<forall>c\<in>set (lit ''s''). \<not> is_upper c"
    "\<forall>c\<in>set (lit ''://''). \<not> is_upper c" by (simp_all add: str_simps char_defs)
  note d = find_from_den [OF wf assms]
  from d(2) have "((0 + length pre, m @ post), (0 + length pre + length m, post))
        \<in> den (IWord (lit ''http'')) O den (Opt (IWord (lit ''s''))) O den (IWord (lit ''://''))
          O den (Plus (Chr word_char))"
    by (simp del: relcomp.simps)
  from icase_words_match [OF low consumes_den this]
  obtain p where p: "p \<in> {lit ''http'' @ lit ''://'', lit ''http'' @ lit ''s'' @ lit ''://''}"
    and pre: "starts_with p (map ascii_lower m)" by blast
  have "p \<in> {lit ''http://'', lit ''https://''}" using p by (auto simp: str_simps)
  with pre d(1) show thesis by (intro that)
qed

text \<open>A link preview is asked for only where the setting allows it, and only for an address
  that passed the same gate as a link in the text: it carries a lower-case http(s) scheme, is
  accepted by \<open>safeHref\<close>, and is a piece of the body with its scheme lowered.\<close>

theorem previewUrl_gate:
  assumes "previewUrl body setting encrypted \<noteq> []"
  shows "setting \<noteq> lit ''never'' \<and> \<not> (setting = lit ''unencrypted'' \<and> encrypted)
    \<and> safeHref (previewUrl body setting encrypted) = previewUrl body setting encrypted
    \<and> (starts_with (lit ''http://'') (previewUrl body setting encrypted)
       \<or> starts_with (lit ''https://'') (previewUrl body setting encrypted))
    \<and> (\<exists>pre m post. body = pre @ m @ post \<and> lowerScheme m = previewUrl body setting encrypted)"
proof -
  let ?url = "Seqs [IWord (lit ''http''), Opt (IWord (lit ''s'')), IWord (lit ''://''), Plus (Chr word_char)]"
  from assms have gate: "setting \<noteq> lit ''never'' \<and> \<not> (setting = lit ''unencrypted'' \<and> encrypted)"
    by (auto simp: previewUrl_def split: if_splits)
  with assms obtain pre m post cs where f: "find_re ?url body = Some (pre, m, post, cs)"
    by (auto simp: previewUrl_def split: if_splits option.splits)
  define a where "a = replace_first (Seq (Plus (Chr sentence_mark)) Eol) (\<lambda>_ _. []) m"
  define b where "b = (if test (Seq (Chr ((=) 41)) Eol) a \<and> \<not> contains [40] a then butlast a else a)"
  have u: "previewUrl body setting encrypted = safeHref (lowerScheme b)"
    unfolding previewUrl_def f a_def b_def using gate
    by (simp add: Let_def del: Seqs.simps) blast
  from preview_re_cases [OF f] obtain p where body: "body = pre @ m @ post"
    and p: "p \<in> {lit ''http://'', lit ''https://''}" "starts_with p (map ascii_lower m)" .
  have pl: "p \<noteq> []" "last p = 47" using p(1) by (auto simp: str_simps)
  from marks_cut [of m] obtain v where v: "m = a @ v" "\<forall>c\<in>set v. sentence_mark c"
    unfolding a_def by blast
  have nm: "\<not> sentence_mark 47" by (simp add: sentence_mark_def str_simps)
  have "last p \<notin> set (map ascii_lower v)"
    using v(2) nm pl(2) lower_slash by (auto dest: sym)
  then have pa: "starts_with p (map ascii_lower a)"
    using p(2) v(1) pl by (intro prefix_cut [of p "map ascii_lower a" "map ascii_lower v"]) auto
  from bracket_cut [OF pa pl b_def] obtain w where w: "a = b @ w"
    and pb: "starts_with p (map ascii_lower b)" by blast
  have lower: "starts_with p (lowerScheme b)" using lowerScheme_web [OF p(1) pb] .
  have su: "safeHref (lowerScheme b) = lowerScheme b"
    using assms u safeHref_cases by metis
  from lower have "starts_with (lit ''http://'') (lowerScheme b) \<or> starts_with (lit ''https://'') (lowerScheme b)"
    using p(1) by blast
  moreover have "body = pre @ b @ (w @ v @ post)" using body v w by simp
  ultimately show ?thesis unfolding u using gate su by metis
qed

theorem previewUrl_gate_witness:
  "safeHref (lit ''https://a.b/c'') = lit ''https://a.b/c''
   \<and> (\<exists>pre m post. lit ''(Https://a.b/c).'' = pre @ m @ post \<and> lowerScheme m = lit ''https://a.b/c'')"
proof -
  have p: "previewUrl (lit ''(Https://a.b/c).'') (lit ''unencrypted'') False = lit ''https://a.b/c''"
    by code_simp
  have "previewUrl (lit ''(Https://a.b/c).'') (lit ''unencrypted'') False \<noteq> []"
    unfolding p by (simp add: str_simps)
  from previewUrl_gate [OF this] show ?thesis unfolding p by blast
qed

text \<open>The preview and the link in the text part ways at a trailing ampersand: the linker
  takes it for punctuation, the preview keeps it, so the card describes another address than the
  one a tap opens.\<close>

theorem preview_link_divergence:
  "previewUrl (lit ''http://a.b/&'') (lit ''always'') True = lit ''http://a.b/&''
   \<and> webAnchor (fst (splitTrail (escapeText (lit ''http://a.b/&'')) True))
        (lowerScheme (fst (splitTrail (escapeText (lit ''http://a.b/&'')) True)))
      = anchor (lit ''http://a.b/'') (lit ''http://a.b/'')"
  by code_simp

end
