(* ===== verification/Tokens.thy ===== *)
theory Tokens
  imports Markup_Text
begin

text \<open>
  Markup as a sequence of pieces of text and tags.  The Rust writer produces it, the JavaScript
  renderer reads it back with regular expressions; the tokens are the common view of both.
  \<open>render\<close> turns tokens into the string, \<open>upto\<close> finds a closing tag, \<open>tok_pairs\<close> rewrites
  element by element, and \<open>anchors_ok\<close> says that anchors are closed and do not nest.
\<close>

datatype tok = T str | G str

primrec render1 :: "tok \<Rightarrow> str" where
  "render1 (T s) = s"
| "render1 (G g) = 60 # g @ [62]"

definition render :: "tok list \<Rightarrow> str" where
  "render ts = concat (map render1 ts)"

lemma render_simps [simp]:
  "render [] = []" "render (t # ts) = render1 t @ render ts" "render (ts @ us) = render ts @ render us"
  by (simp_all add: render_def)

definition a_open :: str where
  "a_open = lit ''a href='' @ [34]"

text \<open>A tag that opens an anchor is exactly \<open>a href="..."\<close>.\<close>

primrec tok_ok :: "tok \<Rightarrow> bool" where
  "tok_ok (T s) = no_angle s"
| "tok_ok (G g) = (no_angle g \<and> (starts_with a_open g \<longrightarrow>
     last g = 34 \<and> 34 \<notin> set (butlast (drop (length a_open) g)) \<and> length a_open < length g))"

definition toks_ok :: "tok list \<Rightarrow> bool" where
  "toks_ok ts \<longleftrightarrow> list_all tok_ok ts"

lemma toks_ok_simps [simp]:
  "toks_ok []" "toks_ok (t # ts) \<longleftrightarrow> tok_ok t \<and> toks_ok ts"
  "toks_ok (ts @ us) \<longleftrightarrow> toks_ok ts \<and> toks_ok us"
  by (simp_all add: toks_ok_def)

definition href_of :: "str \<Rightarrow> str" where
  "href_of g = butlast (drop (length a_open) g)"

definition a_tag :: "str \<Rightarrow> str" where
  "a_tag h = a_open @ h @ [34]"

lemma href_of_tag [simp]: "href_of (a_tag h) = h"
  by (simp add: href_of_def a_tag_def)

lemma a_open_eq: "a_open = [97, 32, 104, 114, 101, 102, 61, 34]"
  by (simp add: a_open_def str_simps)

lemma tok_ok_a_tag: "no_angle h \<Longrightarrow> 34 \<notin> set h \<Longrightarrow> tok_ok (G (a_tag h))"
  by (simp add: a_tag_def) (simp add: a_open_eq)

lemma opener_eq: "tok_ok (G g) \<Longrightarrow> starts_with a_open g \<Longrightarrow> g = a_tag (href_of g) \<and> 34 \<notin> set (href_of g)"
  by (auto simp: starts_with_iff a_tag_def href_of_def) (metis append_butlast_last_id)

section \<open>Elements\<close>

fun upto_close :: "str \<Rightarrow> tok list \<Rightarrow> (tok list \<times> tok list) option" where
  "upto_close g [] = None"
| "upto_close g (t # ts) =
     (if t = G g then Some ([], ts)
      else map_option (\<lambda>(inner, rest). (t # inner, rest)) (upto_close g ts))"

lemma upto_close_eq: "upto_close g ts = Some (inner, rest) \<Longrightarrow> ts = inner @ G g # rest \<and> G g \<notin> set inner"
  by (induction ts arbitrary: inner) (auto split: if_splits)

lemma upto_close_length: "upto_close g ts = Some (inner, rest) \<Longrightarrow> length rest < length ts"
  by (auto dest: upto_close_eq)

lemma upto_close_append: "G g \<notin> set inner \<Longrightarrow> upto_close g (inner @ G g # rest) = Some (inner, rest)"
  by (induction inner) auto

lemma upto_close_None: "upto_close g ts = None \<longleftrightarrow> G g \<notin> set ts"
  by (induction ts) auto

text \<open>Every element with an opening tag of \<open>is_open\<close>, up to its closing tag, rewritten by \<open>f\<close>;
  what was rewritten is not looked at again.\<close>

function tok_pairs :: "(str \<Rightarrow> bool) \<Rightarrow> str \<Rightarrow> (str \<Rightarrow> tok list \<Rightarrow> tok list) \<Rightarrow> tok list \<Rightarrow> tok list" where
  "tok_pairs is_open close f [] = []"
| "tok_pairs is_open close f (T s # ts) = T s # tok_pairs is_open close f ts"
| "tok_pairs is_open close f (G g # ts) =
     (case (if is_open g then upto_close close ts else None) of
        None \<Rightarrow> G g # tok_pairs is_open close f ts
      | Some (inner, rest) \<Rightarrow> f g inner @ tok_pairs is_open close f rest)"
  by pat_completeness auto
termination
  by (relation "measure (\<lambda>(is_open, close, f, ts). length ts)")
     (auto split: if_splits dest!: upto_close_length)

text \<open>The string search for a closing tag is the search for the token.\<close>

lemma starts_with_tag:
  "no_angle g \<Longrightarrow> no_angle g' \<Longrightarrow> starts_with (g @ [62]) (g' @ 62 # s) \<longleftrightarrow> g = g'"
  by (induction g g' rule: list_induct2') auto

lemma index_of_skip:
  "60 \<notin> set x \<Longrightarrow> index_of (60 # p) (x @ s) = map_option ((+) (length x)) (index_of (60 # p) s)"
proof (induction x)
  case Nil
  show ?case by (cases "index_of (60 # p) s") simp_all
next
  case (Cons a x)
  then show ?case by (cases "index_of (60 # p) s") simp_all
qed

lemma index_of_close:
  assumes "no_angle g"
  shows "toks_ok ts \<Longrightarrow> index_of (60 # g @ [62]) (render ts)
     = map_option (\<lambda>(inner, rest). length (render inner)) (upto_close g ts)"
proof (induction ts)
  case (Cons t ts)
  show ?case
  proof (cases t)
    case (T s)
    with Cons show ?thesis
      by (simp add: index_of_skip no_angle_def option.map_comp comp_def split_def)
  next
    case (G g')
    with Cons.prems have "no_angle g'" by simp
    then have 60: "60 \<notin> set (g' @ [62])" by (simp add: no_angle_def)
    show ?thesis
    proof (cases "g' = g")
      case True
      with G show ?thesis
        using starts_with_append [of "60 # g @ [62]" "render ts"] by (auto split: if_splits)
    next
      case False
      with \<open>no_angle g'\<close> assms have "\<not> starts_with (60 # g @ [62]) (60 # g' @ 62 # render ts)"
        by (simp add: starts_with_tag)
      then have "index_of (60 # g @ [62]) (render (t # ts))
          = map_option Suc (index_of (60 # g @ [62]) ((g' @ [62]) @ render ts))"
        by (simp add: G)
      with Cons False G show ?thesis
        unfolding index_of_skip [OF 60]
        by (simp add: option.map_comp comp_def split_def)
    qed
  qed
qed simp

section \<open>What a reader sees\<close>

definition tok_texts :: "tok list \<Rightarrow> str" where
  "tok_texts ts = concat (map (\<lambda>t. case t of T s \<Rightarrow> s | G g \<Rightarrow> []) ts)"

definition tok_hrefs :: "tok list \<Rightarrow> str list" where
  "tok_hrefs ts = concat (map (\<lambda>t. case t of T s \<Rightarrow> [] | G g \<Rightarrow>
     if starts_with a_open g then [href_of g] else []) ts)"

lemma tok_texts_simps [simp]:
  "tok_texts [] = []" "tok_texts (T s # ts) = s @ tok_texts ts" "tok_texts (G g # ts) = tok_texts ts"
  "tok_texts (ts @ us) = tok_texts ts @ tok_texts us"
  by (simp_all add: tok_texts_def)

lemma tok_hrefs_simps [simp]:
  "tok_hrefs [] = []" "tok_hrefs (T s # ts) = tok_hrefs ts"
  "tok_hrefs (G g # ts) = (if starts_with a_open g then [href_of g] else []) @ tok_hrefs ts"
  "tok_hrefs (ts @ us) = tok_hrefs ts @ tok_hrefs us"
  by (simp_all add: tok_hrefs_def)

lemma strip_render: "toks_ok ts \<Longrightarrow> strip_tags False (render ts) = tok_texts ts"
proof (induction ts)
  case (Cons t ts)
  then show ?case by (cases t) (auto simp: strip_tag simp del: strip_tags.simps)
qed simp

lemma hrefs_render: "toks_ok ts \<Longrightarrow> hrefs (render ts) = tok_hrefs ts"
proof (induction ts)
  case (Cons t ts)
  show ?case
  proof (cases t)
    case (T s)
    with Cons show ?thesis by (simp add: no_angle_def)
  next
    case (G g)
    have o: "href_open = 60 # a_open" by (simp add: href_open_def a_open_def str_simps)
    have sw: "starts_with href_open (60 # g @ 62 # render ts) \<longleftrightarrow> starts_with a_open g"
    proof -
      have "62 \<notin> set p \<Longrightarrow> starts_with p (g @ 62 # s) \<longleftrightarrow> starts_with p g" for p s
        by (induction p g rule: starts_with.induct) auto
      then show ?thesis by (simp add: o a_open_eq)
    qed
    from Cons.prems G have "60 \<notin> set (g @ [62])" by (simp add: no_angle_def)
    from hrefs_text [OF this] have rest: "hrefs (g @ 62 # render ts) = hrefs (render ts)" by simp
    have tw: "takeWhile (\<lambda>c. c \<noteq> 34) (drop (length href_open) (60 # g @ 62 # render ts)) = href_of g"
      if a: "starts_with a_open g"
    proof -
      from opener_eq [of g] Cons.prems G a obtain h where g: "g = a_tag h" "34 \<notin> set h" by auto
      have "drop (length href_open) (60 # g @ 62 # render ts) = h @ 34 # 62 # render ts"
        by (simp add: g(1) o a_tag_def)
      with g show ?thesis by (auto simp: takeWhile_append2 takeWhile_tail)
    qed
    show ?thesis using Cons sw rest tw by (simp add: G)
  qed
qed simp

section \<open>Anchors\<close>

text \<open>Every anchor is closed, and none is opened inside another.\<close>

fun anchors_ok :: "bool \<Rightarrow> tok list \<Rightarrow> bool" where
  "anchors_ok inside [] = (\<not> inside)"
| "anchors_ok inside (T s # ts) = anchors_ok inside ts"
| "anchors_ok inside (G g # ts) =
     (if starts_with a_open g then \<not> inside \<and> anchors_ok True ts
      else if g = lit ''/a'' then inside \<and> anchors_ok False ts
      else anchors_ok inside ts)"

text \<open>Inside an anchor, the closing tag comes first.\<close>

lemma anchors_ok_close:
  "anchors_ok True ts \<Longrightarrow> \<exists>inner rest. upto_close (lit ''/a'') ts = Some (inner, rest)
     \<and> tok_hrefs inner = [] \<and> anchors_ok False rest"
proof (induction ts)
  case (Cons t ts)
  have a: "\<not> starts_with a_open (lit ''/a'')" by (simp add: a_open_eq str_simps)
  show ?case
  proof (cases "t = G (lit ''/a'')")
    case True
    with Cons.prems a show ?thesis by simp
  next
    case False
    with Cons.prems have "anchors_ok True ts" "tok_hrefs (t # ts) = tok_hrefs ts"
      by (cases t; auto split: if_splits)+
    moreover have "tok_hrefs [t] = []" using Cons.prems by (cases t) (auto split: if_splits)
    ultimately show ?thesis using Cons.IH False
      by (auto simp: tok_hrefs_def)
  qed
qed simp

end
