(* ===== verification/Rendering.thy ===== *)
theory Rendering
  imports Formatting Matrix_Links Tokens
begin

text \<open>
  Properties of \<open>Formatting.js\<close>.  The regular expressions of \<open>renderFormatted\<close> are shown to
  implement a rewriting of tokens (\<open>tok_render\<close>), under which the treatment of web anchors is
  easy to read off.  For \<open>withEmojiPictures\<close>: tags are copied verbatim, and only known sequences
  outside of them become pictures.
\<close>

section \<open>Lazy runs and runs up to a quote\<close>

lemma rep_any_lazy:
  "rep (ms (Chr any_char)) False 0 None (i, s, cs) = map (\<lambda>n. (i + n, drop n s, cs)) [0..<Suc (length s)]"
proof (induction s arbitrary: i)
  case Nil
  show ?case by (subst rep.simps) simp
next
  case (Cons c s)
  have "[0..<Suc (length (c # s))] = 0 # map Suc [0..<Suc (length s)]"
    by (simp add: map_Suc_upt upt_conv_Cons del: upt_Suc)
  with Cons.IH [of "Suc i"] any_char_def [of c] show ?case
    by (subst rep.simps) (simp add: comp_def del: upt_Suc)
qed

lemma first_hit:
  assumes "index_of w s = Some n"
  shows "\<exists>l. concat (map (\<lambda>n. if starts_with w (drop n s) then [f n] else []) [0..<Suc (length s)]) = f n # l"
proof -
  let ?g = "\<lambda>n. if starts_with w (drop n s) then [f n] else []"
  have n: "n \<le> length s" "starts_with w (drop n s)" using index_of_Some [OF assms] by auto
  have none: "concat (map ?g [0..<n]) = []"
    using index_of_first [OF assms] by simp
  have cut: "[0..<Suc (length s)] = [0..<n] @ n # [Suc n..<Suc (length s)]"
    by (use n(1) upt_add_eq_append [of 0 n "Suc (length s) - n"] in \<open>simp add: upt_conv_Cons del: upt_Suc\<close>)
  have "concat (map ?g [0..<Suc (length s)]) = f n # concat (map ?g [Suc n..<Suc (length s)])"
    unfolding cut map_append concat_append none using n(2) by simp
  then show ?thesis by blast
qed

text \<open>A captured lazy run in front of a word stops at the first occurrence of the word.\<close>

lemma ms_lazy_word:
  "case index_of w s of
     None \<Rightarrow> ms (Seq (Grp k (LazyStar (Chr any_char))) (Seq (Word w) Eps)) (i, s, cs) = []
   | Some n \<Rightarrow> \<exists>l. ms (Seq (Grp k (LazyStar (Chr any_char))) (Seq (Word w) Eps)) (i, s, cs)
       = (i + n + length w, drop (n + length w) s, (k, take n s) # cs) # l"
proof -
  let ?f = "\<lambda>n. (i + n + length w, drop (n + length w) s, (k, take n s) # cs)"
  have cut: "n \<le> length s \<Longrightarrow> take (length s - length (drop n s)) s = take n s" for n by simp
  have "ms (Seq (Grp k (LazyStar (Chr any_char))) (Seq (Word w) Eps)) (i, s, cs)
      = concat (map (\<lambda>n. if starts_with w (drop n s) then [?f n] else []) [0..<Suc (length s)])"
    by (simp add: rep_any_lazy comp_def cut add.commute cong: map_cong del: upt_Suc)
       (intro arg_cong [where f = concat] map_cong refl, auto simp: cut add.commute)
  with first_hit [of w s _ ?f] show ?thesis
    by (auto split: option.split simp del: upt_Suc ms.simps dest: index_of_None)
qed

section \<open>Patterns that read an element\<close>

lemma replace_from_skips:
  assumes "wf_re r" and "\<And>i c s. c \<noteq> 60 \<Longrightarrow> ms r (i, c # s, []) = []" and "60 \<notin> set x"
  shows "replace_from r f i (x @ s) = x @ replace_from r f (i + length x) s"
  using assms(3) by (induction x arbitrary: i) (simp_all add: replace_from_skip assms(1,2))

text \<open>
  The contract of a pattern that matches an element of the markup: it matches at the opening tag,
  up to the first closing tag, and captures \<open>caps\<close> of the tag and of what is between.
\<close>

locale element_pattern =
  fixes re :: re and is_open :: "str \<Rightarrow> bool" and close :: str and caps :: "str \<Rightarrow> str \<Rightarrow> caps"
  assumes wf: "wf_re re"
    and other: "c \<noteq> 60 \<Longrightarrow> ms re (i, c # s, []) = []"
    and at_end: "ms re (i, [], []) = []"
    and hit: "tok_ok (G g) \<Longrightarrow> toks_ok ts \<Longrightarrow> is_open g \<Longrightarrow> upto_close close ts = Some (inner, rest) \<Longrightarrow>
      \<exists>j l. ms re (i, render (G g # ts), []) = (j, render rest, caps g (render inner)) # l"
    and miss: "tok_ok (G g) \<Longrightarrow> toks_ok ts \<Longrightarrow> is_open g \<Longrightarrow> upto_close close ts = None \<Longrightarrow>
      ms re (i, render (G g # ts), []) = []"
    and shut: "tok_ok (G g) \<Longrightarrow> toks_ok ts \<Longrightarrow> \<not> is_open g \<Longrightarrow> ms re (i, render (G g # ts), []) = []"
begin

text \<open>The global replacement on the string is the rewriting of the tokens.\<close>

lemma skip_tag:
  assumes "tok_ok (G g)" and "ms re (i, render (G g # ts), []) = []"
  shows "\<exists>j. replace_from re F i (render (G g # ts)) = render1 (G g) @ replace_from re F j (render ts)"
proof -
  from assms(1) have "60 \<notin> set (g @ [62])" by (simp add: no_angle_def)
  from replace_from_skips [OF wf other this] assms(2)
  have "replace_from re F i (render (G g # ts))
     = render1 (G g) @ replace_from re F (Suc (Suc (i + length g))) (render ts)"
    by (simp add: replace_from_skip wf)
  then show ?thesis by blast
qed

lemma replace_tokens:
  assumes "\<And>g inner. tok_ok (G g) \<Longrightarrow> is_open g \<Longrightarrow> toks_ok inner \<Longrightarrow>
    F' (render (G g # inner @ [G close])) (caps g (render inner)) = render (f g inner)"
  shows "toks_ok ts \<Longrightarrow> replace_from re (\<lambda>_. F') i (render ts) = render (tok_pairs is_open close f ts)"
proof (induction "length ts" arbitrary: ts i rule: less_induct)
  case less
  show ?case
  proof (cases ts)
    case Nil
    then show ?thesis by (simp add: replace_from_Nil at_end)
  next
    case (Cons t ts')
    note ts = this
    show ?thesis
    proof (cases t)
      case (T s)
      with less ts replace_from_skips [OF wf other, of s "\<lambda>_. F'" i "render ts'"] show ?thesis
        by (simp add: no_angle_def)
    next
      case (G g)
      with less.prems ts have ok: "tok_ok (G g)" "toks_ok ts'" by simp_all
      have IH: "length us < length ts \<Longrightarrow> toks_ok us \<Longrightarrow>
          replace_from re (\<lambda>_. F') j (render us) = render (tok_pairs is_open close f us)" for us j
        by (rule less.hyps)
      show ?thesis
      proof (cases "if is_open g then upto_close close ts' else None")
        case None
        then have "ms re (i, render (G g # ts'), []) = []"
          using ok miss shut by (auto split: if_splits)
        from skip_tag [OF ok(1) this] obtain j where
          r: "replace_from re (\<lambda>_. F') i (render (G g # ts')) = render1 (G g) @ replace_from re (\<lambda>_. F') j (render ts')"
          by blast
        from IH [of ts' j] ok ts have "replace_from re (\<lambda>_. F') j (render ts') = render (tok_pairs is_open close f ts')"
          by simp
        with r None show ?thesis by (simp only: ts G tok_pairs.simps) simp
      next
        case (Some x)
        then obtain inner rest where x: "is_open g" "upto_close close ts' = Some (inner, rest)"
          and if_x: "(if is_open g then upto_close close ts' else None) = Some (inner, rest)"
          by (cases x) (auto split: if_splits)
        note eq = upto_close_eq [OF x(2)]
        from hit [OF ok x] obtain j l
          where m: "ms re (i, render (G g # ts'), []) = (j, render rest, caps g (render inner)) # l" by blast
        define elem where "elem = render (G g # inner @ [G close])"
        have all: "render (G g # ts') = elem @ render rest"
          using eq by (simp add: elem_def)
        have ne: "elem \<noteq> []" by (simp add: elem_def)
        then have "length (render rest) < length (render (G g # ts'))" unfolding all by simp
        from replace_from_hit [OF m this, of "\<lambda>_. F'"] obtain k where
          r: "replace_from re (\<lambda>_. F') i (render (G g # ts'))
            = F' elem (caps g (render inner)) @ replace_from re (\<lambda>_. F') k (render rest)"
          unfolding all by simp
        have "F' elem (caps g (render inner)) = render (f g inner)"
          unfolding elem_def using assms ok x(1) eq by simp
        moreover have "replace_from re (\<lambda>_. F') k (render rest) = render (tok_pairs is_open close f rest)"
          using ok eq ts by (intro IH) auto
        ultimately show ?thesis using r by (simp only: ts G tok_pairs.simps if_x) simp
      qed
    qed
  qed
qed

lemma replace_all_tokens:
  assumes "\<And>g inner. tok_ok (G g) \<Longrightarrow> is_open g \<Longrightarrow> toks_ok inner \<Longrightarrow>
    F' (render (G g # inner @ [G close])) (caps g (render inner)) = render (f g inner)"
  shows "toks_ok ts \<Longrightarrow> replace_all re (\<lambda>_. F') (render ts) = render (tok_pairs is_open close f ts)"
  unfolding replace_all_def using assms by (rule replace_tokens)

end

section \<open>The two patterns\<close>

lemma rep_Chr_list:
  "rep (ms (Chr P)) True 0 None (i, s, cs)
     = map (\<lambda>n. (i + n, drop n s, cs)) (rev [0..<Suc (length (takeWhile P s))])"
proof (induction s arbitrary: i)
  case Nil
  show ?case by (simp add: rep_Chr_Nil)
next
  case (Cons c s)
  have "rev [0..<Suc (Suc n)] = map Suc (rev [0..<Suc n]) @ [0]" for n
    by (simp add: rev_map [symmetric] map_Suc_upt upt_conv_Cons del: upt_Suc)
  moreover have "rev [0..<Suc 0] = [0]" by simp
  ultimately show ?case using Cons by (simp add: rep_Chr_Cons comp_def del: upt_Suc)
qed

text \<open>A captured run up to a quote, followed by something that starts with the quote.\<close>

lemma ms_to_quote:
  assumes "34 \<notin> set h" and "\<And>j c t cs. c \<noteq> 34 \<Longrightarrow> ms R (j, c # t, cs) = []"
  shows "ms (Seq (Grp k (Star (Chr (\<lambda>c. c \<noteq> 34)))) R) (i, h @ 34 # t, cs)
    = ms R (i + length h, 34 # t, (k, h) # cs)"
proof -
  let ?s = "h @ 34 # t"
  let ?st = "\<lambda>n. (i + n, drop n ?s, (k, take n ?s) # cs)"
  have tw: "takeWhile (\<lambda>c. c \<noteq> 34) ?s = h" using assms(1) by (subst takeWhile_append2) auto
  have "ms (Grp k (Star (Chr (\<lambda>c. c \<noteq> 34)))) (i, ?s, cs) = map ?st (rev [0..<Suc (length h)])"
    by (simp add: rep_Chr_list tw comp_def del: upt_Suc length_drop)
       (auto simp: less_Suc_eq_le)
  moreover have "ms R (?st n) = []" if "n < length h" for n
  proof -
    have "h ! n \<noteq> 34" using assms(1) that nth_mem by fastforce
    moreover have "drop n ?s = h ! n # drop (Suc n) ?s" using that by (simp add: Cons_nth_drop_Suc nth_append)
    ultimately show ?thesis using assms(2) by simp
  qed
  then have "concat (map (\<lambda>n. ms R (?st n)) (rev [0..<length h])) = []" by simp
  ultimately show ?thesis by (simp add: comp_def)
qed

definition code_caps :: "str \<Rightarrow> str \<Rightarrow> caps" where
  "code_caps g inner = [(1, inner)]"

definition anchor_caps :: "str \<Rightarrow> str \<Rightarrow> caps" where
  "anchor_caps g inner = [(2, inner), (1, href_of g)]"

lemma tag_word: "lit ''<code>'' = 60 # lit ''code'' @ [62]" "lit ''</code>'' = 60 # lit ''/code'' @ [62]"
  "lit ''</a>'' = 60 # lit ''/a'' @ [62]" "lit ''<a href='' @ [34] = 60 # a_open"
  "no_angle (lit ''code'')" "no_angle (lit ''/code'')" "no_angle (lit ''/a'')"
  by (simp_all add: str_simps a_open_eq)

lemma ms_code:
  "ms code_re (i, s, []) = (if starts_with (60 # lit ''code'' @ [62]) s
     then ms (Seq (Grp 1 (LazyStar (Chr any_char))) (Seq (Word (60 # lit ''/code'' @ [62])) Eps))
            (i + 6, drop 6 s, []) else [])"
  by (simp add: code_re_def tag_word(1,2) [symmetric] del: ms.simps(4-6)) (simp add: eval_nat_numeral)

interpretation code_pat: element_pattern code_re "(=) (lit ''code'')" "lit ''/code''" code_caps
proof
  fix i c s g ts inner rest
  show "wf_re code_re" by (simp add: code_re_def)
  show "ms code_re (i, c # s, []) = []" if "c \<noteq> 60" using that by (simp add: ms_code del: ms.simps)
  show "ms code_re (i, [], []) = []" by (simp add: ms_code del: ms.simps)
  assume ok: "tok_ok (G g)" "toks_ok ts"
  then have g: "no_angle g" by simp
  let ?close = "60 # lit ''/code'' @ [62]"
  show "ms code_re (i, render (G g # ts), []) = []" if "lit ''code'' \<noteq> g"
    using that g tag_word(5) by (simp add: ms_code starts_with_tag del: ms.simps)
  note idx = index_of_close [OF tag_word(6) ok(2)]
  have m: "ms code_re (i, render (G g # ts), []) =
      ms (Seq (Grp 1 (LazyStar (Chr any_char))) (Seq (Word ?close) Eps)) (i + 6, render ts, [])"
    if "lit ''code'' = g"
    using that [symmetric] starts_with_append [of "lit ''<code>''" "render ts"]
    by (simp add: ms_code tag_word(1) del: ms.simps)
  note lazy = ms_lazy_word [where w = ?close and s = "render ts" and k = 1 and i = "i + 6" and cs = "[]"]
  show "ms code_re (i, render (G g # ts), []) = []"
    if "lit ''code'' = g" and "upto_close (lit ''/code'') ts = None"
    using lazy that(2) unfolding m [OF that(1)] idx by simp
  show "\<exists>j l. ms code_re (i, render (G g # ts), []) = (j, render rest, code_caps g (render inner)) # l"
    if "lit ''code'' = g" and u: "upto_close (lit ''/code'') ts = Some (inner, rest)"
  proof -
    have "render ts = render inner @ ?close @ render rest" using upto_close_eq [OF u] by simp
    with lazy u show ?thesis unfolding m [OF that(1)] idx
      by (auto simp: code_caps_def simp del: ms.simps)
  qed
qed

text \<open>The anchor pattern, after its opening word: the address, the end of the tag, the text.\<close>

abbreviation anchor_tail :: re where
  "anchor_tail \<equiv> Seq (Grp 2 (LazyStar (Chr any_char))) (Seq (Word (60 # lit ''/a'' @ [62])) Eps)"

lemma ms_anchor:
  "ms anchor_re (i, s, []) = (if starts_with (60 # a_open) s
     then ms (Seq (Grp 1 (Star (Chr (\<lambda>c. c \<noteq> 34)))) (Seq (Word [34, 62]) anchor_tail))
            (i + 9, drop 9 s, []) else [])"
proof -
  have w: "lit ''<a href='' @ [34] = 60 # a_open" "34 # lit ''>'' = [34, 62]"
    by (simp_all add: str_simps a_open_eq)
  have "length (60 # a_open) = 9" by (simp add: a_open_eq)
  then show ?thesis
    by (simp add: anchor_re_def w tag_word(3) del: ms.simps(4-6))
qed

lemma ms_anchor_tag:
  assumes "34 \<notin> set h"
  shows "ms anchor_re (i, render (G (a_tag h) # ts), []) = ms anchor_tail (i + length h + 11, render ts, [(1, h)])"
proof -
  have s: "render (G (a_tag h) # ts) = (60 # a_open) @ (h @ 34 # 62 # render ts)"
    by (simp add: a_tag_def)
  have d: "drop 9 ((60 # a_open) @ (h @ 34 # 62 # render ts)) = h @ 34 # 62 # render ts"
    by (simp add: a_open_eq)
  have other: "ms (Seq (Word [34, 62]) anchor_tail) (j, c # t, cs) = []" if "c \<noteq> 34" for j c t cs
    using that by simp
  have "ms anchor_re (i, render (G (a_tag h) # ts), []) = ms (Seq (Word [34, 62]) anchor_tail)
      (i + 9 + length h, 34 # 62 # render ts, [(1, h)])"
    unfolding ms_anchor s if_P [OF starts_with_append] d by (rule ms_to_quote [OF assms other])
  then show ?thesis by (simp add: add.commute del: ms.simps(4-6))
qed

interpretation anchor_pat: element_pattern anchor_re "starts_with a_open" "lit ''/a''" anchor_caps
proof
  fix i c s g ts inner rest
  show "wf_re anchor_re" by (simp add: anchor_re_def)
  show "ms anchor_re (i, c # s, []) = []" if "c \<noteq> 60" using that by (simp add: ms_anchor del: ms.simps)
  show "ms anchor_re (i, [], []) = []" by (simp add: ms_anchor del: ms.simps)
  assume ok: "tok_ok (G g)" "toks_ok ts"
  let ?close = "60 # lit ''/a'' @ [62]"
  show "ms anchor_re (i, render (G g # ts), []) = []" if no: "\<not> starts_with a_open g"
  proof -
    have "62 \<notin> set p \<Longrightarrow> starts_with p (g @ 62 # s) \<Longrightarrow> starts_with p g" for p s
      by (induction p g rule: starts_with.induct) auto
    with no have "\<not> starts_with a_open (g @ 62 # render ts)" by (auto simp: a_open_eq)
    then show ?thesis by (simp add: ms_anchor del: ms.simps)
  qed
  note idx = index_of_close [OF tag_word(7) ok(2)]
  let ?h = "href_of g"
  have m: "ms anchor_re (i, render (G g # ts), []) = ms anchor_tail (i + length ?h + 11, render ts, [(1, ?h)])"
    if "starts_with a_open g"
    using opener_eq [OF ok(1) that] ms_anchor_tag by metis
  note lazy = ms_lazy_word [where w = ?close and s = "render ts" and k = 2
      and i = "i + length ?h + 11" and cs = "[(1, ?h)]"]
  show "ms anchor_re (i, render (G g # ts), []) = []"
    if "starts_with a_open g" and "upto_close (lit ''/a'') ts = None"
    using lazy that(2) unfolding m [OF that(1)] idx by simp
  show "\<exists>j l. ms anchor_re (i, render (G g # ts), []) = (j, render rest, anchor_caps g (render inner)) # l"
    if "starts_with a_open g" and u: "upto_close (lit ''/a'') ts = Some (inner, rest)"
  proof -
    have "render ts = render inner @ ?close @ render rest" using upto_close_eq [OF u] by simp
    with lazy u show ?thesis unfolding m [OF that(1)] idx
      by (auto simp: anchor_caps_def simp del: ms.simps)
  qed
qed

section \<open>\<open>renderFormatted\<close> on tokens\<close>

definition font_tag :: "str \<Rightarrow> str" where
  "font_tag col = lit ''font color='' @ [34] @ col @ [34]"

definition tok_code :: "str \<Rightarrow> tok list \<Rightarrow> tok list" where
  "tok_code col = tok_pairs ((=) (lit ''code'')) (lit ''/code'')
     (\<lambda>g inner. G (font_tag col) # inner @ [G (lit ''/font'')])"

definition tok_links :: "tok list \<Rightarrow> tok list" where
  "tok_links = tok_pairs (starts_with a_open) (lit ''/a'')
     (\<lambda>g inner. if internal_href (href_of g) then G g # inner @ [G (lit ''/a'')] else inner)"

definition tok_render :: "tok list \<Rightarrow> bool \<Rightarrow> str \<Rightarrow> tok list" where
  "tok_render ts click col = (if click then tok_code col ts else tok_links (tok_code col ts))"

lemma tok_pairs_ok:
  assumes "\<And>g inner. tok_ok (G g) \<Longrightarrow> is_open g \<Longrightarrow> toks_ok inner \<Longrightarrow> toks_ok (f g inner)"
  shows "toks_ok ts \<Longrightarrow> toks_ok (tok_pairs is_open close f ts)"
proof (induction "length ts" arbitrary: ts rule: less_induct)
  case less
  show ?case
  proof (cases ts)
    case (Cons t ts')
    then show ?thesis
    proof (cases t)
      case (G g)
      show ?thesis
      proof (cases "if is_open g then upto_close close ts' else None")
        case (Some x)
        then obtain inner rest where x: "is_open g" "upto_close close ts' = Some (inner, rest)"
          and if_x: "(if is_open g then upto_close close ts' else None) = Some (inner, rest)"
          by (cases x) (auto split: if_splits)
        note eq = upto_close_eq [OF x(2)]
        have "toks_ok (tok_pairs is_open close f rest)"
          using less Cons eq by auto
        moreover have "tok_pairs is_open close f ts = f g inner @ tok_pairs is_open close f rest"
          unfolding Cons G tok_pairs.simps if_x by simp
        moreover have "toks_ok (f g inner)" using less.prems Cons G eq assms x(1) by simp
        ultimately show ?thesis by simp
      qed (use less Cons in \<open>auto simp: G\<close>)
    qed (use less in auto)
  qed simp
qed

lemma font_ok: "no_angle col \<Longrightarrow> tok_ok (G (font_tag col)) \<and> tok_ok (G (lit ''/font''))"
  by (simp add: font_tag_def a_open_eq str_simps)

lemma tok_code_ok: "no_angle col \<Longrightarrow> toks_ok ts \<Longrightarrow> toks_ok (tok_code col ts)"
  unfolding tok_code_def by (rule tok_pairs_ok) (use font_ok in auto)

lemma tok_links_ok: "toks_ok ts \<Longrightarrow> toks_ok (tok_links ts)"
  unfolding tok_links_def by (rule tok_pairs_ok) (auto simp: a_open_eq str_simps)

lemma renderFormatted_tokens:
  assumes "toks_ok ts" and "no_angle col"
  shows "renderFormatted (render ts) click col = render (tok_render ts click col)"
proof -
  have 1: "replace_all code_re (\<lambda>_ m cs. lit ''<font color='' @ [34] @ col @ [34] @ lit ''>'' @ capture 1 cs
            @ lit ''</font>'') (render ts) = render (tok_code col ts)"
    unfolding tok_code_def
    by (rule code_pat.replace_all_tokens [OF _ assms(1)])
       (simp add: code_caps_def capture_def cap_def font_tag_def str_simps)
  have 2: "replace_all anchor_re (\<lambda>_ anchor cs.
            if internal_href (capture 1 cs) then anchor else capture 2 cs) (render us) = render (tok_links us)"
    if "toks_ok us" for us
    unfolding tok_links_def
    by (rule anchor_pat.replace_all_tokens [OF _ that])
       (simp add: anchor_caps_def capture_def cap_def)
  show ?thesis
    using 2 [OF tok_code_ok [OF assms(2,1)]]
    unfolding renderFormatted_def 1 by (simp add: tok_render_def)
qed

text \<open>Induction over the tokens as the rewriting walks them.\<close>

lemma tok_pairs_induct [case_names nil plain skip hit]:
  assumes "P []"
    and "\<And>s ts. P ts \<Longrightarrow> P (T s # ts)"
    and "\<And>g ts. P ts \<Longrightarrow> \<not> is_open g \<or> upto_close close ts = None \<Longrightarrow> P (G g # ts)"
    and "\<And>g inner rest. P rest \<Longrightarrow> is_open g \<Longrightarrow> upto_close close (inner @ G close # rest) = Some (inner, rest) \<Longrightarrow>
           P (G g # inner @ G close # rest)"
  shows "P ts"
proof (induction "length ts" arbitrary: ts rule: less_induct)
  case less
  show ?case
  proof (cases ts)
    case (Cons t ts')
    show ?thesis
    proof (cases t)
      case (G g)
      show ?thesis
      proof (cases "is_open g \<and> upto_close close ts' \<noteq> None")
        case True
        then obtain inner rest where x: "upto_close close ts' = Some (inner, rest)" by auto
        from upto_close_eq [OF x] have "ts' = inner @ G close # rest" by simp
        with assms(4) [of rest g inner] less Cons True x G show ?thesis by auto
      next
        case False
        then have "\<not> is_open g \<or> upto_close close ts' = None" by blast
        with assms(3) [of ts' g] less Cons G show ?thesis by simp
      qed
    qed (use assms(2) less Cons in auto)
  qed (use assms(1) in simp)
qed

lemma tok_pairs_skip:
  "\<not> is_open g \<or> upto_close close ts = None \<Longrightarrow> tok_pairs is_open close f (G g # ts) = G g # tok_pairs is_open close f ts"
  by (auto split: option.splits)

lemma tok_pairs_hit:
  "is_open g \<Longrightarrow> upto_close close ts = Some (inner, rest) \<Longrightarrow>
   tok_pairs is_open close f (G g # ts) = f g inner @ tok_pairs is_open close f rest"
  by auto

lemma anchors_ok_cong:
  "(\<And>b. anchors_ok b ys = anchors_ok b zs) \<Longrightarrow> anchors_ok b (xs @ ys) = anchors_ok b (xs @ zs)"
  by (induction b xs rule: anchors_ok.induct) auto

lemma tok_code_kept:
  "tok_texts (tok_code col ts) = tok_texts ts \<and> tok_hrefs (tok_code col ts) = tok_hrefs ts
   \<and> (\<forall>b. anchors_ok b (tok_code col ts) = anchors_ok b ts)"
  unfolding tok_code_def
proof (induction ts rule: tok_pairs_induct [where is_open = "(=) (lit ''code'')" and close = "lit ''/code''"])
  case (hit g inner rest)
  have tags: "\<not> starts_with a_open g" "g \<noteq> lit ''/a''" "\<not> starts_with a_open (lit ''/code'')"
    "lit ''/code'' \<noteq> lit ''/a''" "\<not> starts_with a_open (font_tag col)" "font_tag col \<noteq> lit ''/a''"
    "\<not> starts_with a_open (lit ''/font'')" "lit ''/font'' \<noteq> lit ''/a''"
    using hit(2) [symmetric] by (simp_all add: a_open_eq font_tag_def str_simps)
  from hit(1) have "anchors_ok b (inner @ G (lit ''/font'') # tok_pairs ((=) (lit ''code'')) (lit ''/code'')
      (\<lambda>g inner. G (font_tag col) # inner @ [G (lit ''/font'')]) rest) = anchors_ok b (inner @ G (lit ''/code'') # rest)" for b
    by (intro anchors_ok_cong) (simp add: tags)
  with hit tags show ?case
    unfolding tok_pairs_hit [where is_open = "(=) (lit ''code'')", OF hit(2,3)] by simp
next
  case (skip g ts)
  then show ?case by (simp add: tok_pairs_skip del: tok_pairs.simps)
qed simp_all

lemma tok_links_text: "tok_texts (tok_links ts) = tok_texts ts"
  unfolding tok_links_def
proof (induction ts rule: tok_pairs_induct [where is_open = "starts_with a_open" and close = "lit ''/a''"])
  case (hit g inner rest)
  then show ?case unfolding tok_pairs_hit [where is_open = "starts_with a_open", OF hit(2,3)] by simp
qed (simp_all add: tok_pairs_skip del: tok_pairs.simps(3))

lemma tok_links_internal:
  "anchors_ok False ts \<Longrightarrow> tok_hrefs (tok_links ts) = filter internal_href (tok_hrefs ts)"
  unfolding tok_links_def
proof (induction ts rule: tok_pairs_induct [where is_open = "starts_with a_open" and close = "lit ''/a''"])
  case (skip g ts)
  then have "\<not> starts_with a_open g" using anchors_ok_close by fastforce
  with skip show ?case by (auto simp: tok_pairs_skip simp del: tok_pairs.simps split: if_splits)
next
  case (hit g inner rest)
  then have "anchors_ok True (inner @ G (lit ''/a'') # rest)" by simp
  from anchors_ok_close [OF this] hit(3) have "tok_hrefs inner = []" "anchors_ok False rest" by auto
  moreover have "\<not> starts_with a_open (lit ''/a'')" by (simp add: a_open_eq str_simps)
  ultimately show ?case
    using hit(1,2) unfolding tok_pairs_hit [where is_open = "starts_with a_open", OF hit(2,3)] by simp
qed simp_all

lemma tok_render_kept: "tok_texts (tok_render ts click col) = tok_texts ts"
  by (simp add: tok_render_def tok_links_text tok_code_kept)

lemma tok_render_hrefs:
  "anchors_ok False ts \<Longrightarrow>
   tok_hrefs (tok_render ts click col) = filter (\<lambda>h. click \<or> internal_href h) (tok_hrefs ts)"
  by (simp add: tok_render_def tok_links_internal tok_code_kept)

lemma tok_render_ok: "no_angle col \<Longrightarrow> toks_ok ts \<Longrightarrow> toks_ok (tok_render ts click col)"
  by (simp add: tok_render_def tok_code_ok tok_links_ok)

section \<open>Properties of the formatted body\<close>

text \<open>C21: On markup made of text and complete tags, the two regular-expression passes of
  \<open>renderFormatted\<close> compute the element-wise rewriting: every inline code element becomes a
  coloured font element, and with web links off an anchor that does not stay in the app gives way
  to its text.\<close>

theorem renderFormatted_refines:
  assumes "toks_ok ts" and "no_angle col"
  shows "renderFormatted (render ts) click col = render (tok_render ts click col)"
  by (rule renderFormatted_tokens [OF assms])

theorem renderFormatted_refines_witness:
  "renderFormatted (lit ''a<code>b</code>'') False (lit ''red'')
     = lit ''a<font color='' @ [34] @ lit ''red'' @ [34] @ lit ''>b</font>''"
proof -
  let ?ts = "[T (lit ''a''), G (lit ''code''), T (lit ''b''), G (lit ''/code'')]"
  have r: "render ?ts = lit ''a<code>b</code>''" by (simp add: str_simps)
  have "toks_ok ?ts" "no_angle (lit ''red'')" by (simp_all add: str_simps a_open_eq)
  from renderFormatted_refines [OF this, of False] show ?thesis
    unfolding r by (simp add: tok_render_def tok_code_def tok_links_def font_tag_def str_simps a_open_eq)
qed

text \<open>With web links off, the addresses left in a formatted body are exactly those of its
  anchors that stay in the app; with web links on all of them remain.  Either way the text a
  reader sees is the text of the core's markup.\<close>

theorem renderFormatted_anchors:
  assumes "toks_ok ts" and "anchors_ok False ts" and "no_angle col"
  shows "hrefs (renderFormatted (render ts) click col)
      = filter (\<lambda>h. click \<or> internal_href h) (hrefs (render ts))
    \<and> strip_tags False (renderFormatted (render ts) click col) = strip_tags False (render ts)"
  using assms
  by (simp add: renderFormatted_tokens hrefs_render strip_render tok_render_ok tok_render_hrefs
      tok_render_kept)

theorem renderFormatted_anchors_witness:
  "hrefs (renderFormatted (render [G (a_tag (lit ''http://x.y'')), T (lit ''z''), G (lit ''/a'')])
     False (lit ''red'')) = []"
proof -
  let ?ts = "[G (a_tag (lit ''http://x.y'')), T (lit ''z''), G (lit ''/a'')]"
  have ok: "toks_ok ?ts" "anchors_ok False ?ts" "no_angle (lit ''red'')"
    by (simp_all add: a_tag_def a_open_eq str_simps)
  from ok(1) have "hrefs (render ?ts) = [lit ''http://x.y'']"
    by (simp add: hrefs_render del: render_simps) (simp add: a_tag_def a_open_eq str_simps)
  moreover have "\<not> internal_href (lit ''http://x.y'')" by code_simp
  ultimately show ?thesis using renderFormatted_anchors [OF ok, of False] by simp
qed

text \<open>The test for anchors that may stay is more generous than the app's own reading of a
  link: a permalink with a capital letter in its host keeps its anchor with web links off, and the
  tap on it goes to the browser.\<close>

theorem internal_href_divergence:
  "internal_href (lit ''https://Matrix.to/#/#room:example.org'')
   \<and> lt_kind (decide (lit ''https://Matrix.to/#/#room:example.org'')) = KWeb"
  by code_simp

section \<open>Emoji as pictures\<close>

lemma sequences_clean: "h \<in> set sequences \<Longrightarrow> no_angle h \<and> h \<noteq> []"
proof -
  have "list_all (\<lambda>g. list_all (\<lambda>s. list_all (\<lambda>c. c \<noteq> 60 \<and> c \<noteq> 62) s \<and> s \<noteq> []) (items g)) emoji_groups"
    by (simp add: emoji_groups_def emoji_group_defs)
  then have "list_all (\<lambda>s. list_all (\<lambda>c. c \<noteq> 60 \<and> c \<noteq> 62) s \<and> s \<noteq> []) sequences"
    by (simp add: sequences_def list_all_iff)
  then show "h \<in> set sequences \<Longrightarrow> no_angle h \<and> h \<noteq> []"
    by (auto simp: list_all_iff no_angle_def)
qed

lemma longest_hit_known: "longest_hit known n s \<noteq> [] \<Longrightarrow> longest_hit known n s \<in> set known"
  by (induction known n s rule: longest_hit.induct) auto

text \<open>Text with some known sequences replaced by picture tags.\<close>

definition img_body :: "str \<Rightarrow> str \<Rightarrow> str" where
  "img_body picture pixels = lit ''img src='' @ [34] @ picture @ [34] @ lit '' width='' @ [34] @ pixels @ [34]
     @ lit '' height='' @ [34] @ pixels @ [34]"

lemma img_tag_body: "img_tag picture pixels = render1 (G (img_body picture pixels))"
  by (simp add: img_tag_def img_body_def str_simps)

inductive pictured :: "(str \<Rightarrow> str) \<Rightarrow> str \<Rightarrow> str \<Rightarrow> tok list \<Rightarrow> bool" for source pixels where
  pic_nil: "pictured source pixels [] []"
| pic_text: "pictured source pixels s ts \<Longrightarrow> pictured source pixels (x @ s) (T x # ts)"
| pic_image: "h \<in> set sequences \<Longrightarrow> source h \<noteq> [] \<Longrightarrow> pictured source pixels s ts \<Longrightarrow>
    pictured source pixels (h @ s) (G (img_body (source h) pixels) # ts)"

lemma pictured_kept:
  assumes "\<And>h. no_angle (source h)" and "no_angle pixels"
  shows "pictured source pixels s ts \<Longrightarrow> no_angle s \<Longrightarrow>
    toks_ok ts \<and> tok_hrefs ts = [] \<and> subseq (tok_texts ts) s"
proof (induction rule: pictured.induct)
  case (pic_image h s ts)
  have "no_angle (img_body (source h) pixels)" "\<not> starts_with a_open (img_body (source h) pixels)"
    using assms by (simp_all add: img_body_def a_open_eq str_simps)
  moreover have "subseq (tok_texts ts) (h @ s)" using pic_image by (simp add: subseq_drop_many)
  ultimately show ?case using pic_image by simp
next
  case (pic_text s ts x)
  then show ?case by (simp add: list_emb_append_mono)
qed auto

text \<open>Inside a tag everything is copied.\<close>

lemma emoji_in_tag:
  "no_angle g \<Longrightarrow> emoji_loop known most pixels source True (g @ 62 # s)
     = (case emoji_loop known most pixels source False s of (out, r) \<Rightarrow> (g @ 62 # out, r))"
  by (induction g) (auto split: prod.splits)

lemma emoji_tag:
  "no_angle g \<Longrightarrow> emoji_loop known most pixels source False (render1 (G g) @ s)
     = (case emoji_loop known most pixels source False s of (out, r) \<Rightarrow> (render1 (G g) @ out, r))"
  by (simp add: emoji_in_tag split: prod.splits)

lemma hit_inside:
  assumes "starts_with h (x @ rest)" and "60 \<notin> set h" and "rest = [] \<or> hd rest = 60"
  shows "\<exists>y. x = h @ y"
proof -
  from assms(1) obtain w where "x @ rest = h @ w" by (auto simp: starts_with_iff)
  then obtain y where "x = h @ y \<or> h = x @ y \<and> rest = y @ w"
    by (auto simp: append_eq_append_conv2)
  with assms(2,3) show ?thesis by (cases y) auto
qed

lemma emoji_text:
  assumes "no_angle x" and "rest = [] \<or> hd rest = 60"
  shows "\<exists>ts. pictured source pixels x ts \<and>
    (case emoji_loop sequences longest pixels source False rest of (out, r) \<Rightarrow>
       \<exists>r'. emoji_loop sequences longest pixels source False (x @ rest) = (render ts @ out, r'))"
  using assms(1)
proof (induction "length x" arbitrary: x rule: less_induct)
  case less
  obtain out r where o: "emoji_loop sequences longest pixels source False rest = (out, r)" by fastforce
  show ?case
  proof (cases x)
    case Nil
    with o show ?thesis by (intro exI [of _ "[]"]) (simp add: pic_nil)
  next
    case (Cons c x')
    with less.prems have c: "c \<noteq> 60" "c \<noteq> 62" and x': "no_angle x'" by auto
    let ?hit = "longest_hit sequences (min longest (length (c # x' @ rest))) (c # x' @ rest)"
    show ?thesis
    proof (cases "c < 0x203C \<or> ?hit = []")
      case True
      from less.hyps [of x'] x' Cons obtain ts r' where "pictured source pixels x' ts"
        and l: "emoji_loop sequences longest pixels source False (x' @ rest) = (render ts @ out, r')"
        by (auto simp: o)
      then have "pictured source pixels ([c] @ x') (T [c] # ts)" by (intro pic_text)
      with True c l show ?thesis by (intro exI [of _ "T [c] # ts"]) (auto simp: o Cons Let_def)
    next
      case False
      then have hit: "?hit \<in> set sequences" using longest_hit_known by blast
      then have "60 \<notin> set ?hit" "?hit \<noteq> []" using sequences_clean by (auto simp: no_angle_def)
      moreover have "starts_with ?hit (x @ rest)" using longest_hit_prefix Cons by simp
      ultimately obtain y where y: "x = ?hit @ y" using hit_inside assms(2) by blast
      with less.prems have "no_angle y" "length y < length x" using \<open>?hit \<noteq> []\<close>
        by (metis no_angle_simps(3), metis length_append length_greater_0_conv less_add_same_cancel2)
      from less.hyps [OF this(2,1)] obtain ts r' where p: "pictured source pixels y ts"
        and l: "emoji_loop sequences longest pixels source False (y @ rest) = (render ts @ out, r')"
        by (auto simp: o)
      have d: "drop (length ?hit) (c # x' @ rest) = y @ rest"
        using y Cons by (metis append.assoc append_Cons append_eq_conv_conj)
      show ?thesis
      proof (cases "source ?hit = []")
        case True
        from p have "pictured source pixels (?hit @ y) (T ?hit # ts)" by (rule pic_text)
        with y have "pictured source pixels x (T ?hit # ts)" by simp
        with True False c d l show ?thesis
          by (intro exI [of _ "T ?hit # ts"]) (simp add: o Cons Let_def)
      next
        case nonempty: False
        from pic_image [OF hit nonempty p] y
        have "pictured source pixels x (G (img_body (source ?hit) pixels) # ts)" by simp
        with nonempty False c d l show ?thesis
          by (intro exI [of _ "G (img_body (source ?hit) pixels) # ts"])
             (simp add: o Cons Let_def img_tag_body, blast)
      qed
    qed
  qed
qed

text \<open>The whole loop over text and tags.\<close>

lemma emoji_render:
  assumes "\<And>h. no_angle (source h)" and "no_angle pixels"
  shows "toks_ok ts \<Longrightarrow> \<exists>us r. emoji_loop sequences longest pixels source False (render ts) = (render us, r)
     \<and> toks_ok us \<and> tok_hrefs us = tok_hrefs ts \<and> subseq (tok_texts us) (tok_texts ts)"
proof (induction "length ts" arbitrary: ts rule: less_induct)
  case less
  show ?case
  proof (cases ts)
    case Nil
    then show ?thesis by (intro exI [of _ "[]"] exI [of _ False]) simp
  next
    case (Cons t ts')
    have "length ts' < length ts" "toks_ok ts'" using less.prems Cons by simp_all
    from less.hyps [OF this] obtain us r where us:
      "emoji_loop sequences longest pixels source False (render ts') = (render us, r)" "toks_ok us"
      "tok_hrefs us = tok_hrefs ts'" "subseq (tok_texts us) (tok_texts ts')" by blast
    show ?thesis
    proof (cases t)
      case (G g)
      with less.prems Cons have "no_angle g" by simp
      from emoji_tag [OF this, where source = source and pixels = pixels and s = "render ts'"] us less.prems
      show ?thesis by (intro exI [of _ "G g # us"]) (simp add: Cons G)
    next
      case (T x)
      show ?thesis
      proof (cases "ts' = [] \<or> (\<exists>g. hd ts' = G g)")
        case True
        then have hd: "render ts' = [] \<or> hd (render ts') = 60" by (cases ts') auto
        from less.prems Cons T have x: "no_angle x" by simp
        from emoji_text [OF x hd, where source = source and pixels = pixels] obtain vs r' where vs: "pictured source pixels x vs"
          "emoji_loop sequences longest pixels source False (x @ render ts') = (render vs @ render us, r')"
          by (auto simp: us(1))
        from pictured_kept [OF assms vs(1) x] us vs(2) show ?thesis
          by (intro exI [of _ "vs @ us"]) (simp add: Cons T list_emb_append_mono)
      next
        case False
        then obtain y ts'' where ts': "ts' = T y # ts''" by (cases ts') (auto, metis tok.exhaust)
        have "length (T (x @ y) # ts'') < length ts" "toks_ok (T (x @ y) # ts'')"
          using less.prems Cons T ts' by simp_all
        from less.hyps [OF this] show ?thesis by (simp add: Cons T ts')
      qed
    qed
  qed
qed

text \<open>Nothing is replaced where no known sequence has a picture.\<close>

lemma emoji_unchanged:
  assumes "\<And>h. h \<in> set sequences \<Longrightarrow> contains h s \<Longrightarrow> source h = []"
  shows "\<not> snd (emoji_loop sequences longest pixels source b s)"
  using assms
proof (induction "length s" arbitrary: s b rule: less_induct)
  case less
  show ?case
  proof (cases s)
    case (Cons c s')
    let ?hit = "longest_hit sequences (min longest (length (c # s'))) (c # s')"
    have "contains h s" if "contains h (drop n s)" for h n
      using that by (metis append.assoc append_take_drop_id contains_iff)
    then have IH: "0 < n \<Longrightarrow> \<not> snd (emoji_loop sequences longest pixels source b' (drop n s))" for n b'
      by (intro less.hyps) (use Cons less.prems in auto)
    have "source ?hit = []" if "?hit \<noteq> []"
    proof (rule less.prems)
      show "?hit \<in> set sequences" using longest_hit_known [OF that] .
      show "contains ?hit s" using longest_hit_prefix [of sequences _ "c # s'"] Cons
        by (metis append_Nil contains_iff starts_with_iff)
    qed
    with IH [of 1] IH [of "length ?hit"] show ?thesis
      by (auto simp: Cons Let_def split: prod.splits) (fastforce dest: arg_cong [where f = snd])+
  qed simp
qed

text \<open>Pictures never touch the markup: whatever the picture provider returns (as long as it
  contains no angle bracket), every anchor keeps its address, and the text a reader sees only loses
  the characters that became pictures.\<close>

theorem withEmojiPictures_markup:
  assumes "toks_ok ts" and "\<And>h. no_angle (source h)" and "no_angle pixels"
  shows "hrefs (withEmojiPictures (render ts) pixels source) = hrefs (render ts)
    \<and> subseq (strip_tags False (withEmojiPictures (render ts) pixels source)) (strip_tags False (render ts))"
proof -
  from emoji_render [where source = source, OF assms(2,3,1)] obtain us r where
    "emoji_loop sequences longest pixels source False (render ts) = (render us, r)"
    "toks_ok us" "tok_hrefs us = tok_hrefs ts" "subseq (tok_texts us) (tok_texts ts)" by blast
  then have "render ts \<noteq> [] \<Longrightarrow> ?thesis"
    using assms(1) by (simp add: withEmojiPictures_def hrefs_render strip_render)
  moreover have "render ts = [] \<Longrightarrow> ?thesis" by (simp add: withEmojiPictures_def)
  ultimately show ?thesis by blast
qed

theorem withEmojiPictures_markup_witness:
  "hrefs (withEmojiPictures (render [G (a_tag (lit ''http://x.y'')), T [9995], G (lit ''/a'')]) (lit ''20'')
     (\<lambda>_. lit ''image://emoji/1'')) = hrefs (render [G (a_tag (lit ''http://x.y'')), T [9995], G (lit ''/a'')])"
proof -
  have "toks_ok [G (a_tag (lit ''http://x.y'')), T [9995], G (lit ''/a'')]" "no_angle (lit ''20'')"
    "no_angle (lit ''image://emoji/1'')" by (simp_all add: a_tag_def a_open_eq str_simps)
  from withEmojiPictures_markup [OF this(1) this(3,2)] show ?thesis by blast
qed

text \<open>A row pays for the markup renderer only if it shows a picture: where no known sequence
  with a picture occurs in the text, the result is the text itself.\<close>

theorem withEmojiPictures_unchanged:
  assumes "\<And>h. h \<in> set sequences \<Longrightarrow> contains h s \<Longrightarrow> source h = []"
  shows "withEmojiPictures s pixels source = s"
proof -
  from emoji_unchanged [where source = source and s = s and pixels = pixels and b = False] assms
  have "\<not> snd (emoji_loop sequences longest pixels source False s)" by blast
  then show ?thesis by (auto simp: withEmojiPictures_def split: prod.splits)
qed

theorem withEmojiPictures_unchanged_witness:
  "withEmojiPictures (lit ''abc'') (lit ''20'') (\<lambda>_. []) = lit ''abc''"
  by (rule withEmojiPictures_unchanged) simp

text \<open>The entries below the gate, group by group.\<close>

definition below_gate :: "str list" where
  "below_gate = [[169, 65039], [174, 65039], [35, 65039, 8419], [42, 65039, 8419]]
     @ map (\<lambda>d. [d, 65039, 8419]) [48, 49, 50, 51, 52, 53, 54, 55, 56, 57]"

lemma missed_groups:
  "filter (\<lambda>h. hd h < 0x203C) (items emoji_group_1) = []" "filter (\<lambda>h. hd h < 0x203C) (items emoji_group_2) = []"
  "filter (\<lambda>h. hd h < 0x203C) (items emoji_group_3) = []" "filter (\<lambda>h. hd h < 0x203C) (items emoji_group_4) = []"
  "filter (\<lambda>h. hd h < 0x203C) (items emoji_group_5) = []" "filter (\<lambda>h. hd h < 0x203C) (items emoji_group_6) = []"
  "filter (\<lambda>h. hd h < 0x203C) (items emoji_group_7) = []" "filter (\<lambda>h. hd h < 0x203C) (items emoji_group_8) = []"
  "filter (\<lambda>h. hd h < 0x203C) (items emoji_group_9) = below_gate"
  "filter (\<lambda>h. hd h < 0x203C) (items emoji_group_10) = []"
  by code_simp+

lemma no_hit:
  assumes "\<And>h. h \<in> set known \<Longrightarrow> hd h \<noteq> c"
  shows "longest_hit known n (c # t) = []"
proof (rule ccontr)
  let ?h = "longest_hit known n (c # t)"
  assume ne: "?h \<noteq> []"
  moreover have "hd ?h = c" using ne longest_hit_prefix [of known n "c # t"]
    by (cases ?h) (auto simp: starts_with_iff)
  ultimately show False using longest_hit_known assms by blast
qed

lemma no_start: "h \<in> set sequences \<Longrightarrow> h \<noteq> [] \<and> hd h \<noteq> 65039 \<and> hd h \<noteq> 8419"
proof -
  have "list_all (\<lambda>g. list_all (\<lambda>h. h \<noteq> [] \<and> hd h \<noteq> 65039 \<and> hd h \<noteq> 8419) (items g)) emoji_groups"
    by (simp add: emoji_groups_def emoji_group_defs)
  then show "h \<in> set sequences \<Longrightarrow> h \<noteq> [] \<and> hd h \<noteq> 65039 \<and> hd h \<noteq> 8419"
    by (auto simp: sequences_def list_all_iff)
qed

text \<open>The gate for ordinary characters shuts out fourteen entries of the dictionary - the
  copyright and registered signs and the keycaps, which start below U+203C: no provider can make
  a picture of them.\<close>

theorem emoji_gate_misses:
  "length (filter (\<lambda>h. hd h < 0x203C) sequences) = 14
   \<and> list_all (\<lambda>h. withEmojiPictures h pixels source = h) (filter (\<lambda>h. hd h < 0x203C) sequences)"
proof -
  have f: "filter (\<lambda>h. hd h < 0x203C) sequences = below_gate"
    by (simp add: sequences_def emoji_groups_def filter_concat missed_groups)
  have miss: "longest_hit sequences n (65039 # t) = []" "longest_hit sequences n (8419 # t) = []" for n t
    using no_start by (auto intro!: no_hit)
  show ?thesis unfolding f
    by (simp add: below_gate_def withEmojiPictures_def miss Let_def)
qed

end
