(* ===== verification/Message_Row.thy ===== *)
theory Message_Row
  imports Linking Rendering
begin

text \<open>
  What a row of the timeline draws: \<open>rich\<close> and \<open>rowText\<close> of \<open>MessageBody.js\<close>, put together from
  the linker and the renderer.  The linker's markup is a sequence of tokens, so the guarantees of
  both apply to the composition.
\<close>

lemma no_quote_tag: "no_angle h \<Longrightarrow> 34 \<notin> set h \<Longrightarrow> tok_ok (G (a_tag h)) \<and> tok_ok (G (lit ''/a''))"
  by (simp add: tok_ok_a_tag del: tok_ok.simps) (simp add: a_open_eq str_simps)

text \<open>Linked text, as tokens.\<close>

lemma linked_tokens:
  "linked_as good_href s out \<Longrightarrow> no_angle s \<Longrightarrow>
   \<exists>ts. out = render ts \<and> toks_ok ts \<and> tok_texts ts = s \<and> list_all good_href (tok_hrefs ts)"
proof (induction rule: linked_as.induct)
  case linked_nil
  show ?case by (intro exI [of _ "[]"]) simp
next
  case (linked_char s out c)
  then obtain ts where "out = render ts \<and> toks_ok ts \<and> tok_texts ts = s \<and> list_all good_href (tok_hrefs ts)"
    by auto
  with linked_char.prems show ?case by (intro exI [of _ "T [c] # ts"]) simp
next
  case (linked_anchor href s out x)
  then obtain ts where ts: "out = render ts" "toks_ok ts" "tok_texts ts = s" "list_all good_href (tok_hrefs ts)"
    by auto
  have "no_angle href" "34 \<notin> set href" using good_href_clean [OF linked_anchor.hyps(1)] by auto
  then have ok: "tok_ok (G (a_tag href))" "tok_ok (G (lit ''/a''))" using no_quote_tag by auto
  have "anchor href x = render [G (a_tag href), T x, G (lit ''/a'')]"
    by (simp add: anchor_def a_tag_def a_open_def str_simps)
  moreover have "starts_with a_open (a_tag href)" "\<not> starts_with a_open (lit ''/a'')"
    by (simp_all add: a_tag_def) (simp add: a_open_eq str_simps)
  ultimately show ?case
    using ts ok linked_anchor.hyps(1) linked_anchor.prems
    by (intro exI [of _ "G (a_tag href) # T x # G (lit ''/a'') # ts"]) (simp del: tok_ok.simps(2))
qed

text \<open>Pictures over tokens, for every base a plain body can have.\<close>

lemma plain_base:
  "\<exists>ts. linkify body click = render ts \<and> toks_ok ts \<and> tok_texts ts = escapeText body
     \<and> list_all good_href (tok_hrefs ts)"
  using linked_tokens [OF linkify_linked escapeText_no_angle] by blast

lemma pictures_over:
  assumes "toks_ok ts" and "\<And>h. no_angle (source h)" and "no_angle px"
  shows "hrefs (withEmojiPictures (render ts) px source) = tok_hrefs ts
    \<and> subseq (strip_tags False (withEmojiPictures (render ts) px source)) (tok_texts ts)"
proof (cases "render ts = []")
  case True
  with assms(1) show ?thesis
    by (metis hrefs_render strip_render subseq_order.refl withEmojiPictures_def)
next
  case False
  from emoji_render [where source = source, OF assms(2,3,1)] obtain us r where
    "emoji_loop sequences longest px source False (render ts) = (render us, r)"
    "toks_ok us" "tok_hrefs us = tok_hrefs ts" "subseq (tok_texts us) (tok_texts ts)" by blast
  with assms(1) False show ?thesis by (simp add: withEmojiPictures_def hrefs_render strip_render)
qed

section \<open>Properties\<close>

text \<open>The markup a row makes of a plain body, with links and with pictures: a reader sees
  nothing but characters of the escaped body, in their order, and every anchor carries an address
  the linker vouches for.\<close>

theorem rich_plain:
  assumes "\<And>h. no_angle (source h)" and "no_angle px"
  shows "subseq (strip_tags False (rich body [] settings col px source)) (escapeText body)
    \<and> list_all good_href (hrefs (rich body [] settings col px source))"
proof -
  from plain_base [of body "clickableLinks settings"] obtain ts where
    ts: "linkify body (clickableLinks settings) = render ts" "toks_ok ts" "tok_texts ts = escapeText body"
      "list_all good_href (tok_hrefs ts)" by blast
  have esc: "escapeText body = render [T (escapeText body)]" "toks_ok [T (escapeText body)]"
    by (simp_all add: escapeText_no_angle)
  note pic = pictures_over [OF ts(2) assms] pictures_over [OF esc(2) assms]
  have e: "hrefs (withEmojiPictures (escapeText body) px source) = []"
    "subseq (strip_tags False (withEmojiPictures (escapeText body) px source)) (escapeText body)"
    using pic(2) by (simp_all add: esc(1) [symmetric])
  show ?thesis
    using ts pic(1) e
    by (auto simp: rich_def Let_def hrefs_render strip_render)
qed

theorem rich_plain_witness:
  "list_all good_href (hrefs (rich (lit ''hi @a:b'') [] \<lparr>clickableLinks = False, emojiImages = True\<rparr>
     (lit ''red'') (lit ''20'') (\<lambda>_. lit ''image://x'')))"
proof -
  have "no_angle (lit ''image://x'')" "no_angle (lit ''20'')" by (simp_all add: str_simps)
  from rich_plain [OF this] show ?thesis by blast
qed

text \<open>A file row that is drawn as text never lets the file's name act as markup: where the
  caption is markup, the name is shown as it is, escaped, in front of it.\<close>

theorem rowText_file_name:
  assumes "media row" and "\<not> drawn row" and "\<not> image row" and "row_body row \<noteq> []"
    and "caption row \<noteq> []" and "row_rich row \<noteq> []"
    and "row_kind row \<noteq> lit ''undecryptable''" and "row_kind row \<noteq> lit ''redacted''"
  shows "\<exists>name. rowText tr row = name @ lit ''<br>'' @ row_rich row
    \<and> unescape (strip_tags False name) = [0xD83D, 0xDCCE, 32] @ row_body row"
  using assms
  by (auto simp: rowText_def escapeText_escaped text_escape.escaped_shown Let_def)

theorem rowText_file_name_witness:
  "\<exists>name. rowText (\<lambda>_ s. s) \<lparr>row_kind = lit ''file'', utdCause = [], row_body = lit ''<b>.pdf'',
      caption = lit ''c'', media = True, image = False, drawn = False, row_rich = lit ''<i>c</i>''\<rparr>
      = name @ lit ''<br>'' @ lit ''<i>c</i>''
    \<and> unescape (strip_tags False name) = [0xD83D, 0xDCCE, 32] @ lit ''<b>.pdf''"
  using rowText_file_name [of "\<lparr>row_kind = lit ''file'', utdCause = [], row_body = lit ''<b>.pdf'',
      caption = lit ''c'', media = True, image = False, drawn = False, row_rich = lit ''<i>c</i>''\<rparr>" "\<lambda>_ s. s"]
  by (simp add: str_simps)

end
