(* ===== verification/Security_Status.thy ===== *)
theory Security_Status
  imports Prelude
begin

text \<open>
  \<open>src/qml/pages/SecurityStatus.js\<close>: how safe the device is, as four levels and their sum.  The
  bridge hands over two maps whose entries may be missing, so an entry is a JavaScript value with
  \<open>undefined\<close> and \<open>null\<close> told apart; a map that is not there is \<open>None\<close>.
\<close>

section \<open>The state\<close>

datatype jsval = Undefined | Null | JBool bool | JStr str

primrec truthy :: "jsval \<Rightarrow> bool" where
  "truthy Undefined = False"
| "truthy Null = False"
| "truthy (JBool b) = b"
| "truthy (JStr s) = (s \<noteq> [])"

record encryption_status =
  es_recovery :: jsval
  es_backupEnabled :: jsval
  es_backup :: jsval
  es_backupOnServer :: jsval
  es_crossSigned :: jsval

record storage_status =
  ss_encrypted :: jsval
  ss_keyAvailable :: jsval

record matrix =
  encryptionStatus :: "encryption_status option"
  storageStatus :: "storage_status option"

datatype level = GREEN | ORANGE | RED | UNKNOWN

text \<open>The order of the comments: green is in order, orange a fault, red something missing; what
  has not been answered is above them all, for it allows no statement.\<close>

primrec severity :: "level \<Rightarrow> nat" where
  "severity GREEN = 0"
| "severity ORANGE = 1"
| "severity RED = 2"
| "severity UNKNOWN = 3"

instantiation level :: linorder
begin

definition less_eq_level :: "level \<Rightarrow> level \<Rightarrow> bool" where
  "less_eq_level a b \<longleftrightarrow> severity a \<le> severity b"

definition less_level :: "level \<Rightarrow> level \<Rightarrow> bool" where
  "less_level a b \<longleftrightarrow> severity a < severity b"

instance
proof
  fix a b :: level
  show "a \<le> b \<Longrightarrow> b \<le> a \<Longrightarrow> a = b"
    by (cases a; cases b) (simp_all add: less_eq_level_def)
qed (auto simp: less_eq_level_def less_level_def)

end

section \<open>The levels\<close>

definition known :: "matrix \<Rightarrow> bool" where
  "known m \<longleftrightarrow>
     (case encryptionStatus m of None \<Rightarrow> False | Some s \<Rightarrow> es_recovery s \<noteq> Undefined)
     \<and> (case storageStatus m of None \<Rightarrow> False | Some s \<Rightarrow> ss_encrypted s \<noteq> Undefined)"

definition backupLevel :: "matrix \<Rightarrow> level" where
  "backupLevel m =
     (case encryptionStatus m of None \<Rightarrow> UNKNOWN
      | Some s \<Rightarrow>
          if es_recovery s = Undefined then UNKNOWN
          else if truthy (es_backupEnabled s) then GREEN
          else if es_backup s = JStr (lit ''resuming'') \<or> es_backup s = JStr (lit ''enabling'')
               \<or> es_backup s = JStr (lit ''creating'') \<or> es_backup s = JStr (lit ''downloading'')
            then UNKNOWN
          else if es_backupOnServer s = Undefined \<or> es_backupOnServer s = Null then UNKNOWN
          else if truthy (es_backupOnServer s) then ORANGE else RED)"

definition recoveryLevel :: "matrix \<Rightarrow> level" where
  "recoveryLevel m =
     (case encryptionStatus m of None \<Rightarrow> UNKNOWN
      | Some s \<Rightarrow>
          if es_recovery s = Undefined then UNKNOWN
          else if es_recovery s = JStr (lit ''enabled'') then GREEN
          else if es_recovery s = JStr (lit ''disabled'') then RED
          else if es_recovery s = JStr (lit ''unknown'') then UNKNOWN
          else ORANGE)"

definition crossSigningLevel :: "matrix \<Rightarrow> level" where
  "crossSigningLevel m =
     (case encryptionStatus m of None \<Rightarrow> UNKNOWN
      | Some s \<Rightarrow>
          if es_recovery s = Undefined then UNKNOWN
          else if es_crossSigned s = Undefined \<or> es_crossSigned s = Null then UNKNOWN
          else if truthy (es_crossSigned s) then GREEN else ORANGE)"

definition storageLevel :: "matrix \<Rightarrow> level" where
  "storageLevel m =
     (case storageStatus m of None \<Rightarrow> UNKNOWN
      | Some s \<Rightarrow>
          if ss_encrypted s = Undefined then UNKNOWN
          else if truthy (ss_encrypted s) then GREEN
          else if truthy (ss_keyAvailable s) then ORANGE else RED)"

text \<open>The \<open>for\<close> loop of \<open>overall\<close> with its two early returns.\<close>

fun overall_loop :: "level \<Rightarrow> level list \<Rightarrow> level" where
  "overall_loop worst [] = worst"
| "overall_loop worst (l # ls) =
     (if l = UNKNOWN then UNKNOWN
      else if l = RED then RED
      else overall_loop (if l = ORANGE then ORANGE else worst) ls)"

definition levels :: "matrix \<Rightarrow> level list" where
  "levels m = [backupLevel m, recoveryLevel m, crossSigningLevel m, storageLevel m]"

definition overall :: "matrix \<Rightarrow> level" where
  "overall m = overall_loop GREEN (levels m)"

definition actionable :: "level \<Rightarrow> bool" where
  "actionable l \<longleftrightarrow> l = ORANGE \<or> l = RED"

definition needsAttention :: "matrix \<Rightarrow> bool" where
  "needsAttention m \<longleftrightarrow> overall m = ORANGE \<or> overall m = RED"

text \<open>The colour of a level; \<open>errorColor\<close> and \<open>secondaryColor\<close> come from the theme.\<close>

record theme =
  errorColor :: str
  secondaryColor :: str

definition color :: "level \<Rightarrow> theme \<Rightarrow> bool \<Rightarrow> str" where
  "color l th lightOnDark =
     (case l of
        GREEN \<Rightarrow> if lightOnDark then lit ''#4cd964'' else lit ''#1b7f3b''
      | ORANGE \<Rightarrow> if lightOnDark then lit ''#ff9f0a'' else lit ''#a85c00''
      | RED \<Rightarrow> errorColor th
      | UNKNOWN \<Rightarrow> secondaryColor th)"

section \<open>Lemmas\<close>

lemma overall_loop_eq:
  "worst \<in> {GREEN, ORANGE} \<Longrightarrow> overall_loop worst ls =
     (case find (\<lambda>l. l \<in> {UNKNOWN, RED}) ls of Some l \<Rightarrow> l | None \<Rightarrow> Max (insert worst (set ls)))"
proof (induction ls arbitrary: worst)
  case (Cons l ls)
  show ?case
  proof (cases "l \<in> {UNKNOWN, RED}")
    case False
    then have w: "max worst l \<in> {GREEN, ORANGE}" "overall_loop worst (l # ls) = overall_loop (max worst l) ls"
      using Cons.prems by (cases l; auto simp: max_def less_eq_level_def)+
    have "Max (insert worst (set (l # ls))) = Max (insert (max worst l) (set ls))"
      by (cases "ls = []") (simp_all add: max.assoc)
    with Cons.IH [OF w(1)] w(2) False show ?thesis by (auto split: option.splits simp del: Max_insert)
  qed auto
qed simp

lemma green_unknown: "GREEN \<le> (l :: level)" "l \<le> UNKNOWN"
  by (cases l; simp add: less_eq_level_def)+

section \<open>Properties\<close>

text \<open>The overall level is the worst of the four - except that the first unanswered or red
  one decides alone, in the order backup, recovery, cross signing, storage.\<close>

theorem overall_eq:
  "overall m = (case find (\<lambda>l. l \<in> {UNKNOWN, RED}) (levels m) of
                  Some l \<Rightarrow> l | None \<Rightarrow> Max (set (levels m)))"
proof -
  have "Max (insert GREEN (set (levels m))) = Max (set (levels m))"
    by (simp add: levels_def green_unknown max_def)
  then show ?thesis by (simp add: overall_def overall_loop_eq split: option.split)
qed

text \<open>No false green: the device counts as in order exactly if the key backup runs, recovery is
  enabled, the device is cross-signed and the storage is encrypted - each of them answered.\<close>

theorem overall_green_iff:
  "overall m = GREEN \<longleftrightarrow>
     (\<exists>e s. encryptionStatus m = Some e \<and> storageStatus m = Some s
        \<and> truthy (es_backupEnabled e) \<and> es_recovery e = JStr (lit ''enabled'')
        \<and> truthy (es_crossSigned e) \<and> truthy (ss_encrypted s))"
proof -
  have "overall m = GREEN \<longleftrightarrow> (\<forall>l\<in>set (levels m). l = GREEN)"
    by (cases "backupLevel m"; cases "recoveryLevel m"; cases "crossSigningLevel m"; cases "storageLevel m")
       (simp_all add: overall_def levels_def)
  also have "\<dots> \<longleftrightarrow> backupLevel m = GREEN \<and> recoveryLevel m = GREEN \<and> crossSigningLevel m = GREEN
      \<and> storageLevel m = GREEN"
    by (simp add: levels_def)
  also have "\<dots> \<longleftrightarrow> (\<exists>e s. encryptionStatus m = Some e \<and> storageStatus m = Some s
        \<and> truthy (es_backupEnabled e) \<and> es_recovery e = JStr (lit ''enabled'')
        \<and> truthy (es_crossSigned e) \<and> truthy (ss_encrypted s))"
    by (auto simp: backupLevel_def recoveryLevel_def crossSigningLevel_def storageLevel_def
        split: option.splits if_splits)
  finally show ?thesis .
qed

text \<open>A passing state interrupts nobody: as long as the state of the encryption has not
  arrived, or the backup is on its way in, no attention is asked for - whatever the storage says.\<close>

theorem attention_waits:
  assumes "encryptionStatus m = None \<or> encryptionStatus m = Some e \<and>
    (es_recovery e = Undefined
     \<or> \<not> truthy (es_backupEnabled e) \<and> es_backup e = JStr (lit ''resuming''))"
  shows "\<not> needsAttention m"
proof -
  from assms have "backupLevel m = UNKNOWN" by (auto simp: backupLevel_def)
  then show ?thesis by (simp add: needsAttention_def overall_def levels_def)
qed

theorem attention_waits_witness:
  "\<not> needsAttention \<lparr>encryptionStatus = None, storageStatus = Some \<lparr>ss_encrypted = JBool False,
      ss_keyAvailable = JBool False\<rparr>\<rparr>"
  by (rule attention_waits) simp

text \<open>The sum of the levels is not the worst of the four: a device without any recovery (red)
  counts as unanswered while its backup resumes, but a red backup hides an unanswered storage.\<close>

theorem overall_order_dependent:
  "overall \<lparr>encryptionStatus = Some \<lparr>es_recovery = JStr (lit ''disabled''), es_backupEnabled = JBool False,
       es_backup = JStr (lit ''resuming''), es_backupOnServer = Null, es_crossSigned = JBool True\<rparr>,
     storageStatus = Some \<lparr>ss_encrypted = JBool True, ss_keyAvailable = JBool True\<rparr>\<rparr> = UNKNOWN
   \<and> recoveryLevel \<lparr>encryptionStatus = Some \<lparr>es_recovery = JStr (lit ''disabled''), es_backupEnabled = JBool False,
       es_backup = JStr (lit ''resuming''), es_backupOnServer = Null, es_crossSigned = JBool True\<rparr>,
     storageStatus = Some \<lparr>ss_encrypted = JBool True, ss_keyAvailable = JBool True\<rparr>\<rparr> = RED
   \<and> overall \<lparr>encryptionStatus = Some \<lparr>es_recovery = JStr (lit ''enabled''), es_backupEnabled = JBool False,
       es_backup = JStr (lit ''disabled''), es_backupOnServer = JBool False, es_crossSigned = JBool True\<rparr>,
     storageStatus = None\<rparr> = RED"
  by code_simp

end
