(* ===== verification/Link_Marks.thy ===== *)
theory Link_Marks
  imports Complex_Main Prelude
begin

text \<open>
  \<open>src/qml/pages/LinkMarks.js\<close>: which link is under the finger, and where it runs.  Qt's text
  item is a parameter: its size and the two functions \<open>linkAt\<close> and \<open>mapFromItem\<close>.  Coordinates
  are rationals, so the rounding of JavaScript numbers is left out; the loops are the code's, and
  each is shown to end.
\<close>

section \<open>The label\<close>

record label =
  visible :: bool
  label_width :: rat
  label_height :: rat
  contentHeight :: rat
  lineCount :: int
  link_at :: "rat \<Rightarrow> rat \<Rightarrow> str"
  mapFromItem :: "rat \<Rightarrow> rat \<Rightarrow> rat \<times> rat"

definition step :: rat where
  "step = 3"

definition linkAt :: "label \<Rightarrow> rat \<Rightarrow> rat \<Rightarrow> str" where
  "linkAt label x y =
     (if \<not> visible label then []
      else (let (px, py) = mapFromItem label x y
            in if px < 0 \<or> py < 0 \<or> px > label_width label \<or> py > label_height label then []
               else link_at label px py))"

section \<open>The sweep\<close>

record mark =
  mark_x :: rat
  mark_y :: rat
  mark_width :: rat
  mark_height :: rat

text \<open>The two inner loops, over an arbitrary test of a point of the line.\<close>

function sweep_left :: "(rat \<Rightarrow> bool) \<Rightarrow> rat \<Rightarrow> rat" where
  "sweep_left hit left =
     (if left - step \<ge> 0 \<and> hit (left - step) then sweep_left hit (left - step) else left)"
  by pat_completeness auto
termination
  by (relation "measure (\<lambda>(hit, left). nat \<lfloor>left\<rfloor>)") (auto simp: step_def le_floor_iff)

function sweep_right :: "rat \<Rightarrow> (rat \<Rightarrow> bool) \<Rightarrow> rat \<Rightarrow> rat" where
  "sweep_right width hit right =
     (if right + step \<le> width \<and> hit (right + step) then sweep_right width hit (right + step) else right)"
  by pat_completeness auto
termination
proof (relation "measure (\<lambda>(width, hit, right). nat \<lfloor>width - right\<rfloor>)")
  fix width right :: rat and hit :: "rat \<Rightarrow> bool"
  assume a: "right + step \<le> width \<and> hit (right + step)"
  have "\<lfloor>width - right\<rfloor> = \<lfloor>width - (right + step)\<rfloor> + 3"
    using floor_add_int [of "width - (right + step)" 3] by (simp add: step_def)
  moreover have "0 \<le> \<lfloor>width - (right + step)\<rfloor>"
    unfolding zero_le_floor using a by linarith
  ultimately show "((width, hit, right + step), width, hit, right)
      \<in> measure (\<lambda>(width, hit, right). nat \<lfloor>width - right\<rfloor>)" by (simp del: zero_le_floor)
qed simp

text \<open>From the right edge to the last point that carries any link.\<close>

function last_linked :: "(rat \<Rightarrow> str) \<Rightarrow> rat \<Rightarrow> rat" where
  "last_linked link_of endx = (if endx \<ge> 0 \<and> link_of endx = [] then last_linked link_of (endx - step) else endx)"
  by pat_completeness auto
termination
proof (relation "measure (\<lambda>(link_of, endx). nat (\<lfloor>endx\<rfloor> + 1))")
  fix endx :: rat and link_of :: "rat \<Rightarrow> str"
  assume a: "endx \<ge> 0 \<and> link_of endx = []"
  have "\<lfloor>endx - step\<rfloor> = \<lfloor>endx\<rfloor> - 3" by (simp add: step_def)
  moreover have "0 \<le> \<lfloor>endx\<rfloor>" using a by simp
  ultimately show "((link_of, endx - step), link_of, endx) \<in> measure (\<lambda>(link_of, endx). nat (\<lfloor>endx\<rfloor> + 1))" by simp
qed simp

declare sweep_left.simps [simp del] sweep_right.simps [simp del] last_linked.simps [simp del]

definition line_height :: "label \<Rightarrow> rat" where
  "line_height label = contentHeight label / of_int (max 1 (lineCount label))"

definition line_hit :: "label \<Rightarrow> str \<Rightarrow> int \<Rightarrow> rat \<Rightarrow> bool" where
  "line_hit label link line px =
     (link_at label px ((of_int line + 1 / 2) * line_height label) = link)"

definition mark_of :: "label \<Rightarrow> int \<Rightarrow> rat \<Rightarrow> rat \<Rightarrow> mark" where
  "mark_of label line left right =
     \<lparr>mark_x = left - step, mark_y = of_int line * line_height label,
      mark_width = right - left + 2 * step, mark_height = line_height label\<rparr>"

text \<open>Upwards: the run starts the line, so the line above ends with it.\<close>

function upwards :: "label \<Rightarrow> str \<Rightarrow> int \<Rightarrow> rat \<Rightarrow> mark list" where
  "upwards label link line start =
     (if start < step \<and> line > 0
      then (let endx = last_linked (\<lambda>px. link_at label px ((of_int line - 1 / 2) * line_height label))
                         (label_width label)
            in if endx < 0 \<or> \<not> line_hit label link (line - 1) endx then []
               else (let start' = sweep_left (line_hit label link (line - 1)) endx
                     in mark_of label (line - 1) start' endx # upwards label link (line - 1) start'))
      else [])"
  by pat_completeness auto
termination
  by (relation "measure (\<lambda>(label, link, line, start). nat line)") auto

text \<open>Downwards: the next line starts with it.\<close>

function downwards :: "label \<Rightarrow> str \<Rightarrow> int \<Rightarrow> mark list" where
  "downwards label link line =
     (if line + 1 < max 1 (lineCount label) \<and> line_hit label link (line + 1) 0
      then (let endx = sweep_right (label_width label) (line_hit label link (line + 1)) 0
            in mark_of label (line + 1) 0 endx
               # (if endx + step \<le> label_width label then [] else downwards label link (line + 1)))
      else [])"
  by pat_completeness auto
termination
  by (relation "measure (\<lambda>(label, link, line). nat (max 1 (lineCount label) - line))") auto

declare upwards.simps [simp del] downwards.simps [simp del]

definition sweep :: "label \<Rightarrow> str \<Rightarrow> rat \<Rightarrow> rat \<Rightarrow> mark list" where
  "sweep label link x y =
     (let lines = max 1 (lineCount label);
          (px, py) = mapFromItem label x y;
          held = min (lines - 1) \<lfloor>py / line_height label\<rfloor>;
          left = sweep_left (line_hit label link held) px;
          right = sweep_right (label_width label) (line_hit label link held) px
      in mark_of label held left right # upwards label link held left @ downwards label link held)"

section \<open>Lemmas\<close>

lemma sweep_left_props:
  "sweep_left hit left \<le> left \<and> (0 \<le> left \<longrightarrow> 0 \<le> sweep_left hit left)
   \<and> (sweep_left hit left = left \<or> hit (sweep_left hit left))"
proof (induction hit left rule: sweep_left.induct)
  case (1 hit left)
  show ?case
    using 1 by (subst (1 2 3 4) sweep_left.simps) (auto simp: step_def)
qed

lemma sweep_right_props:
  "right \<le> sweep_right width hit right \<and> (right \<le> width \<longrightarrow> sweep_right width hit right \<le> width)
   \<and> (sweep_right width hit right = right \<or> hit (sweep_right width hit right))"
proof (induction width hit right rule: sweep_right.induct)
  case (1 width hit right)
  show ?case
    using 1 by (subst (1 2 3 4) sweep_right.simps) (auto simp: step_def)
qed

lemma last_linked_le: "last_linked link_of endx \<le> endx"
proof (induction link_of endx rule: last_linked.induct)
  case (1 link_of endx)
  then show ?case by (subst last_linked.simps) (auto simp: step_def)
qed

text \<open>A mark the sweep may make: one line of the text, both ends on the link, at most one step
  beyond the label.\<close>

definition mark_ok :: "label \<Rightarrow> str \<Rightarrow> mark \<Rightarrow> bool" where
  "mark_ok label link m \<longleftrightarrow>
     (\<exists>line left right. m = mark_of label line left right \<and> 0 \<le> line \<and> line < max 1 (lineCount label)
        \<and> 0 \<le> left \<and> left \<le> right \<and> right \<le> label_width label
        \<and> line_hit label link line left \<and> line_hit label link line right)"

lemma mark_okI:
  "0 \<le> line \<Longrightarrow> line < max 1 (lineCount label) \<Longrightarrow> 0 \<le> left \<Longrightarrow> left \<le> right \<Longrightarrow>
   right \<le> label_width label \<Longrightarrow> line_hit label link line left \<Longrightarrow> line_hit label link line right \<Longrightarrow>
   mark_ok label link (mark_of label line left right)"
  unfolding mark_ok_def by blast

lemma upwards_ok:
  assumes "0 \<le> label_width label"
  shows "line < max 1 (lineCount label) \<Longrightarrow> list_all (mark_ok label link) (upwards label link line start)"
proof (induction label link line start rule: upwards.induct)
  case (1 label link line start)
  let ?stop = "last_linked (\<lambda>px. link_at label px ((of_int line - 1 / 2) * line_height label)) (label_width label)"
  let ?start = "sweep_left (line_hit label link (line - 1)) ?stop"
  show ?case
  proof (cases "start < step \<and> line > 0 \<and> \<not> (?stop < 0 \<or> \<not> line_hit label link (line - 1) ?stop)")
    case True
    have "mark_ok label link (mark_of label (line - 1) ?start ?stop)"
      using True "1.prems" sweep_left_props [of "line_hit label link (line - 1)" ?stop]
        last_linked_le [of _ "label_width label"]
      by (intro mark_okI) auto
    moreover have "list_all (mark_ok label link) (upwards label link (line - 1) ?start)"
      using True "1.prems" by (intro "1.IH") auto
    ultimately show ?thesis by (subst upwards.simps) (simp add: Let_def)
  qed (subst upwards.simps, auto simp: Let_def)
qed

lemma downwards_ok:
  "0 \<le> label_width label \<Longrightarrow> 0 \<le> line + 1 \<Longrightarrow> list_all (mark_ok label link) (downwards label link line)"
proof (induction label link line rule: downwards.induct)
  case (1 label link line)
  let ?stop = "sweep_right (label_width label) (line_hit label link (line + 1)) 0"
  show ?case
  proof (cases "line + 1 < max 1 (lineCount label) \<and> line_hit label link (line + 1) 0")
    case True
    have "mark_ok label link (mark_of label (line + 1) 0 ?stop)"
      using True "1.prems"
        sweep_right_props [of 0 "label_width label" "line_hit label link (line + 1)"]
      by (intro mark_okI) auto
    moreover have "\<not> ?stop + step \<le> label_width label \<Longrightarrow>
        list_all (mark_ok label link) (downwards label link (line + 1))"
      using True "1.prems" by (intro "1.IH") auto
    ultimately show ?thesis by (subst downwards.simps) (simp add: Let_def True)
  qed (subst downwards.simps, auto)
qed

lemma mark_ok_bounds:
  assumes "mark_ok label link m"
  shows "- step \<le> mark_x m \<and> mark_x m + mark_width m \<le> label_width label + step
      \<and> mark_height m = line_height label
      \<and> (\<exists>line. 0 \<le> line \<and> line < max 1 (lineCount label) \<and> mark_y m = of_int line * line_height label
           \<and> line_hit label link line (mark_x m + step)
           \<and> line_hit label link line (mark_x m + mark_width m - step))"
proof -
  from assms obtain line left right where m: "m = mark_of label line left right"
    and line: "0 \<le> line" "line < max 1 (lineCount label)"
    and b: "0 \<le> left" "left \<le> right" "right \<le> label_width label"
    and hits: "line_hit label link line left" "line_hit label link line right"
    unfolding mark_ok_def by blast
  have left: "mark_x m + step = left" and right: "mark_x m + mark_width m - step = right"
    and y: "mark_y m = of_int line * line_height label" and h: "mark_height m = line_height label"
    by (simp_all add: m mark_of_def)
  have "line_hit label link line (mark_x m + step)" "line_hit label link line (mark_x m + mark_width m - step)"
    using hits by (simp_all only: left right)
  moreover have "- step \<le> mark_x m" using left b(1) by linarith
  moreover have "mark_x m + mark_width m \<le> label_width label + step" using right b(3) by linarith
  ultimately show ?thesis using line y h by blast
qed

section \<open>Properties\<close>

text \<open>The marks of a held link stay on the link and on the label: pressed inside the label on
  the link's line, every mark covers one line of the text, lies within one step of the label, and both
  its ends are points of the very link that is held.  (The sweep itself always ends: its loops are
  total functions.)\<close>

theorem sweep_marks:
  assumes "mapFromItem label x y = (px, py)" and "0 \<le> px" "px \<le> label_width label" "0 \<le> py"
    and "0 < contentHeight label"
    and "line_hit label link (min (max 1 (lineCount label) - 1) \<lfloor>py / line_height label\<rfloor>) px"
  shows "list_all (\<lambda>m. - step \<le> mark_x m \<and> mark_x m + mark_width m \<le> label_width label + step
      \<and> mark_height m = line_height label
      \<and> (\<exists>line. 0 \<le> line \<and> line < max 1 (lineCount label) \<and> mark_y m = of_int line * line_height label
           \<and> line_hit label link line (mark_x m + step)
           \<and> line_hit label link line (mark_x m + mark_width m - step)))
     (sweep label link x y)"
proof -
  let ?held = "min (max 1 (lineCount label) - 1) \<lfloor>py / line_height label\<rfloor>"
  let ?hit = "line_hit label link ?held"
  have lh: "0 < line_height label" using assms(5) by (simp add: line_height_def)
  then have held: "0 \<le> ?held" "?held < max 1 (lineCount label)" using assms(4) by auto
  have w: "0 \<le> label_width label" using assms(2,3) by simp
  have "mark_ok label link (mark_of label ?held (sweep_left ?hit px) (sweep_right (label_width label) ?hit px))"
  proof (rule mark_okI [OF held])
    note l = sweep_left_props [of ?hit px] and r = sweep_right_props [of px "label_width label" ?hit]
    show "0 \<le> sweep_left ?hit px" using l assms(2) by blast
    show "sweep_left ?hit px \<le> sweep_right (label_width label) ?hit px" using l r by linarith
    show "sweep_right (label_width label) ?hit px \<le> label_width label" using r assms(3) by blast
    show "line_hit label link ?held (sweep_left ?hit px)" using l assms(6) by metis
    show "line_hit label link ?held (sweep_right (label_width label) ?hit px)" using r assms(6) by metis
  qed
  then have all: "list_all (mark_ok label link) (sweep label link x y)"
    using upwards_ok [OF w held(2)] downwards_ok [OF w, of ?held] held(1)
    by (simp add: sweep_def assms(1) Let_def)
  show ?thesis
    by (rule list.pred_mono_strong [OF all]) (rule mark_ok_bounds)
qed

theorem sweep_marks_witness:
  "list_all (\<lambda>m. - step \<le> mark_x m \<and> mark_x m + mark_width m \<le> 30 + step) (sweep
      \<lparr>visible = True, label_width = 30, label_height = 20, contentHeight = 20, lineCount = 2,
       link_at = (\<lambda>px py. if (py < 10 \<and> 20 \<le> px) \<or> (10 < py \<and> px \<le> 9) then lit ''u'' else []),
       mapFromItem = Pair\<rparr> (lit ''u'') 25 5)"
proof -
  let ?l = "\<lparr>visible = True, label_width = 30, label_height = 20, contentHeight = 20, lineCount = 2,
       link_at = (\<lambda>px py. if (py < 10 \<and> 20 \<le> px) \<or> (10 < py \<and> px \<le> 9) then lit ''u'' else []),
       mapFromItem = Pair\<rparr>"
  have half: "\<lfloor>1 / 2 :: rat\<rfloor> = 0" by (simp add: floor_eq_iff)
  have "list_all (\<lambda>m. - step \<le> mark_x m \<and> mark_x m + mark_width m \<le> label_width ?l + step
      \<and> mark_height m = line_height ?l
      \<and> (\<exists>line. 0 \<le> line \<and> line < max 1 (lineCount ?l) \<and> mark_y m = of_int line * line_height ?l
           \<and> line_hit ?l (lit ''u'') line (mark_x m + step)
           \<and> line_hit ?l (lit ''u'') line (mark_x m + mark_width m - step))) (sweep ?l (lit ''u'') 25 5)"
    by (rule sweep_marks [where px = 25 and py = 5]) (simp_all add: line_hit_def line_height_def str_simps half)
  then show ?thesis by (rule list.pred_mono_strong) simp
qed

end
