(* ===== verification/Small_Pages.thy ===== *)
theory Small_Pages
  imports Js_Regex
begin

text \<open>
  The three one-function files of \<open>src/qml/pages\<close>: \<open>Strings.js\<close> (placeholders filled in one
  pass), \<open>Preview.js\<close> (the last event of a room in one line) and \<open>Composing.js\<close> (recipients whose
  devices stand in the way of sending).  \<open>qsTr\<close>, its \<open>arg\<close> and the bridge's \<open>recipientTrusted\<close> are
  parameters.
\<close>

section \<open>\<open>Strings.js\<close>\<close>

text \<open>\<open>/%([1-9])/g\<close>\<close>

definition nonzero_digit :: "nat \<Rightarrow> bool" where
  "nonzero_digit c \<longleftrightarrow> 49 \<le> c \<and> c \<le> 57"

definition placeholder_re :: re where
  "placeholder_re = Seq (Chr ((=) 37)) (Grp 1 (Chr nonzero_digit))"

definition fill :: "str \<Rightarrow> str list \<Rightarrow> str" where
  "fill template vals =
     replace_all placeholder_re (\<lambda>_ whole cs.
        let index = (case cap 1 cs of Some (d # _) \<Rightarrow> d - 49 | _ \<Rightarrow> 0)
        in if index < length vals then vals ! index else whole) template"

text \<open>What filling means, read from left to right.\<close>

fun fill_spec :: "str \<Rightarrow> str list \<Rightarrow> str" where
  "fill_spec [] vals = []"
| "fill_spec [c] vals = [c]"
| "fill_spec (c # d # s) vals =
     (if c = 37 \<and> nonzero_digit d
      then (if d - 49 < length vals then vals ! (d - 49) else [c, d]) @ fill_spec s vals
      else c # fill_spec (d # s) vals)"

lemma ms_placeholder:
  "ms placeholder_re (i, s, []) =
     (case s of c # d # t \<Rightarrow> if c = 37 \<and> nonzero_digit d then [(Suc (Suc i), t, [(1, [d])])] else []
      | _ \<Rightarrow> [])"
  by (auto simp: placeholder_re_def split: list.split)

lemma wf_placeholder [simp]: "wf_re placeholder_re"
  by (simp add: placeholder_re_def)

lemma fill_from:
  "replace_from placeholder_re (\<lambda>_ whole cs.
        let index = (case cap 1 cs of Some (d # _) \<Rightarrow> d - 49 | _ \<Rightarrow> 0)
        in if index < length vals then vals ! index else whole) i template
   = fill_spec template vals"
proof (induction template vals arbitrary: i rule: fill_spec.induct)
  case (1 vals)
  show ?case by (simp add: replace_from_Nil ms_placeholder)
next
  case (2 c vals)
  show ?case by (simp add: replace_from_skip replace_from_Nil ms_placeholder)
next
  case (3 c d s vals)
  show ?case
  proof (cases "c = 37 \<and> nonzero_digit d")
    case True
    then have m: "ms placeholder_re (i, c # d # s, []) = (Suc (Suc i), s, [(1, [d])]) # []"
      by (simp add: ms_placeholder)
    show ?thesis
      using replace_from_hit [OF m] 3(1) [OF True] True by (simp add: cap_def)
  next
    case False
    then have "ms placeholder_re (i, c # d # s, []) = []" by (auto simp: ms_placeholder)
    with 3(2) [OF False] False show ?thesis by (auto simp: replace_from_skip)
  qed
qed

lemma fill_spec_plain: "37 \<notin> set p \<Longrightarrow> fill_spec (p @ s) vals = p @ fill_spec s vals"
proof (induction p)
  case (Cons c p)
  then show ?case by (cases "p @ s") auto
qed simp

text \<open>A placeholder takes its value literally, once: filling a text with two placeholders puts
  both values in as they are, whatever they contain - a display name that reads \<open>%2\<close> is not filled
  again.\<close>

theorem fill_literal:
  assumes "37 \<notin> set a" and "37 \<notin> set b" and "37 \<notin> set c"
  shows "fill (a @ lit ''%1'' @ b @ lit ''%2'' @ c) [v, w] = a @ v @ b @ w @ c"
proof -
  have "fill_spec c vs = c" for vs using fill_spec_plain [OF assms(3), of "[]"] by simp
  then show ?thesis
    unfolding fill_def replace_all_def fill_from
    by (simp add: fill_spec_plain assms str_simps nonzero_digit_def)
qed

theorem fill_literal_witness:
  "fill (lit ''%1 invited %2'') [lit ''%2'', lit ''Bob''] = lit ''%2 invited Bob''"
  using fill_literal [of "[]" "lit '' invited ''" "[]" "lit ''%2''" "lit ''Bob''"]
  by (simp add: str_simps)

section \<open>\<open>Preview.js\<close>\<close>

definition line :: "(str \<Rightarrow> str) \<Rightarrow> (str \<Rightarrow> str \<Rightarrow> str) \<Rightarrow> str \<Rightarrow> str \<Rightarrow> str" where
  "line qsTr arg kind txt =
     (if kind = lit ''text'' then txt
      else if kind = lit ''emote'' then lit ''* '' @ txt
      else if kind = lit ''image'' then qsTr (lit ''Picture'')
      else if kind = lit ''video'' then qsTr (lit ''Video'')
      else if kind = lit ''audio'' then qsTr (lit ''Voice message'')
      else if kind = lit ''file'' then qsTr (lit ''File'')
      else if kind = lit ''location'' then qsTr (lit ''Location'')
      else if kind = lit ''poll'' then
        (if length txt > 0 then arg (qsTr (lit ''Poll: %1'')) txt else qsTr (lit ''Poll''))
      else if kind = lit ''encrypted'' then qsTr (lit ''Encrypted message'')
      else [])"

section \<open>\<open>Composing.js\<close>\<close>

text \<open>The loop with its \<open>push\<close>, over users as the bridge lists them.\<close>

record user =
  userId :: str

fun pendingUnverified :: "user list \<Rightarrow> (str \<Rightarrow> bool) \<Rightarrow> user list" where
  "pendingUnverified [] recipientTrusted = []"
| "pendingUnverified (u # us) recipientTrusted =
     (if \<not> recipientTrusted (userId u) then u # pendingUnverified us recipientTrusted
      else pendingUnverified us recipientTrusted)"

lemma pendingUnverified_filter:
  "pendingUnverified users trusted = filter (\<lambda>u. \<not> trusted (userId u)) users"
  by (induction users) auto

text \<open>Nothing stands in the way of sending exactly if every recipient is trusted.\<close>

lemma pendingUnverified_empty:
  "pendingUnverified users trusted = [] \<longleftrightarrow> (\<forall>u\<in>set users. trusted (userId u))"
  by (auto simp: pendingUnverified_filter filter_empty_conv)

end
