(* ===== verification/Session_Gate.thy ===== *)
theory Session_Gate
  imports Prelude
begin

text \<open>
  \<open>src/core/src/gate.rs\<close>: who may create, replace or drop the client.  The slot carries a
  generation and a phase; every assignment and every removal raises the generation, so whoever
  still holds an old one can tell that the client is not theirs any more.  The generation is a
  \<open>u64\<close> that only ever grows by one or two per sign-in or sign-out; it is a natural number here.
\<close>

datatype phase = Empty | Prelogin | LoggingIn | Session | Closing

record slot =
  generation :: nat
  phase :: phase

definition default_slot :: slot where
  "default_slot = \<lparr>generation = 0, phase = Empty\<rparr>"

text \<open>\<open>assigned\<close> returns the new generation beside the slot.\<close>

definition assigned :: "phase \<Rightarrow> slot \<Rightarrow> slot \<times> nat" where
  "assigned p s = (let s' = \<lparr>generation = generation s + 1, phase = p\<rparr> in (s', generation s'))"

definition closing :: "slot \<Rightarrow> slot" where
  "closing s = \<lparr>generation = generation s + 1, phase = Closing\<rparr>"

definition cleared :: "slot \<Rightarrow> slot" where
  "cleared s = \<lparr>generation = generation s + 1, phase = Empty\<rparr>"

definition advance :: "nat \<Rightarrow> phase \<Rightarrow> slot \<Rightarrow> slot \<times> bool" where
  "advance g p s =
     (if generation s \<noteq> g \<or> phase s = Empty then (s, False) else (s\<lparr>phase := p\<rparr>, True))"

definition holds :: "slot \<Rightarrow> nat \<Rightarrow> bool" where
  "holds s g \<longleftrightarrow> generation s = g \<and> phase s \<noteq> Empty"

datatype login_kind = Start | Password

datatype entry = Fresh | Reuse nat

datatype refusal = AlreadySignedIn | SignInRunning

definition login_entry :: "slot \<Rightarrow> login_kind \<Rightarrow> refusal + entry" where
  "login_entry s kind =
     (case (phase s, kind) of
        (Session, _) \<Rightarrow> Inl AlreadySignedIn
      | (LoggingIn, Password) \<Rightarrow> Inl SignInRunning
      | (Prelogin, Password) \<Rightarrow> Inr (Reuse (generation s))
      | _ \<Rightarrow> Inr Fresh)"

definition key_replaceable :: "slot \<Rightarrow> bool" where
  "key_replaceable s \<longleftrightarrow> phase s = Empty"

section \<open>Lemmas\<close>

named_theorems gate_defs \<open>the operations of the slot\<close>

declare assigned_def [gate_defs] closing_def [gate_defs] cleared_def [gate_defs]
  advance_def [gate_defs] holds_def [gate_defs] key_replaceable_def [gate_defs]

lemma advance_holds: "snd (advance g p s) \<longleftrightarrow> holds s g"
  by (auto simp: gate_defs)

lemma advance_stale: "\<not> holds s g \<Longrightarrow> advance g p s = (s, False)"
  by (auto simp: gate_defs)

lemma advance_keeps: "generation (fst (advance g p s)) = generation s"
  by (simp add: gate_defs)

lemma assigned_holds: "p \<noteq> Empty \<Longrightarrow> holds (fst (assigned p s)) (snd (assigned p s))"
  by (simp add: gate_defs Let_def)

text \<open>What a sign-in may do, by phase.\<close>

lemma login_entry_Session: "phase s = Session \<Longrightarrow> login_entry s kind = Inl AlreadySignedIn"
  by (simp add: login_entry_def)

lemma login_entry_Reuse:
  "login_entry s kind = Inr (Reuse g) \<longleftrightarrow> kind = Password \<and> phase s = Prelogin \<and> g = generation s"
  by (cases "phase s"; cases kind) (auto simp: login_entry_def)

lemma login_entry_Fresh:
  "login_entry s kind = Inr Fresh \<longleftrightarrow>
     (case kind of Start \<Rightarrow> phase s \<noteq> Session | Password \<Rightarrow> phase s \<in> {Empty, Closing})"
  by (cases "phase s"; cases kind) (auto simp: login_entry_def)

end
