(* ===== verification/Rust_Text.thy ===== *)
theory Rust_Text
  imports Prelude
begin

text \<open>
  The string functions of Rust's standard library that the core uses: \<open>trim\<close> and
  \<open>split_whitespace\<close>, number parsing and printing, \<open>replace\<close>, and the length of a string in bytes.
  A string is its list of Unicode scalar values.  Also the durations, in nanoseconds.
\<close>

section \<open>Bytes\<close>

definition utf8_bytes :: "nat \<Rightarrow> nat" where
  "utf8_bytes c = (if c < 0x80 then 1 else if c < 0x800 then 2 else if c < 0x10000 then 3 else 4)"

definition utf8_len :: "str \<Rightarrow> nat" where
  "utf8_len s = sum_list (map utf8_bytes s)"

lemma utf8_len_simps [simp]:
  "utf8_len [] = 0" "utf8_len (c # s) = utf8_bytes c + utf8_len s" "utf8_len (s @ t) = utf8_len s + utf8_len t"
  by (simp_all add: utf8_len_def)

lemma utf8_bytes_le: "1 \<le> utf8_bytes c" "utf8_bytes c \<le> 4"
  by (simp_all add: utf8_bytes_def)

lemma utf8_len_ge: "length s \<le> utf8_len s"
proof (induction s)
  case (Cons c s)
  then show ?case using utf8_bytes_le(1) [of c] by simp
qed simp

lemma utf8_len_le: "utf8_len s \<le> 4 * length s"
proof (induction s)
  case (Cons c s)
  then show ?case using utf8_bytes_le(2) [of c] by simp
qed simp

section \<open>White space\<close>

definition rust_space :: "nat \<Rightarrow> bool" where
  "rust_space c \<longleftrightarrow> (9 \<le> c \<and> c \<le> 13) \<or> c = 32 \<or> c = 0x85 \<or> c = 0xA0 \<or> c = 0x1680
     \<or> (0x2000 \<le> c \<and> c \<le> 0x200A) \<or> c = 0x2028 \<or> c = 0x2029 \<or> c = 0x202F \<or> c = 0x205F \<or> c = 0x3000"

definition trim :: "str \<Rightarrow> str" where
  "trim s = rev (dropWhile rust_space (rev (dropWhile rust_space s)))"

definition split_whitespace :: "str \<Rightarrow> str list" where
  "split_whitespace s = filter (\<lambda>w. w \<noteq> []) (split_on rust_space s)"

section \<open>Replacing\<close>

text \<open>\<open>str::replace\<close> for a pattern that is not empty.\<close>

function replace_str :: "str \<Rightarrow> str \<Rightarrow> str \<Rightarrow> str" where
  "replace_str p r [] = []"
| "replace_str p r (c # s) =
     (if p \<noteq> [] \<and> starts_with p (c # s) then r @ replace_str p r (drop (length p) (c # s))
      else c # replace_str p r s)"
  by pat_completeness auto
termination
  by (relation "measure (\<lambda>(p, r, s). length s)") auto

section \<open>Numbers\<close>

text \<open>\<open>str::parse\<close> for \<open>u32\<close> and \<open>u64\<close>: decimal digits with an optional plus sign, at most the type's
  greatest value.\<close>

definition u32_max :: nat where
  "u32_max = 4294967295"

definition u64_max :: nat where
  "u64_max = 18446744073709551615"

definition digits_value :: "str \<Rightarrow> nat" where
  "digits_value s = foldl (\<lambda>v d. 10 * v + (d - 48)) 0 s"

definition parse_uint :: "nat \<Rightarrow> str \<Rightarrow> nat option" where
  "parse_uint most s =
     (let ds = (case s of c # t \<Rightarrow> if c = 43 then t else s | [] \<Rightarrow> s)
      in if ds = [] \<or> \<not> list_all is_digit ds \<or> digits_value ds > most then None
         else Some (digits_value ds))"

text \<open>\<open>to_string\<close> of a number.\<close>

fun show_nat :: "nat \<Rightarrow> str" where
  "show_nat n = (if n < 10 then [48 + n] else show_nat (n div 10) @ [48 + n mod 10])"

declare show_nat.simps [simp del]

lemma digits_value_snoc: "digits_value (s @ [d]) = 10 * digits_value s + (d - 48)"
  by (simp add: digits_value_def)

lemma show_nat_digits: "list_all is_digit (show_nat n) \<and> show_nat n \<noteq> [] \<and> digits_value (show_nat n) = n"
proof (induction n rule: show_nat.induct)
  case (1 n)
  show ?case
  proof (cases "n < 10")
    case True
    then show ?thesis by (subst (1 2 3) show_nat.simps) (simp add: is_digit_def digits_value_def)
  next
    case False
    with 1 show ?thesis
      by (subst (1 2 3) show_nat.simps) (auto simp: is_digit_def list_all_iff digits_value_snoc)
  qed
qed

lemma digit_not_space: "is_digit c \<Longrightarrow> \<not> rust_space c \<and> c \<noteq> 43"
  by (auto simp: is_digit_def rust_space_def)

lemma trim_digits: "list_all is_digit s \<Longrightarrow> trim s = s"
proof -
  assume "list_all is_digit s"
  then have "dropWhile rust_space s = s" "dropWhile rust_space (rev s) = rev s"
    using digit_not_space
    by (auto simp: list_all_iff dropWhile_eq_self_iff hd_rev last_in_set simp del: last_rev)
  then show ?thesis by (simp add: trim_def)
qed

lemma parse_show: "n \<le> most \<Longrightarrow> parse_uint most (show_nat n) = Some n"
  using show_nat_digits [of n] digit_not_space
  by (cases "show_nat n") (auto simp: parse_uint_def)

lemma parse_bound: "parse_uint most s = Some n \<Longrightarrow> n \<le> most"
  by (auto simp: parse_uint_def Let_def split: if_splits list.splits)

lemma trim_show [simp]: "trim (show_nat n) = show_nat n"
  using trim_digits show_nat_digits by blast

lemma show_nat_inj: "show_nat m = show_nat n \<longleftrightarrow> m = n"
  using show_nat_digits by metis

section \<open>Durations\<close>

text \<open>\<open>Duration::from_secs\<close>.  Instants and durations are numbers of nanoseconds; an instant's
  \<open>elapsed\<close> is a difference that is cut off at zero, as the library does it.\<close>

definition secs :: "nat \<Rightarrow> nat" where
  "secs n = n * 1000000000"

end
