(* ===== verification/Session_Store.thy ===== *)
theory Session_Store
  imports Rust_Text
begin

text \<open>
  \<open>src/core/src/session.rs\<close>: the session file and the store directory.  A file is what reading and
  parsing it yields (\<open>serde_json\<close> and the file system are not part of the program); the store cipher
  of the SDK is a pair of parameters \<open>seal\<close> and \<open>unseal\<close>.  Every answer of the file system that the
  code tells apart is a value: a failed write is an argument of the operation.
\<close>

section \<open>What is on disk\<close>

type_synonym key = str

text \<open>\<open>StoredSession\<close>, by the API that owns it; the tokens are opaque.\<close>

datatype session_api = OAuth | Matrix

record stored_session =
  homeserver :: str
  homeserver_url :: "str option"
  api :: session_api
  tokens :: str

text \<open>
  \<open>session.json\<close>: missing; there but not readable; a session in the clear; an envelope around sealed
  bytes; or neither shape.
\<close>

datatype 'e session_file =
    Missing
  | Unreadable
  | Plain stored_session
  | Envelope 'e
  | Garbled

text \<open>What opening an envelope under a key can come to.\<close>

datatype unsealed = Opened stored_session | UnknownShape | NotOpened

text \<open>The store directory: absent, or a directory that can be listed or not, with its files by name and
  content.\<close>

record directory =
  listable :: bool
  files :: "(str \<times> str) list"

record 'e disk =
  session_file :: "'e session_file"
  store :: "directory option"

definition file_names :: "directory option \<Rightarrow> str list" where
  "file_names st = (case st of None \<Rightarrow> [] | Some d \<Rightarrow> map fst (files d))"

definition content :: "str \<Rightarrow> directory option \<Rightarrow> str option" where
  "content n st = (case st of None \<Rightarrow> None | Some d \<Rightarrow> map_of (files d) n)"

text \<open>\<open>std::fs::write\<close>: it can fail before the file is opened and after it was truncated; into a
  directory that is not there it always fails.\<close>

datatype write_outcome = Written | Untouched | Truncated

definition put_file :: "str \<Rightarrow> str \<Rightarrow> (str \<times> str) list \<Rightarrow> (str \<times> str) list" where
  "put_file n t fs = (n, t) # filter (\<lambda>(m, _). m \<noteq> n) fs"

definition write_file :: "write_outcome \<Rightarrow> str \<Rightarrow> str \<Rightarrow> directory option \<Rightarrow> directory option \<times> bool" where
  "write_file w n t st =
     (case st of None \<Rightarrow> (None, False)
      | Some d \<Rightarrow>
          (case w of
             Untouched \<Rightarrow> (Some d, False)
           | Truncated \<Rightarrow> (Some (d\<lparr>files := put_file n [] (files d)\<rparr>), False)
           | Written \<Rightarrow> (Some (d\<lparr>files := put_file n t (files d)\<rparr>), True)))"

definition remove_file :: "str \<Rightarrow> directory option \<Rightarrow> directory option" where
  "remove_file n st = map_option (\<lambda>d. d\<lparr>files := filter (\<lambda>(m, _). m \<noteq> n) (files d)\<rparr>) st"

definition created :: "directory option \<Rightarrow> directory option" where
  "created st = (case st of None \<Rightarrow> Some \<lparr>listable = True, files = []\<rparr> | Some d \<Rightarrow> Some d)"

text \<open>\<open>Paths::prepare\<close> makes the store directory first and two others after it.\<close>

datatype prepare_outcome = Prepared | StoreOnly | NothingMade

definition prepare :: "prepare_outcome \<Rightarrow> directory option \<Rightarrow> directory option \<times> bool" where
  "prepare p st =
     (case p of Prepared \<Rightarrow> (created st, True) | StoreOnly \<Rightarrow> (created st, False)
      | NothingMade \<Rightarrow> (st, False))"

definition marker :: str where
  "marker = lit ''.encrypted''"

definition store_marked_encrypted :: "directory option \<Rightarrow> bool" where
  "store_marked_encrypted st \<longleftrightarrow> marker \<in> set (file_names st)"

section \<open>The store key in base64\<close>

text \<open>\<open>decode_key\<close>: any other length than 32 bytes is no key; \<open>base64\<close> is a parameter, a key its bytes.\<close>

definition decode_key :: "(str \<Rightarrow> str option) \<Rightarrow> str \<Rightarrow> key option" where
  "decode_key base64 encoded =
     (case base64 (trim encoded) of None \<Rightarrow> None
      | Some bytes \<Rightarrow> if length bytes = 32 then Some bytes else None)"

section \<open>Storage state\<close>

record storage_state =
  store_encrypted :: bool
  session_present :: bool
  session_encrypted :: bool
  key_available :: bool

definition fully_encrypted :: "storage_state \<Rightarrow> bool" where
  "fully_encrypted s \<longleftrightarrow> store_encrypted s \<and> (\<not> session_present s \<or> session_encrypted s)"

definition storage_state :: "'e disk \<Rightarrow> key option \<Rightarrow> storage_state" where
  "storage_state d k =
     (let (present, encrypted) =
        (case session_file d of
           Missing \<Rightarrow> (False, False)
         | Unreadable \<Rightarrow> (True, False)
         | Envelope _ \<Rightarrow> (True, True)
         | _ \<Rightarrow> (True, False))
      in \<lparr>store_encrypted = store_marked_encrypted (store d), session_present = present,
          session_encrypted = encrypted, key_available = (k \<noteq> None)\<rparr>)"

section \<open>Opening the store\<close>

datatype build_failure = Refused str | StoreFailure str | Unreachable str

text \<open>
  \<open>store_plan\<close>: open under the key, open an existing plaintext store (\<open>None\<close>), or refuse.  The
  arguments are the answers of \<open>create_dir_all\<close> and of the write of the marker.
\<close>

definition fresh_store :: "directory option \<Rightarrow> bool" where
  "fresh_store st = (case st of None \<Rightarrow> True | Some d \<Rightarrow> listable d \<and> files d = [])"

definition store_plan ::
  "bool \<Rightarrow> write_outcome \<Rightarrow> directory option \<Rightarrow> key option \<Rightarrow> (str + key option) \<times> directory option" where
  "store_plan mkdir_ok mark st k =
     (if store_marked_encrypted st then
        (case k of None \<Rightarrow> (Inl (lit ''the local store is encrypted and its key is not available''), st)
         | Some key \<Rightarrow> (Inr (Some key), st))
      else if \<not> fresh_store st then (Inr None, st)
      else (case k of
              None \<Rightarrow> (Inl (lit ''no store key: the local store is not created unencrypted''), st)
            | Some key \<Rightarrow>
                if \<not> mkdir_ok then (Inl (lit ''the store directory could not be created''), st)
                else (case write_file mark marker (lit ''xmatic store key v1'' @ [10]) (created st) of
                        (st, False) \<Rightarrow> (Inl (lit ''the store could not be marked as encrypted''), st)
                      | (st, True) \<Rightarrow> (Inr (Some key), st))))"

section \<open>The session file\<close>

datatype load_outcome = LNone | LSession stored_session | LLocked | LNewer

definition load :: "(key \<Rightarrow> 'e \<Rightarrow> unsealed) \<Rightarrow> 'e session_file \<Rightarrow> key option \<Rightarrow> load_outcome" where
  "load unseal f k =
     (case f of
        Missing \<Rightarrow> LNone
      | Unreadable \<Rightarrow> LLocked
      | Plain s \<Rightarrow> LSession s
      | Garbled \<Rightarrow> LLocked
      | Envelope e \<Rightarrow>
          (case k of None \<Rightarrow> LLocked
           | Some key \<Rightarrow>
               (case unseal key e of
                  Opened s \<Rightarrow> LSession s
                | UnknownShape \<Rightarrow> LNewer
                | NotOpened \<Rightarrow> LLocked)))"

definition replaceable_without_key :: "'e session_file \<Rightarrow> bool" where
  "replaceable_without_key f =
     (case f of Missing \<Rightarrow> True | Unreadable \<Rightarrow> False | Envelope _ \<Rightarrow> False | _ \<Rightarrow> True)"

text \<open>\<open>store\<close> with \<open>write_private\<close>: the new file goes beside the old one and is renamed over it; a
  failure before the rename leaves the old file, one after it (the permissions) does not.  The flag
  is the result.\<close>

datatype rename_outcome = NotRenamed | Renamed bool

definition store_session ::
  "(key \<Rightarrow> stored_session \<Rightarrow> 'e option) \<Rightarrow> rename_outcome \<Rightarrow> stored_session \<Rightarrow> 'e session_file
    \<Rightarrow> key option \<Rightarrow> 'e session_file \<times> bool" where
  "store_session seal w s f k =
     (let written = (\<lambda>new. case w of NotRenamed \<Rightarrow> (f, False) | Renamed ok \<Rightarrow> (new, ok))
      in case k of
           Some key \<Rightarrow> (case seal key s of None \<Rightarrow> (f, False) | Some e \<Rightarrow> written (Envelope e))
         | None \<Rightarrow> if \<not> replaceable_without_key f then (f, False) else written (Plain s))"

text \<open>\<open>forget\<close> ignores a failed removal.\<close>

definition forget :: "bool \<Rightarrow> 'e disk \<Rightarrow> 'e disk" where
  "forget ok d = (if ok then d\<lparr>session_file := Missing\<rparr> else d)"

section \<open>Resetting and rebuilding\<close>

text \<open>How far \<open>reset_store\<close> gets: stopped inside the store directory with some files left (all of them
  where the directory cannot be listed), stopped after it, or all the way to \<open>prepare\<close>.\<close>

datatype reset_outcome = ResetLeft "str list" | ResetGone | ResetDone prepare_outcome

definition reset_store :: "reset_outcome \<Rightarrow> directory option \<Rightarrow> directory option \<times> bool" where
  "reset_store r st =
     (case r of
        ResetLeft ns \<Rightarrow>
          (map_option (\<lambda>d. if listable d then d\<lparr>files := filter (\<lambda>(n, _). n \<in> set ns) (files d)\<rparr> else d) st, False)
      | ResetGone \<Rightarrow> (None, False)
      | ResetDone p \<Rightarrow> prepare p None)"

definition sync_connection_file :: str where
  "sync_connection_file = lit ''.sync-connection''"

definition sync_epoch_file :: str where
  "sync_epoch_file = lit ''.sync-epoch''"

definition sync_epoch_now :: nat where
  "sync_epoch_now = 2"

definition number_in :: "str \<Rightarrow> directory option \<Rightarrow> nat" where
  "number_in n st =
     (case content n st of None \<Rightarrow> 1
      | Some t \<Rightarrow> (case parse_uint u32_max (trim t) of None \<Rightarrow> 1 | Some k \<Rightarrow> k))"

definition sync_generation :: "directory option \<Rightarrow> nat" where
  "sync_generation st = number_in sync_connection_file st"

definition sync_epoch :: "directory option \<Rightarrow> nat" where
  "sync_epoch st = number_in sync_epoch_file st"

definition sync_connection_id :: "directory option \<Rightarrow> str" where
  "sync_connection_id st =
     (let g = sync_generation st
      in if g = 1 then lit ''room-list'' else lit ''room-list-'' @ show_nat g)"

definition advance_sync_connection :: "write_outcome \<Rightarrow> directory option \<Rightarrow> directory option \<times> bool" where
  "advance_sync_connection w st =
     write_file w sync_connection_file (show_nat (min u32_max (sync_generation st + 1))) st"

text \<open>\<open>migrate_sync_connection\<close>: a store older than the epoch moves on once.\<close>

definition migrate_sync_connection ::
  "write_outcome \<Rightarrow> write_outcome \<Rightarrow> directory option \<Rightarrow> directory option \<times> bool" where
  "migrate_sync_connection w w' st =
     (let (st, ok) =
        (if sync_connection_file \<in> set (file_names st) then
           if sync_epoch st < sync_epoch_now then advance_sync_connection w st else (st, True)
         else
           let g = (if lit ''matrix-sdk-state.sqlite3'' \<in> set (file_names st) then 2 else 1)
           in write_file w sync_connection_file (show_nat g) st)
      in if ok then write_file w' sync_epoch_file (show_nat sync_epoch_now) st else (st, False))"

text \<open>The eight database files a rebuild drops, in its order.\<close>

definition rebuilt_files :: "str list" where
  "rebuilt_files =
     concat (map (\<lambda>d. map (\<lambda>s. d @ s) [[], lit ''-wal'', lit ''-shm'', lit ''-journal''])
       [lit ''matrix-sdk-state.sqlite3'', lit ''matrix-sdk-event-cache.sqlite3''])"

text \<open>How far \<open>rebuild_store\<close> gets: stopped before the n-th of them, at the search index, or on to
  \<open>prepare\<close> and the new connection.\<close>

datatype rebuild_outcome = RebuildLeft nat | RebuildIndex | RebuildDone prepare_outcome write_outcome

definition rebuild_files :: "rebuild_outcome \<Rightarrow> directory option \<Rightarrow> directory option \<times> bool" where
  "rebuild_files r st =
     (case r of
        RebuildLeft n \<Rightarrow> (fold remove_file (take n rebuilt_files) st, False)
      | RebuildIndex \<Rightarrow> (fold remove_file rebuilt_files st, False)
      | RebuildDone p w \<Rightarrow>
          (case prepare p (fold remove_file rebuilt_files st) of
             (st, False) \<Rightarrow> (st, False)
           | (st, True) \<Rightarrow> advance_sync_connection w st))"

section \<open>Lemmas\<close>

lemma load_None: "load unseal f k = LNone \<longleftrightarrow> f = Missing"
  by (auto simp: load_def split: session_file.splits option.splits unsealed.splits)

lemma store_session_keeps_envelope:
  "store_session seal w s (Envelope e) k = (f, ok) \<Longrightarrow> \<exists>e'. f = Envelope e'"
  by (auto simp: store_session_def Let_def replaceable_without_key_def split: option.splits if_splits rename_outcome.splits)

lemma store_session_not_missing: "store_session seal w s f k = (f', ok) \<Longrightarrow> f \<noteq> Missing \<Longrightarrow> f' \<noteq> Missing"
  by (auto simp: store_session_def Let_def split: option.splits if_splits rename_outcome.splits)

lemma number_in_bound: "number_in n st \<le> u32_max"
  by (auto simp: number_in_def u32_max_def dest: parse_bound split: option.splits)

subsection \<open>Files\<close>

lemma names_put [simp]: "fst ` set (put_file n t fs) = insert n (fst ` set fs)"
  by (force simp: put_file_def)

lemma file_names_Some [simp]: "set (file_names (Some d)) = fst ` set (files d)"
  by (simp add: file_names_def)

lemma map_of_put [simp]: "map_of (put_file n t fs) m = (if m = n then Some t else map_of fs m)"
  by (induction fs) (auto simp: put_file_def)

lemma file_names_None [simp]: "file_names None = []"
  by (simp add: file_names_def)

lemma content_names: "content n st \<noteq> None \<longleftrightarrow> n \<in> set (file_names st)"
  by (simp add: content_def file_names_def map_of_eq_None_iff del: not_None_eq split: option.split)

lemma content_write:
  "write_file w n t st = (st', ok) \<Longrightarrow> content m st' =
     (if m = n \<and> st \<noteq> None \<and> w \<noteq> Untouched then Some (if w = Written then t else []) else content m st)"
  by (auto simp: write_file_def content_def split: option.splits write_outcome.splits)

lemma write_ok: "snd (write_file w n t st) \<longleftrightarrow> w = Written \<and> st \<noteq> None"
  by (auto simp: write_file_def split: option.splits write_outcome.splits)

lemma names_write:
  "write_file w n t st = (st', ok) \<Longrightarrow>
     set (file_names st') = (if st \<noteq> None \<and> w \<noteq> Untouched then insert n (set (file_names st)) else set (file_names st))"
  by (cases st; cases w) (clarsimp simp: write_file_def)+

lemma number_in_write:
  assumes "write_file w n (show_nat k) st = (st', True)" and "k \<le> u32_max"
  shows "number_in m st' = (if m = n then k else number_in m st)"
proof -
  have "w = Written" "st \<noteq> None" using assms(1) write_ok [of w n "show_nat k" st] by auto
  with content_write [OF assms(1), of m] show ?thesis
    by (cases "m = n") (simp_all add: number_in_def parse_show assms(2))
qed

subsection \<open>The marker\<close>

lemma fresh_write: "fresh_store (fst (write_file w n t st)) \<Longrightarrow> fresh_store st"
  by (cases st; cases w) (auto simp: write_file_def fresh_store_def put_file_def)

lemma fresh_names: "n \<in> set (file_names st) \<Longrightarrow> \<not> fresh_store st"
  by (cases st) (auto simp: fresh_store_def)

lemma migrate_induct:
  assumes "\<And>v n t st. n \<in> {sync_connection_file, sync_epoch_file} \<Longrightarrow> P st \<Longrightarrow> P (fst (write_file v n t st))" and "P st"
  shows "P (fst (migrate_sync_connection w w' st))"
proof -
  obtain st1 ok where e:
    "(if sync_connection_file \<in> set (file_names st) then
        if sync_epoch st < sync_epoch_now then advance_sync_connection w st else (st, True)
      else let g = (if lit ''matrix-sdk-state.sqlite3'' \<in> set (file_names st) then 2 else 1)
           in write_file w sync_connection_file (show_nat g) st) = (st1, ok)" by fastforce
  have "P x" if "write_file v sync_connection_file t st = (x, b)" for v t x b
    using assms(1) [of sync_connection_file st v t] assms(2) that by simp
  with e assms(2) have "P st1"
    by (auto simp: advance_sync_connection_def Let_def split: if_splits)
  with assms(1) e show ?thesis by (simp add: migrate_sync_connection_def)
qed

lemma fresh_migrate: "fresh_store (fst (migrate_sync_connection w w' st)) \<Longrightarrow> fresh_store st"
  using migrate_induct [of "\<lambda>x. fresh_store x \<longrightarrow> fresh_store st"] fresh_write by blast

lemma marked_iff: "store_marked_encrypted st \<longleftrightarrow> marker \<in> set (file_names st)"
  by (simp add: store_marked_encrypted_def)

lemma marked_write: "n \<noteq> marker \<Longrightarrow> store_marked_encrypted (fst (write_file w n t st)) = store_marked_encrypted st"
  using names_write [of w n t st] by (cases "write_file w n t st") (auto simp: marked_iff)

lemma dot_names [simp]:
  "sync_connection_file \<noteq> marker" "sync_epoch_file \<noteq> marker" "lit ''quarantine.sqlite3'' \<noteq> marker"
  "sync_connection_file \<noteq> sync_epoch_file"
  "\<not> starts_with (lit ''matrix-sdk-'') marker"
  by (simp_all add: sync_connection_file_def sync_epoch_file_def marker_def str_simps)

lemma marked_migrate:
  "store_marked_encrypted (fst (migrate_sync_connection w w' st)) = store_marked_encrypted st"
  by (rule migrate_induct [where P = "\<lambda>x. store_marked_encrypted x = store_marked_encrypted st"])
     (auto simp: marked_write)

end
