(* ===== verification/Session_Life.thy ===== *)
theory Session_Life
  imports Session_Gate Session_Store
begin

text \<open>
  \<open>src/core/src/runtime/lifecycle.rs\<close> with the slot of \<open>runtime.rs\<close>: restore, the sign-ins, expiry
  and sign-out as a state machine.  Everything here runs under one lock, the session gate, so each
  section between taking and releasing the gate is one step; a sign-in's network part runs outside
  and comes back as steps of its own, naming the generation it was given.  What the network, the SDK
  and the file system answer are arguments of the steps.
\<close>

section \<open>The state\<close>

text \<open>A client, with what it was built from: the key that was installed and what \<open>store_plan\<close> made
  of it.\<close>

record client =
  cl_generation :: nat
  cl_key :: "key option"
  cl_store :: "key option"

record 'e core =
  slot :: slot
  client :: "client option"
  store_key :: "key option"
  disk :: "'e disk"
  login_task :: "nat option"
  pending :: bool

record 'e cipher =
  seal :: "key \<Rightarrow> stored_session \<Rightarrow> 'e option"
  unseal :: "key \<Rightarrow> 'e \<Rightarrow> unsealed"

text \<open>The answers of the file system and of the builder during one section.\<close>

record answers =
  reset :: reset_outcome
  preparing :: prepare_outcome
  mkdir_ok :: bool
  marking :: write_outcome
  build_ok :: bool
  saving :: rename_outcome
  forget_ok :: bool
  sdk_files :: "(str \<times> str) list"

section \<open>Assigning and removing the client\<close>

definition assign :: "client \<Rightarrow> phase \<Rightarrow> 'e core \<Rightarrow> 'e core \<times> nat" where
  "assign cl p c =
     (let (s, g) = assigned p (slot c)
      in (c\<lparr>client := Some (cl\<lparr>cl_generation := g\<rparr>), slot := s\<rparr>, g))"

definition unassign :: "'e core \<Rightarrow> 'e core" where
  "unassign c = c\<lparr>client := None, slot := cleared (slot c)\<rparr>"

definition unassign_if :: "nat \<Rightarrow> 'e core \<Rightarrow> 'e core" where
  "unassign_if g c = (if holds (slot c) g then unassign c else c)"

definition advance_slot :: "nat \<Rightarrow> phase \<Rightarrow> 'e core \<Rightarrow> 'e core" where
  "advance_slot g p c = c\<lparr>slot := fst (advance g p (slot c))\<rparr>"

definition cancel_login :: "'e core \<Rightarrow> 'e core" where
  "cancel_login c = c\<lparr>login_task := None, pending := False\<rparr>"

text \<open>The one teardown of a session; returns the client it took out.\<close>

definition teardown :: "'e core \<Rightarrow> 'e core \<times> client option" where
  "teardown c =
     (let c = cancel_login (c\<lparr>slot := closing (slot c)\<rparr>) in (unassign c, client c))"

section \<open>Writing the session\<close>

text \<open>\<open>persist\<close>: the session the client holds, if it holds one; a failed write leaves the file.\<close>

definition persist :: "'e cipher \<Rightarrow> rename_outcome \<Rightarrow> stored_session option \<Rightarrow> 'e core \<Rightarrow> 'e core" where
  "persist ci w sess c =
     (case sess of None \<Rightarrow> c
      | Some s \<Rightarrow>
          c\<lparr>disk := (disk c)\<lparr>session_file :=
             fst (store_session (seal ci) w s (session_file (disk c)) (store_key c))\<rparr>\<rparr>)"

definition begin_session ::
  "'e cipher \<Rightarrow> rename_outcome \<Rightarrow> stored_session option \<Rightarrow> nat \<Rightarrow> 'e core \<Rightarrow> 'e core" where
  "begin_session ci w sess g c = advance_slot g Session (persist ci w sess c)"

definition load_now :: "'e cipher \<Rightarrow> 'e core \<Rightarrow> load_outcome" where
  "load_now ci c = load (unseal ci) (session_file (disk c)) (store_key c)"

definition set_store :: "directory option \<Rightarrow> 'e core \<Rightarrow> 'e core" where
  "set_store st c = c\<lparr>disk := (disk c)\<lparr>store := st\<rparr>\<rparr>"

section \<open>Building a client\<close>

text \<open>The files the SDK creates: databases, all named after it.\<close>

definition add_files :: "(str \<times> str) list \<Rightarrow> directory option \<Rightarrow> directory option" where
  "add_files fs st =
     map_option (\<lambda>d. d\<lparr>files := fold (\<lambda>(n, t). put_file n t)
       (filter (\<lambda>(n, _). starts_with (lit ''matrix-sdk-'') n) fs) (files d)\<rparr>) st"

text \<open>\<open>build_client_at\<close> up to the client: the plan, then the SDK, which adds its files.\<close>

definition build_client :: "answers \<Rightarrow> 'e core \<Rightarrow> 'e core \<times> client option" where
  "build_client a c =
     (case store_plan (mkdir_ok a) (marking a) (store (disk c)) (store_key c) of
        (Inl _, st) \<Rightarrow> (set_store st c, None)
      | (Inr k, st) \<Rightarrow>
          (set_store (add_files (sdk_files a) st) c,
           if build_ok a
           then Some \<lparr>cl_generation = 0, cl_key = store_key c, cl_store = k\<rparr> else None))"

definition prepare_fresh_login :: "'e cipher \<Rightarrow> answers \<Rightarrow> 'e core \<Rightarrow> 'e core \<times> bool" where
  "prepare_fresh_login ci a c =
     (let c = unassign (cancel_login c);
          (st, ok) =
            (case load_now ci c of
               LNone \<Rightarrow> reset_store (reset a) (store (disk c))
             | LSession _ \<Rightarrow> (store (disk c), True)
             | LLocked \<Rightarrow> (store (disk c), False)
             | LNewer \<Rightarrow> (store (disk c), False));
          (st, ok) = (if ok then prepare (preparing a) st else (st, False))
      in (set_store st c, ok))"

definition fresh_login_client :: "'e cipher \<Rightarrow> answers \<Rightarrow> 'e core \<Rightarrow> 'e core \<times> nat option" where
  "fresh_login_client ci a c =
     (case prepare_fresh_login ci a c of
        (c, False) \<Rightarrow> (c, None)
      | (c, True) \<Rightarrow>
          (case build_client a c of
             (c, None) \<Rightarrow> (c, None)
           | (c, Some cl) \<Rightarrow> (let (c, g) = assign cl LoggingIn c in (c, Some g))))"

section \<open>Restoring\<close>

text \<open>What the SDK makes of the stored session, and whether the repair dropped damaged rows; the
  dropped rows are kept in a quarantine file of the store.  Only a database that is there is walked.\<close>

datatype restored = Restores "stored_session option" | NotHttps | DamagedStore bool | Unusable

definition quarantine :: "bool \<Rightarrow> directory option \<Rightarrow> directory option" where
  "quarantine dropped st =
     (if dropped \<and> (lit ''matrix-sdk-state.sqlite3'' \<in> set (file_names st)
         \<or> lit ''matrix-sdk-crypto.sqlite3'' \<in> set (file_names st))
      then fst (write_file Written (lit ''quarantine.sqlite3'') [] st) else st)"

definition handed_key :: "key option option \<Rightarrow> 'e core \<Rightarrow> 'e core" where
  "handed_key k c = (case k of Some (Some key) \<Rightarrow> c\<lparr>store_key := Some key\<rparr> | _ \<Rightarrow> c)"

text \<open>One attempt; the flag asks for the one second try.\<close>

definition restore_attempt ::
  "'e cipher \<Rightarrow> answers \<Rightarrow> key option option \<Rightarrow> restored \<Rightarrow> bool \<Rightarrow> 'e core \<Rightarrow> 'e core \<times> bool" where
  "restore_attempt ci a handed out repair c =
     (let c = handed_key handed c
      in case load_now ci c of
           LSession _ \<Rightarrow>
             if store_marked_encrypted (store (disk c)) \<and> store_key c = None then (c, False)
             else (case build_client a c of
                (c, None) \<Rightarrow> (c, False)
              | (c, Some cl) \<Rightarrow>
                  (case out of
                     NotHttps \<Rightarrow> (c, False)
                   | Unusable \<Rightarrow> (c, False)
                   | DamagedStore dropped \<Rightarrow>
                       if repair then (set_store (quarantine dropped (store (disk c))) c, dropped)
                       else (c, False)
                   | Restores sess \<Rightarrow>
                       (let (c, g) = assign cl LoggingIn c
                        in (begin_session ci (saving a) sess g c, False))))
         | _ \<Rightarrow> (c, False))"

definition restore_session ::
  "'e cipher \<Rightarrow> answers \<Rightarrow> key option option \<Rightarrow> restored \<Rightarrow> restored \<Rightarrow> 'e core \<Rightarrow> 'e core" where
  "restore_session ci a handed out again c =
     (if \<not> key_replaceable (slot c) then c
      else (case restore_attempt ci a handed out True c of
              (c, False) \<Rightarrow> c
            | (c, True) \<Rightarrow> fst (restore_attempt ci a None again False c)))"

section \<open>Signing in\<close>

definition spawn_login :: "'e core \<times> nat option \<Rightarrow> 'e core" where
  "spawn_login r = (case r of (c, None) \<Rightarrow> c | (c, Some g) \<Rightarrow> c\<lparr>login_task := Some g\<rparr>)"

text \<open>Browser and device code start the same way.\<close>

definition start_login :: "'e cipher \<Rightarrow> answers \<Rightarrow> 'e core \<Rightarrow> 'e core" where
  "start_login ci a c =
     (case login_entry (slot c) Start of
        Inl _ \<Rightarrow> c
      | Inr _ \<Rightarrow> spawn_login (fresh_login_client ci a c))"

definition password_login :: "'e cipher \<Rightarrow> answers \<Rightarrow> 'e core \<Rightarrow> 'e core" where
  "password_login ci a c =
     (case login_entry (slot c) Password of
        Inl _ \<Rightarrow> c
      | Inr (Reuse g) \<Rightarrow>
          (if client c = None then c else spawn_login (advance_slot g LoggingIn c, Some g))
      | Inr Fresh \<Rightarrow> spawn_login (fresh_login_client ci a c))"

text \<open>What a sign-in's task does when it comes back, by the generation it was given.\<close>

definition task_release :: "nat \<Rightarrow> 'e core \<Rightarrow> 'e core" where
  "task_release g c = unassign_if g c"

definition task_password_form :: "nat \<Rightarrow> 'e core \<Rightarrow> 'e core" where
  "task_password_form g c = advance_slot g Prelogin c"

definition task_waiting :: "nat \<Rightarrow> 'e core \<Rightarrow> 'e core" where
  "task_waiting g c = (if \<not> holds (slot c) g then c else c\<lparr>pending := True\<rparr>)"

datatype finish = Signed "stored_session option" | Aborted

definition task_finished :: "'e cipher \<Rightarrow> rename_outcome \<Rightarrow> nat \<Rightarrow> finish \<Rightarrow> 'e core \<Rightarrow> 'e core" where
  "task_finished ci w g out c =
     (if \<not> holds (slot c) g then c
      else (let c = c\<lparr>pending := False\<rparr>
            in case out of
                 Signed sess \<Rightarrow> begin_session ci w sess g c
               | Aborted \<Rightarrow> unassign_if g c))"

definition task_device :: "'e cipher \<Rightarrow> rename_outcome \<Rightarrow> nat \<Rightarrow> finish \<Rightarrow> 'e core \<Rightarrow> 'e core" where
  "task_device ci w g out c =
     (if \<not> holds (slot c) g then c
      else (case out of
              Signed sess \<Rightarrow> begin_session ci w sess g c
            | Aborted \<Rightarrow> unassign_if g c))"

definition task_password :: "'e cipher \<Rightarrow> rename_outcome \<Rightarrow> nat \<Rightarrow> finish \<Rightarrow> 'e core \<Rightarrow> 'e core" where
  "task_password ci w g out c =
     (if \<not> holds (slot c) g then c
      else (case out of
              Aborted \<Rightarrow> advance_slot g Prelogin c
            | Signed sess \<Rightarrow> begin_session ci w sess g c))"

text \<open>The running session: a token refresh, an expiry.\<close>

definition tokens_refreshed :: "'e cipher \<Rightarrow> rename_outcome \<Rightarrow> nat \<Rightarrow> stored_session option \<Rightarrow> 'e core \<Rightarrow> 'e core" where
  "tokens_refreshed ci w g sess c = (if holds (slot c) g then persist ci w sess c else c)"

definition session_expired :: "bool \<Rightarrow> nat \<Rightarrow> 'e core \<Rightarrow> 'e core" where
  "session_expired ok g c =
     (if \<not> holds (slot c) g then c
      else (let c = fst (teardown c) in c\<lparr>disk := forget ok (disk c)\<rparr>))"

section \<open>Closing, signing out, rebuilding\<close>

definition close_session :: "'e cipher \<Rightarrow> rename_outcome \<Rightarrow> stored_session option \<Rightarrow> 'e core \<Rightarrow> 'e core" where
  "close_session ci w sess c =
     unassign
       (if client c \<noteq> None \<and> phase (slot c) = Session
           \<and> (case load_now ci c of LSession _ \<Rightarrow> True | _ \<Rightarrow> False)
        then persist ci w sess c else c)"

definition logout :: "answers \<Rightarrow> 'e core \<Rightarrow> 'e core" where
  "logout a c =
     (let c = fst (teardown c);
          c = c\<lparr>disk := forget (forget_ok a) (disk c)\<rparr>
      in set_store (fst (reset_store (reset a) (store (disk c)))) c)"

text \<open>Under the gate only; the restore that follows is a step of its own.\<close>

definition rebuild_store ::
  "'e cipher \<Rightarrow> rename_outcome \<Rightarrow> rebuild_outcome \<Rightarrow> stored_session option \<Rightarrow> 'e core \<Rightarrow> 'e core" where
  "rebuild_store ci w r sess c =
     (let c =
        (if client c = None then c
         else (case teardown c of
                 (c, None) \<Rightarrow> c
               | (c, Some _) \<Rightarrow>
                   (case load_now ci c of LSession _ \<Rightarrow> persist ci w sess c | _ \<Rightarrow> c)))
      in set_store (fst (rebuild_files r (store (disk c)))) c)"

definition abort_login :: "'e core \<Rightarrow> 'e core" where
  "abort_login c =
     (let c = cancel_login c in if phase (slot c) \<noteq> Session then unassign c else c)"

text \<open>The repair of a running session puts the rows it drops into the quarantine file;
  \<open>ensure_room_list\<close> migrates the sync connection once there is a session.\<close>

definition repair_storage :: "bool \<Rightarrow> 'e core \<Rightarrow> 'e core" where
  "repair_storage dropped c = set_store (quarantine dropped (store (disk c))) c"

definition ensure_room_list :: "write_outcome \<Rightarrow> write_outcome \<Rightarrow> 'e core \<Rightarrow> 'e core" where
  "ensure_room_list w w' c =
     (if phase (slot c) = Session \<and> client c \<noteq> None
      then set_store (fst (migrate_sync_connection w w' (store (disk c)))) c else c)"

section \<open>The machine\<close>

datatype event =
    ERestore answers "key option option" restored restored
  | EStart answers
  | EPassword answers
  | ERelease nat
  | EPasswordForm nat
  | EWaiting nat
  | EFinished rename_outcome nat finish
  | EDeviceDone rename_outcome nat finish
  | EPasswordDone rename_outcome nat finish
  | ERefreshed rename_outcome nat "stored_session option"
  | EExpired bool nat
  | EAbort
  | EClose rename_outcome "stored_session option"
  | ELogout answers
  | ERebuild rename_outcome rebuild_outcome "stored_session option"
  | ERepair bool
  | ESync write_outcome write_outcome

primrec run :: "'e cipher \<Rightarrow> event \<Rightarrow> 'e core \<Rightarrow> 'e core" where
  "run ci (ERestore a k out again) c = restore_session ci a k out again c"
| "run ci (EStart a) c = start_login ci a c"
| "run ci (EPassword a) c = password_login ci a c"
| "run ci (ERelease g) c = task_release g c"
| "run ci (EPasswordForm g) c = task_password_form g c"
| "run ci (EWaiting g) c = task_waiting g c"
| "run ci (EFinished w g out) c = task_finished ci w g out c"
| "run ci (EDeviceDone w g out) c = task_device ci w g out c"
| "run ci (EPasswordDone w g out) c = task_password ci w g out c"
| "run ci (ERefreshed w g sess) c = tokens_refreshed ci w g sess c"
| "run ci (EExpired ok g) c = session_expired ok g c"
| "run ci EAbort c = abort_login c"
| "run ci (EClose w sess) c = close_session ci w sess c"
| "run ci (ELogout a) c = logout a c"
| "run ci (ERebuild w r sess) c = rebuild_store ci w r sess c"
| "run ci (ERepair dropped) c = repair_storage dropped c"
| "run ci (ESync w w') c = ensure_room_list w w' c"

inductive step :: "'e cipher \<Rightarrow> 'e core \<Rightarrow> 'e core \<Rightarrow> bool" for ci where
  stepI: "step ci c (run ci ev c)"

inductive_cases stepE: "step ci c c'"

text \<open>The states the program can be in: it starts without a client, with whatever is on disk.\<close>

inductive reachable :: "'e cipher \<Rightarrow> 'e core \<Rightarrow> bool" for ci where
  reach_init: "reachable ci \<lparr>slot = default_slot, client = None, store_key = k, disk = d,
      login_task = None, pending = False\<rparr>"
| reach_step: "reachable ci c \<Longrightarrow> step ci c c' \<Longrightarrow> reachable ci c'"

end
