(* ===== verification/Session_Safety.thy ===== *)
theory Session_Safety
  imports Session_Life
begin

text \<open>
  The guarantees of the session machine: the invariant of the slot, what a holder of an old
  generation can do (nothing), and what never happens to the session file and the store.
\<close>

section \<open>The invariant\<close>

definition store_agrees :: "'e core \<Rightarrow> client \<Rightarrow> bool" where
  "store_agrees c cl \<longleftrightarrow>
     cl_store cl = (if store_marked_encrypted (store (disk c)) then store_key c else None)"

definition good :: "'e core \<Rightarrow> bool" where
  "good c \<longleftrightarrow>
     (phase (slot c) = Empty \<longleftrightarrow> client c = None) \<and> phase (slot c) \<noteq> Closing
     \<and> (\<forall>cl. client c = Some cl \<longrightarrow>
          cl_generation cl = generation (slot c) \<and> cl_key cl = store_key c \<and> store_agrees c cl
          \<and> \<not> fresh_store (store (disk c)))
     \<and> (\<forall>g. login_task c = Some g \<longrightarrow> g \<le> generation (slot c))"

lemma goodD:
  "good c \<Longrightarrow> phase (slot c) = Empty \<longleftrightarrow> client c = None" "good c \<Longrightarrow> phase (slot c) \<noteq> Closing"
  "good c \<Longrightarrow> client c = Some cl \<Longrightarrow> cl_generation cl = generation (slot c) \<and> cl_key cl = store_key c \<and> store_agrees c cl
     \<and> \<not> fresh_store (store (disk c))"
  "good c \<Longrightarrow> login_task c = Some g \<Longrightarrow> g \<le> generation (slot c)"
  by (auto simp: good_def)

named_theorems life_defs \<open>the small operations on the core\<close>

declare assign_def [life_defs] unassign_def [life_defs] unassign_if_def [life_defs]
  advance_slot_def [life_defs] cancel_login_def [life_defs] teardown_def [life_defs]
  begin_session_def [life_defs] spawn_login_def [life_defs] gate_defs [life_defs]

text \<open>\<open>persist\<close> touches the session file and nothing else.\<close>

lemma persist_frame [simp]:
  "slot (persist ci w sess c) = slot c" "client (persist ci w sess c) = client c"
  "store_key (persist ci w sess c) = store_key c" "login_task (persist ci w sess c) = login_task c"
  "store (disk (persist ci w sess c)) = store (disk c)"
  by (simp_all add: persist_def split: option.split)

lemma good_persist [simp]: "good (persist ci w sess c) = good c"
  by (simp add: good_def store_agrees_def)

text \<open>\<open>set_store\<close> touches the store directory and nothing else.\<close>

lemma set_store_frame [simp]:
  "slot (set_store st c) = slot c" "client (set_store st c) = client c"
  "store_key (set_store st c) = store_key c" "login_task (set_store st c) = login_task c"
  "store (disk (set_store st c)) = st" "session_file (disk (set_store st c)) = session_file (disk c)"
  by (simp_all add: set_store_def)

lemma good_set_store:
  "good c \<Longrightarrow> store_marked_encrypted st = store_marked_encrypted (store (disk c))
      \<and> (fresh_store st \<longrightarrow> fresh_store (store (disk c))) \<or> client c = None \<Longrightarrow> good (set_store st c)"
  by (auto simp: good_def store_agrees_def)

lemma good_forget [simp]: "good (c\<lparr>disk := forget ok (disk c)\<rparr>) = good c"
  by (simp add: good_def store_agrees_def forget_def)

lemma good_pending [simp]: "good (c\<lparr>pending := b\<rparr>) = good c"
  by (simp add: good_def store_agrees_def)

lemma good_unassign: "(\<forall>g. login_task c = Some g \<longrightarrow> g \<le> Suc (generation (slot c))) \<Longrightarrow> good (unassign c)"
  by (auto simp: good_def life_defs)

lemma good_unassign_if: "good c \<Longrightarrow> good (unassign_if g c)"
  by (auto simp: unassign_if_def dest: goodD(4) intro!: good_unassign)

lemma good_cancel: "good c \<Longrightarrow> good (unassign (cancel_login c))"
  by (simp add: good_unassign cancel_login_def)

lemma good_advance: "good c \<Longrightarrow> p \<noteq> Empty \<Longrightarrow> p \<noteq> Closing \<Longrightarrow> good (advance_slot g p c)"
  by (auto simp: good_def life_defs store_agrees_def)

lemma good_begin: "good c \<Longrightarrow> good (begin_session ci w sess g c)"
  by (simp add: begin_session_def good_advance)

lemma good_teardown: "good (fst (teardown c))"
  by (simp add: teardown_def Let_def good_unassign cancel_login_def)

lemma teardown_client: "client (fst (teardown c)) = None" "snd (teardown c) = client c"
  by (simp_all add: teardown_def Let_def unassign_def cancel_login_def)

text \<open>Without a client, what is on disk and which key is installed do not matter to the invariant.\<close>

lemma good_empty:
  "good c \<Longrightarrow> client c = None \<Longrightarrow> good (c\<lparr>disk := d\<rparr>)" "good c \<Longrightarrow> client c = None \<Longrightarrow> good (c\<lparr>store_key := k\<rparr>)"
  by (simp_all add: good_def)

section \<open>Building\<close>

lemma names_add:
  "set (file_names (add_files fs st)) = set (file_names st)
     \<union> (if st = None then {} else {n \<in> fst ` set fs. starts_with (lit ''matrix-sdk-'') n})"
proof -
  have "fst ` set (fold (\<lambda>(n, t). put_file n t) fs a) = fst ` set a \<union> fst ` set fs" for fs a
    by (induction fs arbitrary: a) (simp_all add: case_prod_beta)
  moreover have "fst ` set (filter (\<lambda>(n, _). P n) fs) = {n \<in> fst ` set fs. P n}" for P :: "str \<Rightarrow> bool"
    by force
  ultimately show ?thesis
    by (cases st) (simp_all add: add_files_def)
qed

lemma marked_add: "store_marked_encrypted (add_files fs st) = store_marked_encrypted st"
  by (auto simp: marked_iff names_add)

lemma marked_quarantine: "store_marked_encrypted (quarantine dropped st) = store_marked_encrypted st"
  by (simp add: quarantine_def marked_write)

lemma fresh_quarantine: "fresh_store (quarantine dropped st) \<Longrightarrow> fresh_store st"
  using fresh_write by (auto simp: quarantine_def split: if_splits)

lemma fresh_add: "fresh_store (add_files fs st) \<Longrightarrow> fresh_store st"
proof -
  have "a \<noteq> [] \<Longrightarrow> fold (\<lambda>(n, t). put_file n t) gs a \<noteq> []" for gs and a :: "(str \<times> str) list"
    by (induction gs arbitrary: a) (simp_all add: put_file_def case_prod_beta)
  then show "fresh_store (add_files fs st) \<Longrightarrow> fresh_store st"
    by (cases st) (auto simp: fresh_store_def add_files_def)
qed

lemma store_plan_agrees:
  assumes "store_plan mk mo st k = (Inr r, st')"
  shows "r = (if store_marked_encrypted st' then k else None)" and "\<not> fresh_store st'"
proof -
  have w: "store_marked_encrypted x" if "write_file mo marker t st0 = (x, True)" for t st0 x
    using names_write [OF that] write_ok [of mo marker t st0] that by (simp add: marked_iff)
  with assms show "r = (if store_marked_encrypted st' then k else None)"
    by (auto simp: store_plan_def split: option.splits if_splits prod.splits bool.splits)
  from w assms show "\<not> fresh_store st'"
    by (auto simp: store_plan_def marked_iff dest: fresh_names split: option.splits if_splits prod.splits bool.splits)
qed

lemma build_client_frame:
  "build_client a c = (c', r) \<Longrightarrow> slot c' = slot c \<and> client c' = client c \<and> store_key c' = store_key c
     \<and> login_task c' = login_task c \<and> session_file (disk c') = session_file (disk c)
     \<and> (\<forall>cl. r = Some cl \<longrightarrow> cl_key cl = store_key c' \<and> store_agrees c' cl \<and> \<not> fresh_store (store (disk c')))"
  by (auto simp: build_client_def store_agrees_def marked_add fresh_add dest: store_plan_agrees
      split: prod.splits sum.splits if_splits)

lemma good_assign:
  assumes "good c" and "client c = None" and "p \<noteq> Empty" and "p \<noteq> Closing"
    and "cl_key cl = store_key c" and "store_agrees c cl" and "\<not> fresh_store (store (disk c))"
  shows "good (fst (assign cl p c))" and "snd (assign cl p c) = generation (slot (fst (assign cl p c)))"
  using assms by (auto simp: good_def life_defs Let_def store_agrees_def intro: le_SucI)

lemma prepare_frame:
  "prepare_fresh_login ci a c = (c', ok) \<Longrightarrow> good c \<Longrightarrow> good c' \<and> client c' = None"
proof -
  assume p: "prepare_fresh_login ci a c = (c', ok)" and g: "good c"
  let ?c = "unassign (cancel_login c)"
  have "client ?c = None" by (simp add: unassign_def)
  moreover have "good ?c" using g by (rule good_cancel)
  ultimately show ?thesis using p
    by (auto simp: prepare_fresh_login_def Let_def good_set_store split: prod.splits)
qed

lemma good_fresh: "good c \<Longrightarrow> good (spawn_login (fresh_login_client ci a c))"
proof -
  assume g: "good c"
  obtain c1 ok where p: "prepare_fresh_login ci a c = (c1, ok)" by fastforce
  from prepare_frame [OF p g] have c1: "good c1" "client c1 = None" by auto
  obtain c2 r where b: "build_client a c1 = (c2, r)" by fastforce
  note fr = build_client_frame [OF b]
  from c1 fr have c2: "good c2" "client c2 = None" by (auto simp: good_def)
  show ?thesis
  proof (cases "ok \<and> r \<noteq> None")
    case True
    then obtain cl where cl: "r = Some cl" by auto
    with good_assign [OF c2, of LoggingIn cl] fr
    have "good (fst (assign cl LoggingIn c2))"
      "snd (assign cl LoggingIn c2) = generation (slot (fst (assign cl LoggingIn c2)))" by auto
    with True p b cl show ?thesis
      by (auto simp: fresh_login_client_def spawn_login_def good_def store_agrees_def split: prod.splits)
  next
    case False
    with p b c1 c2 show ?thesis
      by (cases ok; cases r) (simp_all add: fresh_login_client_def spawn_login_def)
  qed
qed

lemma good_restore_attempt:
  assumes "good c" and "client c = None"
  shows "good (fst (restore_attempt ci a handed out repair c))"
    and "snd (restore_attempt ci a handed out repair c) \<Longrightarrow> client (fst (restore_attempt ci a handed out repair c)) = None"
proof -
  let ?c = "handed_key handed c"
  have c: "good ?c" "client ?c = None"
    using assms by (auto simp: handed_key_def good_empty split: option.splits)
  obtain c2 r where b: "build_client a ?c = (c2, r)" by fastforce
  note fr = build_client_frame [OF b]
  from c fr have c2: "good c2" "client c2 = None" by (auto simp: good_def)
  have "good (fst (assign cl LoggingIn c2))" if "r = Some cl" for cl
    using good_assign [OF c2, of LoggingIn cl] fr that by auto
  then show "good (fst (restore_attempt ci a handed out repair c))"
    using b c c2
    by (auto simp: restore_attempt_def Let_def good_begin good_set_store marked_quarantine fresh_quarantine split: load_outcome.split option.split restored.split prod.splits)
  show "snd (restore_attempt ci a handed out repair c) \<Longrightarrow> client (fst (restore_attempt ci a handed out repair c)) = None"
    using b c2
    by (auto simp: restore_attempt_def Let_def split: load_outcome.splits option.splits restored.splits prod.splits if_splits)
qed

lemma good_restore: "good c \<Longrightarrow> good (restore_session ci a handed out again c)"
proof -
  assume g: "good c"
  show ?thesis
  proof (cases "key_replaceable (slot c)")
    case True
    then have n: "client c = None" using g by (simp add: key_replaceable_def goodD(1))
    obtain c1 r where one: "restore_attempt ci a handed out True c = (c1, r)" by fastforce
    with good_restore_attempt [OF g n, of ci a handed out True]
    have "good c1" "r \<Longrightarrow> client c1 = None" by auto
    with good_restore_attempt(1) one True show ?thesis
      by (cases r) (auto simp: restore_session_def)
  qed (simp add: restore_session_def g)
qed

lemma good_run: "good c \<Longrightarrow> good (run ci ev c)"
proof (induction ev)
  case (ERestore a k out again)
  then show ?case by (simp add: good_restore)
next
  case (EStart a)
  then show ?case by (auto simp: start_login_def good_fresh split: sum.split)
next
  case (EPassword a)
  have "good (spawn_login (advance_slot g LoggingIn c, Some g))" if "g = generation (slot c)" for g
    using good_advance [of c LoggingIn g] EPassword that
    by (auto simp: spawn_login_def good_def store_agrees_def advance_slot_def advance_keeps)
  with EPassword show ?case
    by (auto simp: password_login_def good_fresh login_entry_Reuse split: sum.split entry.split)
next
  case (EFinished w g out)
  then show ?case
    by (auto simp: task_finished_def Let_def good_begin good_unassign_if split: finish.split)
next
  case (EPasswordDone w g out)
  then show ?case
    by (auto simp: task_password_def Let_def good_begin good_advance split: finish.split)
next
  case (EDeviceDone w g out)
  then show ?case
    by (auto simp: task_device_def good_begin good_unassign_if split: finish.split)
next
  case (EExpired ok g)
  then show ?case by (simp add: session_expired_def Let_def good_teardown)
next
  case EAbort
  then show ?case
    using good_cancel [of c] by (auto simp: abort_login_def Let_def good_def cancel_login_def store_agrees_def)
next
  case (EClose w sess)
  then show ?case by (auto simp: close_session_def intro!: good_unassign dest: goodD(4))
next
  case (ELogout a)
  then show ?case
    using good_teardown [of c] teardown_client(1) [of c]
    by (simp add: logout_def Let_def good_set_store)
next
  case (ERebuild w r sess)
  define c1 where "c1 = (if client c = None then c
         else (case teardown c of (c, None) \<Rightarrow> c
               | (c, Some _) \<Rightarrow> (case load_now ci c of LSession _ \<Rightarrow> persist ci w sess c | _ \<Rightarrow> c)))"
  have "good c1" "client c1 = None"
    using ERebuild good_teardown [of c] teardown_client [of c]
    by (auto simp: c1_def split: prod.splits option.splits load_outcome.splits)
  then show ?case by (simp add: rebuild_store_def c1_def [symmetric] Let_def good_set_store)
qed (auto simp: task_release_def task_password_form_def task_waiting_def tokens_refreshed_def
      repair_storage_def ensure_room_list_def marked_quarantine marked_migrate
      good_unassign_if good_advance intro!: good_set_store dest: fresh_quarantine fresh_migrate)

lemma reachable_good: "reachable ci c \<Longrightarrow> good c"
proof (induction rule: reachable.induct)
  case (reach_init k d)
  show ?case by (simp add: good_def default_slot_def)
next
  case (reach_step c c')
  then show ?case by (auto elim: stepE simp: good_run)
qed

section \<open>Generations\<close>

primrec named :: "event \<Rightarrow> nat option" where
  "named (ERestore a k out again) = None"
| "named (EStart a) = None"
| "named (EPassword a) = None"
| "named (ERelease g) = Some g"
| "named (EPasswordForm g) = Some g"
| "named (EWaiting g) = Some g"
| "named (EFinished w g out) = Some g"
| "named (EDeviceDone w g out) = Some g"
| "named (EPasswordDone w g out) = Some g"
| "named (ERefreshed w g sess) = Some g"
| "named (EExpired ok g) = Some g"
| "named EAbort = None"
| "named (EClose w sess) = None"
| "named (ELogout a) = None"
| "named (ERebuild w r sess) = None"
| "named (ERepair dropped) = None"
| "named (ESync w w') = None"

definition run_all :: "'e cipher \<Rightarrow> event list \<Rightarrow> 'e core \<Rightarrow> 'e core" where
  "run_all ci evs c = foldl (\<lambda>c ev. run ci ev c) c evs"

lemma run_all_simps [simp]:
  "run_all ci [] c = c" "run_all ci (ev # evs) c = run_all ci evs (run ci ev c)"
  by (simp_all add: run_all_def)

text \<open>Every step either raises the generation or leaves generation and client alone.\<close>

definition moves_on :: "'e core \<Rightarrow> 'e core \<Rightarrow> bool" where
  "moves_on c c' \<longleftrightarrow> generation (slot c) < generation (slot c')
     \<or> generation (slot c') = generation (slot c) \<and> client c' = client c"

lemma moves_on_refl [simp]: "moves_on c c"
  by (simp add: moves_on_def)

lemma moves_on_trans: "moves_on a b \<Longrightarrow> moves_on b c \<Longrightarrow> moves_on a c"
  by (auto simp: moves_on_def)

lemma moves_unassign: "generation (slot c) \<le> generation (slot d) \<Longrightarrow> moves_on c (unassign d)"
  by (simp add: moves_on_def life_defs)

lemma moves_begin [simp]: "moves_on c (begin_session ci w sess g d) = moves_on c d"
  by (simp add: moves_on_def life_defs)

lemma moves_advance [simp]: "moves_on c (advance_slot g p d) = moves_on c d"
  by (simp add: moves_on_def life_defs)

lemma moves_assign: "generation (slot c) \<le> generation (slot d) \<Longrightarrow> moves_on c (fst (assign cl p d))"
  by (simp add: moves_on_def life_defs Let_def)

lemma moves_teardown: "moves_on c (fst (teardown c))"
  by (simp add: moves_on_def life_defs Let_def)

lemma moves_frame [simp]:
  "moves_on c (d\<lparr>disk := x\<rparr>) = moves_on c d" "moves_on c (d\<lparr>pending := b\<rparr>) = moves_on c d"
  "moves_on c (d\<lparr>login_task := t\<rparr>) = moves_on c d" "moves_on c (d\<lparr>store_key := k\<rparr>) = moves_on c d"
  "moves_on c (persist ci w sess d) = moves_on c d" "moves_on c (set_store st d) = moves_on c d"
  by (simp_all add: moves_on_def)

lemma moves_le: "moves_on c d \<Longrightarrow> generation (slot c) \<le> generation (slot d)"
  by (auto simp: moves_on_def)

lemma moves_prepare: "prepare_fresh_login ci a c = (c', ok) \<Longrightarrow> moves_on c c'"
  using moves_unassign [of c "cancel_login c"]
  by (auto simp: prepare_fresh_login_def Let_def cancel_login_def split: prod.splits)

lemma moves_build: "build_client a d = (d', r) \<Longrightarrow> moves_on c d' = moves_on c d"
  using build_client_frame [of a d d' r] by (simp add: moves_on_def)

lemma moves_fresh: "moves_on c (spawn_login (fresh_login_client ci a c))"
proof -
  obtain c1 ok where p: "prepare_fresh_login ci a c = (c1, ok)" by fastforce
  obtain c2 r where b: "build_client a c1 = (c2, r)" by fastforce
  from moves_prepare [OF p] have 1: "moves_on c c1" .
  with moves_build [OF b] have 2: "moves_on c c2" by simp
  from 1 2 p b moves_assign [OF moves_le [OF 2]] show ?thesis
    by (cases ok; cases r) (auto simp: fresh_login_client_def spawn_login_def split: prod.splits, metis fst_conv)
qed

lemma moves_restore_attempt: "moves_on c (fst (restore_attempt ci a handed out repair c))"
proof -
  let ?c = "handed_key handed c"
  have h: "moves_on c ?c" by (simp add: handed_key_def split: option.split)
  obtain c2 r where b: "build_client a ?c = (c2, r)" by fastforce
  from h moves_build [OF b] have 2: "moves_on c c2" by simp
  have 3: "moves_on c (fst (assign cl LoggingIn c2))" for cl using moves_assign [OF moves_le [OF 2]] .
  from h b 2 3 show ?thesis
    by (auto simp: restore_attempt_def Let_def split: load_outcome.split option.split restored.split prod.splits)
       (metis fst_conv)+
qed

lemma moves_run: "moves_on c (run ci ev c)"
proof (induction ev)
  case (ERestore a k out again)
  show ?case
    using moves_restore_attempt [of c ci a k out True]
      moves_restore_attempt [of "fst (restore_attempt ci a k out True c)" ci a None again False]
    by (auto simp: restore_session_def split: prod.split bool.split intro: moves_on_trans)
next
  case (EStart a)
  show ?case by (simp add: start_login_def moves_fresh split: sum.split)
next
  case (EPassword a)
  show ?case
    using moves_fresh by (auto simp: password_login_def spawn_login_def split: sum.split entry.split)
next
  case (EExpired ok g)
  show ?case by (simp add: session_expired_def Let_def moves_teardown)
next
  case EAbort
  show ?case
    using moves_unassign [of c "cancel_login c"] by (simp add: abort_login_def Let_def cancel_login_def)
next
  case (ELogout a)
  show ?case by (simp add: logout_def Let_def moves_teardown)
next
  case (ERebuild w r sess)
  show ?case
    using moves_teardown [of c]
    by (auto simp: rebuild_store_def Let_def split: prod.split option.split load_outcome.split)
qed (auto simp: task_release_def task_password_form_def task_waiting_def tokens_refreshed_def
      task_finished_def task_device_def task_password_def unassign_if_def repair_storage_def ensure_room_list_def close_session_def Let_def moves_unassign
      split: finish.split)

lemma moves_run_all: "moves_on c (run_all ci evs c)"
  by (induction evs arbitrary: c) (auto intro: moves_on_trans moves_run)

section \<open>Example states\<close>

text \<open>A cipher that keeps the key beside the session, and cores to instantiate the properties at.\<close>

definition pair_cipher :: "(key \<times> stored_session) cipher" where
  "pair_cipher = \<lparr>seal = \<lambda>k s. Some (k, s), unseal = \<lambda>k (k', s). if k = k' then Opened s else NotOpened\<rparr>"

definition some_session :: stored_session where
  "some_session = \<lparr>homeserver = lit ''example.org'', homeserver_url = None, api = Matrix, tokens = lit ''t''\<rparr>"

definition first_core :: "(key \<times> stored_session) core" where
  "first_core = \<lparr>slot = default_slot, client = None, store_key = Some [7],
     disk = \<lparr>session_file = Missing, store = None\<rparr>, login_task = None, pending = False\<rparr>"

definition core_in :: "nat \<Rightarrow> phase \<Rightarrow> (key \<times> stored_session) core" where
  "core_in g p = \<lparr>slot = \<lparr>generation = g, phase = p\<rparr>,
     client = Some \<lparr>cl_generation = g, cl_key = Some [7], cl_store = Some [7]\<rparr>, store_key = Some [7],
     disk = \<lparr>session_file = Envelope ([7], some_session), store = Some \<lparr>listable = True, files = [(marker, [])]\<rparr>\<rparr>,
     login_task = None, pending = False\<rparr>"

definition good_answers :: answers where
  "good_answers = \<lparr>reset = ResetDone Prepared, preparing = Prepared, mkdir_ok = True, marking = Written,
     build_ok = True, saving = Renamed True, forget_ok = True,
     sdk_files = [(lit ''matrix-sdk-state.sqlite3'', [])]\<rparr>"

section \<open>Properties\<close>

text \<open>C1: In every reachable state the slot, the client and the store key agree: the slot is empty
  exactly if there is no client, it is never left half closed, the client carries the slot's own
  generation, was built with the key that is installed, and has the store open encrypted exactly if
  the store is marked so.\<close>

theorem session_invariant:
  assumes "reachable ci c"
  shows "(phase (slot c) = Empty \<longleftrightarrow> client c = None) \<and> phase (slot c) \<noteq> Closing
    \<and> (\<forall>cl. client c = Some cl \<longrightarrow> cl_generation cl = generation (slot c) \<and> cl_key cl = store_key c
         \<and> cl_store cl = (if store_marked_encrypted (store (disk c)) then store_key c else None))"
  using reachable_good [OF assms] by (simp add: good_def store_agrees_def)

theorem session_invariant_witness:
  "phase (slot (run pair_cipher (EStart good_answers) first_core)) \<noteq> Closing"
  by (rule session_invariant [THEN conjunct2, THEN conjunct1])
     (unfold first_core_def, rule reach_step [OF reach_init stepI])

text \<open>A holder of an old generation can do nothing: whatever a sign-in's task, a token refresh
  or an expiry that names a generation the slot does not hold wants to do, the state - slot, client,
  key and disk - stays as it is.\<close>

theorem stale_holder_powerless:
  assumes "named ev = Some g" and "\<not> holds (slot c) g"
  shows "run ci ev c = c"
  using assms
  by (cases ev) (auto simp: task_release_def unassign_if_def task_password_form_def advance_slot_def
      advance_stale task_waiting_def task_finished_def task_device_def task_password_def tokens_refreshed_def
      session_expired_def)

theorem stale_holder_powerless_witness:
  "run pair_cipher (EFinished (Renamed True) 3 (Signed (Some some_session))) (core_in 5 LoggingIn) = core_in 5 LoggingIn"
  by (rule stale_holder_powerless [of _ 3]) (simp_all add: holds_def core_in_def)

text \<open>C26: A generation names one client for ever: along any sequence of steps the generation never
  falls, and as long as it stays the same the client is the same one; so a generation that was
  outdated once never holds again.\<close>

theorem generation_names_one_client:
  "generation (slot c) \<le> generation (slot (run_all ci evs c))
   \<and> (generation (slot (run_all ci evs c)) = generation (slot c) \<longrightarrow> client (run_all ci evs c) = client c)
   \<and> (g < generation (slot c) \<longrightarrow> \<not> holds (slot (run_all ci evs c)) g)"
  using moves_run_all [of c ci evs] by (auto simp: moves_on_def holds_def)

theorem generation_names_one_client_witness:
  "\<not> holds (slot (run_all pair_cipher [EStart good_answers, EAbort] (unassign (core_in 5 LoggingIn)))) 5"
  using generation_names_one_client [of "unassign (core_in 5 LoggingIn)" pair_cipher "[EStart good_answers, EAbort]" 5]
  by (simp add: unassign_def cleared_def core_in_def)

text \<open>Who is signed in stays signed in: no sign-in, no second tap and no restore touches the
  slot, the client, the key or the disk of a running session.\<close>

theorem signed_in_untouched:
  assumes "phase (slot c) = Session"
  shows "start_login ci a c = c \<and> password_login ci a c = c \<and> restore_session ci a k out again c = c"
  using assms
  by (simp add: start_login_def password_login_def restore_session_def login_entry_Session key_replaceable_def)

theorem signed_in_untouched_witness:
  "start_login pair_cipher good_answers (core_in 1 Session) = core_in 1 Session"
  using signed_in_untouched [of "core_in 1 Session" pair_cipher good_answers None Unusable Unusable]
  by (simp add: core_in_def)

end
