(* ===== verification/Session_Disk.thy ===== *)
theory Session_Disk
  imports Session_Safety
begin

text \<open>
  What the session machine never does to the disk: no step but a sign-out or an expiry removes the
  session file or what a rebuild spares in the store, no step replaces an encrypted session file by
  a plain one, and a store in the clear comes only from a removal that stopped half way or from a
  rebuild over an empty store.
\<close>

section \<open>What is kept\<close>

definition sealed :: "'e session_file \<Rightarrow> bool" where
  "sealed f = (case f of Envelope _ \<Rightarrow> True | _ \<Rightarrow> False)"

definition store_kept :: "directory option \<Rightarrow> directory option \<Rightarrow> bool" where
  "store_kept st st' \<longleftrightarrow> set (file_names st) - set rebuilt_files \<subseteq> set (file_names st')"

definition disk_kept :: "'e disk \<Rightarrow> 'e disk \<Rightarrow> bool" where
  "disk_kept d d' \<longleftrightarrow> (session_file d \<noteq> Missing \<longrightarrow>
     session_file d' \<noteq> Missing \<and> (sealed (session_file d) \<longrightarrow> sealed (session_file d'))
     \<and> store_kept (store d) (store d'))"

lemma store_kept_refl [simp]: "store_kept st st"
  by (auto simp: store_kept_def)

lemma store_kept_trans: "store_kept a b \<Longrightarrow> store_kept b c \<Longrightarrow> store_kept a c"
  by (auto simp: store_kept_def)

lemma disk_kept_refl [simp]: "disk_kept d d"
  by (auto simp: disk_kept_def)

lemma disk_kept_trans: "disk_kept a b \<Longrightarrow> disk_kept b c \<Longrightarrow> disk_kept a c"
  unfolding disk_kept_def using store_kept_trans by blast

lemma disk_kept_store:
  "disk_kept d (d\<lparr>store := st\<rparr>) \<longleftrightarrow> session_file d = Missing \<or> store_kept (store d) st"
  by (auto simp: disk_kept_def)

text \<open>A store that \<open>store_plan\<close> would open in the clear, whatever the key.\<close>

definition opens_clear :: "directory option \<Rightarrow> bool" where
  "opens_clear st \<longleftrightarrow> \<not> store_marked_encrypted st \<and> \<not> fresh_store st"

lemma opens_clear_plan: "opens_clear st \<longleftrightarrow> (\<forall>mk mo k. fst (store_plan mk mo st k) = Inr None)"
  by (auto simp: opens_clear_def store_plan_def split: option.splits if_splits dest: spec [of _ None])

section \<open>The store directory\<close>

lemma kept_write: "store_kept st (fst (write_file w n t st))"
  using names_write [of w n t st] by (cases "write_file w n t st") (auto simp: store_kept_def)

lemma kept_created [simp]: "store_kept st (created st)" "opens_clear (created st) = opens_clear st"
  by (cases st; simp add: created_def store_kept_def opens_clear_def fresh_store_def marked_iff file_names_def)+

lemma kept_prepare: "store_kept st (fst (prepare p st))" "opens_clear (fst (prepare p st)) = opens_clear st"
  by (cases p; simp add: prepare_def)+

lemma kept_migrate: "store_kept st (fst (migrate_sync_connection w w' st))"
  by (rule migrate_induct) (auto intro: store_kept_trans kept_write)

lemma clear_migrate: "opens_clear (fst (migrate_sync_connection w w' st)) \<Longrightarrow> \<not> fresh_store st \<Longrightarrow> opens_clear st"
  by (simp add: opens_clear_def marked_migrate)

lemma kept_quarantine: "store_kept st (quarantine dropped st)"
  by (simp add: quarantine_def kept_write)

lemma clear_quarantine: "opens_clear (quarantine dropped st) \<Longrightarrow> opens_clear st"
  by (auto simp: opens_clear_def marked_quarantine dest: fresh_names)
     (auto simp: quarantine_def dest: fresh_names split: if_splits)

lemma kept_add: "store_kept st (add_files fs st)"
  by (auto simp: store_kept_def names_add)

lemma names_removed: "set (file_names (fold remove_file ns st)) = set (file_names st) - set ns"
proof (induction ns arbitrary: st)
  case (Cons n ns)
  have "set (file_names (remove_file n st)) = set (file_names st) - {n}"
    by (cases st) (auto simp: remove_file_def image_iff)
  with Cons show ?case by auto
qed simp

lemma fold_remove_fresh: "fresh_store st \<Longrightarrow> fold remove_file ns st = st"
proof (induction ns)
  case (Cons n ns)
  then have "remove_file n st = st" by (cases st) (auto simp: remove_file_def fresh_store_def)
  with Cons show ?case by simp
qed simp

lemma marker_kept: "marker \<notin> set rebuilt_files"
  by (simp add: marker_def rebuilt_files_def str_simps)

lemma sync_kept: "sync_connection_file \<notin> set rebuilt_files"
  by (simp add: sync_connection_file_def rebuilt_files_def str_simps)

lemma kept_removed: "set ns \<subseteq> set rebuilt_files \<Longrightarrow> store_kept st (fold remove_file ns st)"
  by (auto simp: store_kept_def names_removed)

lemma kept_rebuild: "store_kept st (fst (rebuild_files r st))"
proof (cases r)
  case (RebuildLeft n)
  then show ?thesis by (simp add: rebuild_files_def kept_removed set_take_subset)
next
  case RebuildIndex
  then show ?thesis by (simp add: rebuild_files_def kept_removed)
next
  case (RebuildDone p w)
  have "store_kept st (fst (prepare p (fold remove_file rebuilt_files st)))"
    using kept_removed [of rebuilt_files st] kept_prepare(1) by (blast intro: store_kept_trans)
  with RebuildDone show ?thesis
    by (auto simp: rebuild_files_def advance_sync_connection_def intro: store_kept_trans kept_write
        split: prod.split bool.split)
qed

lemma marked_rebuild: "store_marked_encrypted st \<Longrightarrow> store_marked_encrypted (fst (rebuild_files r st))"
  using kept_rebuild [of st r] marker_kept by (auto simp: marked_iff store_kept_def)

section \<open>The operations\<close>

named_theorems disk_frame \<open>operations that leave the disk alone\<close>

lemma disk_frames [disk_frame]:
  "disk (unassign c) = disk c" "disk (unassign_if g c) = disk c" "disk (advance_slot g p c) = disk c"
  "disk (cancel_login c) = disk c" "disk (fst (teardown c)) = disk c" "disk (fst (assign cl p c)) = disk c"
  "disk (handed_key k c) = disk c"
  by (simp_all add: life_defs Let_def handed_key_def split: option.split)

lemma assign_disk: "assign cl p c = (c', g) \<Longrightarrow> disk c' = disk c"
  by (auto simp: life_defs Let_def)

lemma disk_set_store [simp]: "disk (set_store st c) = (disk c)\<lparr>store := st\<rparr>"
  by (simp add: set_store_def)

lemma kept_set_store: "disk_kept d (disk c) \<Longrightarrow> store_kept (store (disk c)) st \<Longrightarrow> disk_kept d ((disk c)\<lparr>store := st\<rparr>)"
  using store_kept_trans by (auto simp: disk_kept_def)

lemma kept_persist: "disk_kept d (disk c) \<Longrightarrow> disk_kept d (disk (persist ci w sess c))"
proof (cases sess)
  case (Some s)
  obtain f ok where f: "store_session (seal ci) w s (session_file (disk c)) (store_key c) = (f, ok)" by fastforce
  note n = store_session_not_missing [OF f]
  have e: "sealed (session_file (disk c)) \<Longrightarrow> sealed f"
    using store_session_keeps_envelope [of "seal ci" w s _ "store_key c" f ok] f
    by (auto simp: sealed_def split: session_file.splits)
  assume "disk_kept d (disk c)"
  with Some f n e show ?thesis by (simp add: persist_def disk_kept_def)
qed (simp add: persist_def)

lemma kept_begin: "disk_kept d (disk c) \<Longrightarrow> disk_kept d (disk (begin_session ci w sess g c))"
  by (simp add: begin_session_def disk_frame kept_persist)

lemma begin_store [simp]: "store (disk (begin_session ci w sess g c)) = store (disk c)"
  by (simp add: begin_session_def disk_frame)

lemma store_plan_kept:
  assumes "store_plan mk mo st k = (r, st')"
  shows "store_kept st st'" and "opens_clear (add_files fs st') \<Longrightarrow> r = Inr k' \<Longrightarrow> opens_clear st"
    and "opens_clear st' \<Longrightarrow> opens_clear st"
proof -
  have k: "store_kept st x \<and> (opens_clear x \<longrightarrow> opens_clear st) \<and> (ok \<longrightarrow> store_marked_encrypted x)"
    if "write_file mo marker t (created st) = (x, ok)" for t x ok
  proof -
    have "store_kept st x" using store_kept_trans [OF kept_created(1) kept_write [of "created st" mo marker t]] that by simp
    moreover have "opens_clear x \<longrightarrow> opens_clear st"
      using names_write [OF that] that kept_created(2) [of st]
      by (cases mo) (auto simp: opens_clear_def marked_iff write_file_def split: option.splits)
    moreover have "ok \<longrightarrow> store_marked_encrypted x"
      using names_write [OF that] write_ok [of mo marker t "created st"] that by (simp add: marked_iff)
    ultimately show ?thesis by blast
  qed
  have *: "store_kept st st' \<and> (opens_clear st' \<longrightarrow> opens_clear st) \<and> (r = Inr k' \<longrightarrow> store_marked_encrypted st' \<or> opens_clear st)"
    using assms k
    by (auto simp: store_plan_def split: option.splits if_splits prod.splits bool.splits) (auto simp: opens_clear_def)
  then show "store_kept st st'" "opens_clear st' \<Longrightarrow> opens_clear st" by auto
  from * show "opens_clear (add_files fs st') \<Longrightarrow> r = Inr k' \<Longrightarrow> opens_clear st"
    by (auto simp: opens_clear_def marked_add)
qed

lemma build_client_kept:
  assumes "build_client a c = (c', r)"
  shows "disk_kept (disk c) (disk c')" and "opens_clear (store (disk c')) \<Longrightarrow> opens_clear (store (disk c))"
proof -
  obtain p st where p: "store_plan (mkdir_ok a) (marking a) (store (disk c)) (store_key c) = (p, st)" by fastforce
  note k = store_plan_kept [OF p]
  from assms p show "disk_kept (disk c) (disk c')"
    by (auto simp: build_client_def disk_kept_store k(1) intro: store_kept_trans [OF k(1) kept_add] split: sum.splits)
  from assms p k(2,3) show "opens_clear (store (disk c')) \<Longrightarrow> opens_clear (store (disk c))"
    by (auto simp: build_client_def split: sum.splits)
qed

text \<open>A reset that stops half way must not take the marker and leave the rest.\<close>

definition reset_whole :: "reset_outcome \<Rightarrow> bool" where
  "reset_whole r = (case r of ResetLeft ns \<Rightarrow> marker \<in> set ns \<or> ns = [] | _ \<Rightarrow> True)"

lemma clear_reset:
  assumes "reset_whole r"
  shows "opens_clear (fst (reset_store r st)) \<Longrightarrow> opens_clear st"
proof (cases r)
  case (ResetLeft ns)
  with assms show "opens_clear (fst (reset_store r st)) \<Longrightarrow> opens_clear st"
    by (cases st) (auto simp: reset_store_def reset_whole_def opens_clear_def marked_iff fresh_store_def image_iff
        split: if_splits)
next
  case (ResetDone p)
  then show "opens_clear (fst (reset_store r st)) \<Longrightarrow> opens_clear st"
    using kept_prepare(2) [of p None] by (simp add: reset_store_def opens_clear_def fresh_store_def)
qed (auto simp: reset_store_def opens_clear_def fresh_store_def)

lemma prepare_fresh_kept:
  assumes "prepare_fresh_login ci a c = (c', ok)"
  shows "disk_kept (disk c) (disk c')"
    and "reset_whole (reset a) \<Longrightarrow> opens_clear (store (disk c')) \<Longrightarrow> opens_clear (store (disk c))"
proof -
  have kp: "prepare p st = (st', b) \<Longrightarrow> store_kept st st' \<and> opens_clear st' = opens_clear st" for p st st' b
    using kept_prepare(1) [of st p] kept_prepare(2) [of p st] by simp
  show "disk_kept (disk c) (disk c')"
    using assms kp
    by (auto simp: prepare_fresh_login_def Let_def disk_frame load_now_def load_None disk_kept_def
        split: load_outcome.splits if_splits prod.splits)
  show "opens_clear (store (disk c')) \<Longrightarrow> opens_clear (store (disk c))" if "reset_whole (reset a)"
    using assms kp clear_reset [OF that, of "store (disk c)"]
    by (auto simp: prepare_fresh_login_def Let_def disk_frame split: load_outcome.splits if_splits prod.splits)
qed

lemma fresh_kept:
  "disk_kept (disk c) (disk (spawn_login (fresh_login_client ci a c)))"
  "reset_whole (reset a) \<Longrightarrow> opens_clear (store (disk (spawn_login (fresh_login_client ci a c)))) \<Longrightarrow> opens_clear (store (disk c))"
proof -
  obtain c1 ok where p: "prepare_fresh_login ci a c = (c1, ok)" by fastforce
  obtain c2 r where b: "build_client a c1 = (c2, r)" by fastforce
  note k1 = prepare_fresh_kept [OF p] and k2 = build_client_kept [OF b]
  have d: "disk (spawn_login (fresh_login_client ci a c)) = (if ok then disk c2 else disk c1)"
    using p b
    by (cases ok; cases r) (auto simp: fresh_login_client_def spawn_login_def dest: assign_disk split: prod.splits)
  show "disk_kept (disk c) (disk (spawn_login (fresh_login_client ci a c)))"
    using d k1(1) disk_kept_trans [OF k1(1) k2(1)] by simp
  show "reset_whole (reset a) \<Longrightarrow> opens_clear (store (disk (spawn_login (fresh_login_client ci a c)))) \<Longrightarrow> opens_clear (store (disk c))"
    using d k1(2) k2(2) by (auto split: if_splits)
qed

lemma restore_attempt_kept:
  "disk_kept (disk c) (disk (fst (restore_attempt ci a handed out repair c)))
   \<and> (opens_clear (store (disk (fst (restore_attempt ci a handed out repair c)))) \<longrightarrow> opens_clear (store (disk c)))"
proof -
  obtain c2 r where b: "build_client a (handed_key handed c) = (c2, r)" by fastforce
  note k = build_client_kept [OF b, unfolded disk_frame]
  let ?d = "disk (fst (restore_attempt ci a handed out repair c))"
  have d: "?d = disk c \<or> ?d = disk c2 \<or> (\<exists>x. ?d = (disk c2)\<lparr>store := quarantine x (store (disk c2))\<rparr>)
      \<or> (\<exists>w sess g c3. disk c3 = disk c2 \<and> ?d = disk (begin_session ci w sess g c3))"
    using b by (auto simp: restore_attempt_def Let_def disk_frame
        split: load_outcome.split option.split restored.split prod.splits)
      (metis assign_disk)+
  from d consider "?d = disk c" | "?d = disk c2" | x where "?d = (disk c2)\<lparr>store := quarantine x (store (disk c2))\<rparr>"
    | w sess g c3 where "disk c3 = disk c2" "?d = disk (begin_session ci w sess g c3)" by blast
  then show ?thesis
  proof cases
    case (3 x)
    with k kept_set_store [OF k(1) kept_quarantine] show ?thesis by (auto dest: clear_quarantine)
  next
    case (4 w sess g c3)
    with k kept_begin [of "disk c" c3] begin_store [of ci w sess g c3] show ?thesis by simp
  qed (use k in auto)
qed

lemma restore_kept:
  "disk_kept (disk c) (disk (restore_session ci a handed out again c))"
  "opens_clear (store (disk (restore_session ci a handed out again c))) \<Longrightarrow> opens_clear (store (disk c))"
proof -
  obtain c1 r where one: "restore_attempt ci a handed out True c = (c1, r)" by fastforce
  with restore_attempt_kept [of c ci a handed out True]
  have "disk_kept (disk c) (disk c1)" "opens_clear (store (disk c1)) \<longrightarrow> opens_clear (store (disk c))" by simp_all
  with one restore_attempt_kept [of c1 ci a None again False]
  have "disk_kept (disk c) (disk (restore_session ci a handed out again c))
    \<and> (opens_clear (store (disk (restore_session ci a handed out again c))) \<longrightarrow> opens_clear (store (disk c)))"
    by (cases r) (auto simp: restore_session_def intro: disk_kept_trans)
  then show "disk_kept (disk c) (disk (restore_session ci a handed out again c))"
    "opens_clear (store (disk (restore_session ci a handed out again c))) \<Longrightarrow> opens_clear (store (disk c))" by auto
qed

section \<open>The steps\<close>

definition signs_out :: "event \<Rightarrow> bool" where
  "signs_out ev = (case ev of ELogout _ \<Rightarrow> True | EExpired _ _ \<Rightarrow> True | _ \<Rightarrow> False)"

lemma rebuild_disk:
  "\<exists>c1 :: 'e core. disk_kept (disk c) (disk c1) \<and> store (disk c1) = store (disk c)
     \<and> disk (rebuild_store ci w r sess c) = (disk c1)\<lparr>store := fst (rebuild_files r (store (disk c)))\<rparr>"
  for c :: "'e core"
proof -
  define c1 where "c1 = (if client c = None then c
         else (case teardown c of (c, None) \<Rightarrow> c
               | (c, Some _) \<Rightarrow> (case load_now ci c of LSession _ \<Rightarrow> persist ci w sess c | _ \<Rightarrow> c)))"
  obtain c' x where t: "teardown c = (c', x)" by fastforce
  then have d: "disk c' = disk c" using disk_frames(5) [of c] by simp
  have "disk_kept (disk c) (disk c1) \<and> store (disk c1) = store (disk c)"
    using t d kept_persist [of "disk c" c' ci w sess]
    by (cases x; cases "client c"; cases "load_now ci c'") (simp_all add: c1_def)
  moreover from this have "disk (rebuild_store ci w r sess c) = (disk c1)\<lparr>store := fst (rebuild_files r (store (disk c)))\<rparr>"
    by (simp add: rebuild_store_def c1_def [symmetric] Let_def)
  ultimately show ?thesis by blast
qed

lemma run_kept: "\<not> signs_out ev \<Longrightarrow> disk_kept (disk c) (disk (run ci ev c))"
  for c :: "'e core"
proof (induction ev)
  case (ERestore a k out again)
  then show ?case using restore_kept(1) [of c ci a k out again] by simp
next
  case (EStart a)
  then show ?case by (auto simp: start_login_def fresh_kept split: sum.split)
next
  case (EPassword a)
  then show ?case
    using fresh_kept(1) [of c ci a]
    by (auto simp: password_login_def spawn_login_def disk_frame split: sum.split entry.split)
next
  case (ERebuild w r sess)
  obtain c1 :: "'e core" where "disk_kept (disk c) (disk c1)" "store (disk c1) = store (disk c)"
    "disk (rebuild_store ci w r sess c) = (disk c1)\<lparr>store := fst (rebuild_files r (store (disk c)))\<rparr>"
    using rebuild_disk by blast
  then show ?case using kept_set_store [of "disk c" c1] kept_rebuild by simp
next
  case (EClose w sess)
  then show ?case by (auto simp: close_session_def disk_frame kept_persist)
qed (auto simp: signs_out_def task_release_def task_password_form_def task_waiting_def task_finished_def
      task_device_def task_password_def tokens_refreshed_def abort_login_def repair_storage_def
      ensure_room_list_def Let_def disk_frame kept_begin kept_persist disk_kept_store kept_quarantine
      kept_migrate split: finish.split)

lemma run_all_kept: "list_all (\<lambda>ev. \<not> signs_out ev) evs \<Longrightarrow> disk_kept (disk c) (disk (run_all ci evs c))"
  by (induction evs arbitrary: c) (auto intro: disk_kept_trans run_kept)

text \<open>When a step may leave a store in the clear: a removal that stopped with the marker gone, or a
  rebuild over a store that is empty or not there.\<close>

definition safe_event :: "directory option \<Rightarrow> event \<Rightarrow> bool" where
  "safe_event st ev =
     (case ev of
        EStart a \<Rightarrow> reset_whole (reset a) | EPassword a \<Rightarrow> reset_whole (reset a)
      | ELogout a \<Rightarrow> reset_whole (reset a) | ERebuild _ _ _ \<Rightarrow> \<not> fresh_store st | _ \<Rightarrow> True)"

lemma run_clear:
  assumes "good c" and "safe_event (store (disk c)) ev"
  shows "opens_clear (store (disk (run ci ev c))) \<Longrightarrow> opens_clear (store (disk c))"
  using assms
proof (induction ev)
  case (ERestore a k out again)
  then show ?case using restore_kept(2) [of ci a k out again c] by simp
next
  case (EStart a)
  then show ?case by (auto simp: start_login_def safe_event_def dest: fresh_kept(2) split: sum.splits)
next
  case (EPassword a)
  then show ?case
    by (auto simp: password_login_def safe_event_def spawn_login_def disk_frame dest: fresh_kept(2) [unfolded spawn_login_def]
        split: sum.splits entry.splits if_splits)
next
  case (ELogout a)
  then show ?case
    using clear_reset [of "reset a" "store (disk c)"]
    by (simp add: logout_def Let_def safe_event_def disk_frame forget_def split: if_splits)
next
  case (ERebuild w r sess)
  then show ?case
    using rebuild_disk [of c ci w r sess] marked_rebuild [of "store (disk c)" r]
    by (auto simp: safe_event_def opens_clear_def)
next
  case (ESync w w')
  then show ?case
    using clear_migrate [of w w' "store (disk c)"]
    by (auto simp: ensure_room_list_def dest: goodD(3) split: if_splits)
qed (auto simp: task_release_def task_password_form_def task_waiting_def task_finished_def
      task_device_def task_password_def tokens_refreshed_def abort_login_def repair_storage_def
      session_expired_def forget_def close_session_def Let_def disk_frame dest: clear_quarantine
      split: finish.splits if_splits)

section \<open>Properties\<close>

text \<open>C8: As long as nobody signs out and the session does not expire, a stored session stays stored:
  after any steps, whatever the file system, the SDK and the server answered, the session file is
  still there, sealed if it was sealed, and every file of the store is still there except the two
  databases a rebuild drops.\<close>

theorem session_and_store_survive:
  assumes "list_all (\<lambda>ev. \<not> signs_out ev) evs" and "session_file (disk c) \<noteq> Missing"
  shows "session_file (disk (run_all ci evs c)) \<noteq> Missing
    \<and> (sealed (session_file (disk c)) \<longrightarrow> sealed (session_file (disk (run_all ci evs c))))
    \<and> set (file_names (store (disk c))) - set rebuilt_files \<subseteq> set (file_names (store (disk (run_all ci evs c))))"
  using run_all_kept [OF assms(1), of c ci] assms(2) by (simp add: disk_kept_def store_kept_def)

theorem session_and_store_survive_witness:
  "session_file (disk (run_all pair_cipher
     [EStart good_answers, EAbort, ERebuild NotRenamed (RebuildDone Prepared Written) None, EStart good_answers]
     (core_in 5 Session))) \<noteq> Missing"
  by (rule session_and_store_survive [THEN conjunct1]) (simp_all add: signs_out_def core_in_def)

text \<open>C17: No step turns a store that is encrypted or not begun into one that is opened in the clear,
  provided a removal that stops half way spares the marker and a rebuild finds a store that has been
  begun.\<close>

theorem no_new_clear_store:
  assumes "reachable ci c" and "safe_event (store (disk c)) ev"
    and "store_plan mk mo (store (disk (run ci ev c))) k = (Inr None, st)"
  shows "store_plan mk' mo' (store (disk c)) k' = (Inr None, store (disk c))"
proof -
  have "opens_clear (store (disk (run ci ev c)))"
    using assms(3) by (auto simp: store_plan_def opens_clear_def split: option.splits if_splits prod.splits bool.splits)
  with run_clear [OF reachable_good [OF assms(1)] assms(2)] have "opens_clear (store (disk c))" .
  then show ?thesis by (simp add: opens_clear_def store_plan_def)
qed

text \<open>The plain store stays plain: an old store without a marker goes through a rebuild.\<close>

definition plain_core :: "(key \<times> stored_session) core" where
  "plain_core = \<lparr>slot = default_slot, client = None, store_key = Some [7],
     disk = \<lparr>session_file = Plain some_session,
             store = Some \<lparr>listable = True, files = [(lit ''matrix-sdk-crypto.sqlite3'', [])]\<rparr>\<rparr>,
     login_task = None, pending = False\<rparr>"

theorem no_new_clear_store_witness:
  "store_plan True Written (store (disk plain_core)) (Some [7]) = (Inr None, store (disk plain_core))"
proof (rule no_new_clear_store [of pair_cipher plain_core "ERebuild NotRenamed (RebuildLeft 1) None" True Written "Some [7]"])
  show "reachable pair_cipher plain_core" unfolding plain_core_def by (rule reach_init)
  show "safe_event (store (disk plain_core)) (ERebuild NotRenamed (RebuildLeft 1) None)"
    by (simp add: safe_event_def plain_core_def fresh_store_def)
  show "store_plan True Written (store (disk (run pair_cipher (ERebuild NotRenamed (RebuildLeft 1) None) plain_core))) (Some [7])
    = (Inr None, store (disk (run pair_cipher (ERebuild NotRenamed (RebuildLeft 1) None) plain_core)))"
    by code_simp
qed

text \<open>The proviso is needed.  A rebuild over a store directory that is missing or empty leaves a
  directory with the sync connection in it and no marker, and the next client opens it in the clear
  although a key is there: a new store without encryption.\<close>

theorem rebuild_over_empty_store:
  fixes c :: "'e core"
  assumes "fresh_store (store (disk c))"
  shows "fst (store_plan mk mo (store (disk (rebuild_store ci w (RebuildDone Prepared Written) sess c))) (Some k)) = Inr None"
proof -
  let ?st = "fst (rebuild_files (RebuildDone Prepared Written) (store (disk c)))"
  obtain c1 :: "'e core" where "store (disk (rebuild_store ci w (RebuildDone Prepared Written) sess c)) = ?st"
    using rebuild_disk [of c ci w "RebuildDone Prepared Written" sess] by auto
  moreover have "set (file_names ?st) = {sync_connection_file}"
  proof -
    have "created (store (disk c)) = Some \<lparr>listable = True, files = []\<rparr>"
      using assms by (cases "store (disk c)") (auto simp: created_def fresh_store_def)
    then have "?st = Some \<lparr>listable = True, files = put_file sync_connection_file
        (show_nat (min u32_max (sync_generation (Some \<lparr>listable = True, files = []\<rparr>) + 1))) []\<rparr>"
      by (simp add: rebuild_files_def fold_remove_fresh [OF assms] prepare_def advance_sync_connection_def write_file_def)
    then show ?thesis by (simp only: file_names_Some directory.simps names_put) simp
  qed
  then have "opens_clear ?st"
    using fresh_names [of sync_connection_file ?st] dot_names(1) [THEN not_sym]
    by (simp only: opens_clear_def marked_iff) simp
  ultimately show ?thesis using opens_clear_plan by metis
qed

theorem rebuild_over_empty_store_witness:
  "fst (store_plan True Written (store (disk (rebuild_store pair_cipher NotRenamed (RebuildDone Prepared Written) None
     (plain_core\<lparr>disk := \<lparr>session_file = Plain some_session, store = None\<rparr>\<rparr>)))) (Some [7])) = Inr None"
  by (rule rebuild_over_empty_store) (simp add: fresh_store_def)

end
