(* ===== verification/Session_Flow.thy ===== *)
theory Session_Flow
  imports Session_Disk
begin

text \<open>
  What a session gets done: the session file round trip, a sign-in from any reachable state to a
  running session, the refusal to sign in over a session that cannot be read, and the move to a new
  sync connection after a rebuild and, once, on an old store.
\<close>

section \<open>The session file\<close>

text \<open>C35: What was stored loads again: under the key it was stored with, given a cipher that opens what it
  sealed, or in the clear where there is no key and the old file did not forbid it; and under no
  key whatever does the file read as "no session".\<close>

theorem session_file_roundtrip:
  assumes "store_session (seal ci) (Renamed b) s f k = (f', True)"
    and "\<And>key e. seal ci key s = Some e \<Longrightarrow> unseal ci key e = Opened s"
  shows "load (unseal ci) f' k = LSession s \<and> load (unseal ci) f' k' \<noteq> LNone"
  using assms by (auto simp: store_session_def load_def Let_def
      split: option.splits if_splits session_file.splits unsealed.splits)

theorem session_file_roundtrip_witness:
  "load (unseal pair_cipher) (fst (store_session (seal pair_cipher) (Renamed True) some_session Missing (Some [7])))
     (Some [7]) = LSession some_session"
  by (rule session_file_roundtrip [of pair_cipher True some_session Missing, THEN conjunct1])
     (simp_all add: store_session_def pair_cipher_def)

text \<open>Without a key an encrypted or unreadable session file is never replaced: the write fails and
  the file stays.\<close>

theorem no_downgrade:
  assumes "sealed f \<or> f = Unreadable"
  shows "store_session sl w s f None = (f, False)"
  using assms by (auto simp: store_session_def replaceable_without_key_def sealed_def split: session_file.splits)

theorem no_downgrade_witness:
  "store_session (seal pair_cipher) (Renamed True) some_session (Envelope ([7], some_session)) None
     = (Envelope ([7], some_session), False)"
  by (rule no_downgrade) (simp add: sealed_def)

section \<open>Signing in\<close>

lemma fresh_login_done:
  assumes "load_now ci (unassign (cancel_login c)) = LNone" and "reset a = ResetDone Prepared" and "preparing a = Prepared"
    and "mkdir_ok a" and "marking a = Written" and "build_ok a" and "store_key c = Some k"
  shows "\<exists>c' g. fresh_login_client ci a c = (c', Some g) \<and> slot c' = \<lparr>generation = g, phase = LoggingIn\<rparr>
     \<and> client c' = Some \<lparr>cl_generation = g, cl_key = Some k, cl_store = Some k\<rparr> \<and> store_key c' = Some k
     \<and> session_file (disk c') = Missing \<and> store_marked_encrypted (store (disk c'))"
proof -
  have m: "session_file (disk c) = Missing"
    using assms(1) by (simp add: load_now_def load_None disk_frame)
  define c1 where "c1 = set_store (Some \<lparr>listable = True, files = []\<rparr>) (unassign (cancel_login c))"
  have p: "prepare_fresh_login ci a c = (c1, True)"
    using assms by (simp add: prepare_fresh_login_def Let_def reset_store_def prepare_def created_def c1_def)
  define st where "st = Some \<lparr>listable = True, files = [(marker, lit ''xmatic store key v1'' @ [10])]\<rparr>"
  have key: "store_key c1 = Some k" and f: "session_file (disk c1) = Missing"
    using assms(7) m by (simp_all add: c1_def unassign_def cancel_login_def)
  have "store_plan True Written (store (disk c1)) (Some k) = (Inr (Some k), st)"
    by (simp add: store_plan_def marked_iff fresh_store_def created_def write_file_def put_file_def c1_def st_def file_names_def)
  then have b: "build_client a c1 = (set_store (add_files (sdk_files a) st) c1,
      Some \<lparr>cl_generation = 0, cl_key = Some k, cl_store = Some k\<rparr>)"
    using assms key by (simp add: build_client_def)
  have "store_marked_encrypted st" by (simp add: marked_iff st_def)
  with p b key f show ?thesis
    by (simp add: fresh_login_client_def assign_def assigned_def Let_def marked_add)
qed

text \<open>C19: There is always a way in: from any state, with the sign-out's removals and a sign-in's steps
  going through and a key at hand, signing out, starting a sign-in and the answer to it lead to a
  running session, whose client holds an encrypted store and whose file is sealed under the key.\<close>

theorem sign_in_completes:
  assumes "reset a = ResetDone Prepared" and "preparing a = Prepared" and "mkdir_ok a" and "marking a = Written"
    and "build_ok a" and "forget_ok a" and "store_key c = Some k" and "seal ci k s = Some e"
  shows "\<exists>g c'. run_all ci [ELogout a, EStart a, EFinished (Renamed True) g (Signed (Some s))] c = c'
    \<and> phase (slot c') = Session \<and> client c' = Some \<lparr>cl_generation = g, cl_key = Some k, cl_store = Some k\<rparr>
    \<and> session_file (disk c') = Envelope e \<and> store_marked_encrypted (store (disk c'))"
proof -
  define c1 where "c1 = logout a c"
  have e1: "phase (slot c1) = Empty" and k1: "store_key c1 = Some k" and f1: "session_file (disk c1) = Missing"
    using assms by (simp_all add: c1_def logout_def life_defs Let_def forget_def)
  have "login_entry (slot c1) Start = Inr Fresh" using e1 by (simp add: login_entry_Fresh)
  moreover have "load_now ci (unassign (cancel_login c1)) = LNone"
    using f1 by (simp add: load_now_def load_None disk_frame)
  then obtain c2 g where c2: "fresh_login_client ci a c1 = (c2, Some g)" "slot c2 = \<lparr>generation = g, phase = LoggingIn\<rparr>"
    "client c2 = Some \<lparr>cl_generation = g, cl_key = Some k, cl_store = Some k\<rparr>" "store_key c2 = Some k"
    "session_file (disk c2) = Missing" "store_marked_encrypted (store (disk c2))"
    using fresh_login_done [of ci c1 a k] assms k1 by blast
  ultimately have s: "start_login ci a c1 = c2\<lparr>login_task := Some g\<rparr>"
    by (simp add: start_login_def spawn_login_def)
  have "run_all ci [ELogout a, EStart a, EFinished (Renamed True) g (Signed (Some s))] c
      = task_finished ci (Renamed True) g (Signed (Some s)) (c2\<lparr>login_task := Some g\<rparr>)"
    using s by (simp add: c1_def)
  moreover have "phase (slot c') = Session \<and> client c' = Some \<lparr>cl_generation = g, cl_key = Some k, cl_store = Some k\<rparr>
      \<and> session_file (disk c') = Envelope e \<and> store_marked_encrypted (store (disk c'))"
    if "c' = task_finished ci (Renamed True) g (Signed (Some s)) (c2\<lparr>login_task := Some g\<rparr>)" for c'
    using that c2 assms(8)
    by (simp add: task_finished_def Let_def begin_session_def advance_slot_def persist_def store_session_def
        holds_def advance_def)
  ultimately show ?thesis by blast
qed

theorem sign_in_completes_witness:
  "\<exists>g c'. run_all pair_cipher [ELogout good_answers, EStart good_answers, EFinished (Renamed True) g (Signed (Some some_session))]
       (core_in 5 Session) = c'
    \<and> phase (slot c') = Session \<and> client c' = Some \<lparr>cl_generation = g, cl_key = Some [7], cl_store = Some [7]\<rparr>
    \<and> session_file (disk c') = Envelope ([7], some_session) \<and> store_marked_encrypted (store (disk c'))"
  by (rule sign_in_completes) (simp_all add: good_answers_def core_in_def pair_cipher_def)

text \<open>A session that is there but cannot be opened is not signed in over: no sign-in builds a
  client or touches the disk, with a missing key, a wrong one, a newer format or a damaged file.\<close>

theorem locked_session_refuses_sign_in:
  assumes "load_now ci c = LLocked \<or> load_now ci c = LNewer" and "phase (slot c) \<in> {Empty, Closing, LoggingIn}"
  shows "disk (start_login ci a c) = disk c \<and> client (start_login ci a c) = None \<and> phase (slot (start_login ci a c)) = Empty"
proof -
  have "load_now ci (unassign (cancel_login c)) = load_now ci c"
    by (simp add: load_now_def unassign_def cancel_login_def)
  then have "fresh_login_client ci a c = (unassign (cancel_login c), None)"
    using assms(1) by (auto simp: fresh_login_client_def prepare_fresh_login_def Let_def set_store_def disk_frame)
  moreover have "login_entry (slot c) Start = Inr Fresh" using assms(2) by (auto simp: login_entry_Fresh)
  ultimately show ?thesis
    by (simp add: start_login_def spawn_login_def disk_frame) (simp add: unassign_def cleared_def)
qed

theorem locked_session_refuses_sign_in_witness:
  "client (start_login pair_cipher good_answers ((core_in 3 LoggingIn)\<lparr>store_key := None\<rparr>)) = None"
  by (rule locked_session_refuses_sign_in [THEN conjunct2, THEN conjunct1])
     (simp_all add: core_in_def load_now_def load_def)

section \<open>The sync connection\<close>

lemma sync_id_inj: "sync_connection_id st = sync_connection_id st' \<longleftrightarrow> sync_generation st = sync_generation st'"
  using show_nat_digits [of "sync_generation st"] show_nat_digits [of "sync_generation st'"]
  by (auto simp: sync_connection_id_def Let_def show_nat_inj str_simps)

lemma sync_generation_removed: "sync_generation (fold remove_file rebuilt_files st) = sync_generation st"
proof -
  have "content m (fold remove_file ns st) = content m st" if "m \<notin> set ns" for m ns
    using that
  proof (induction ns arbitrary: st)
    case (Cons n ns)
    have "map_of (filter (\<lambda>(k, _). k \<noteq> n) fs) m = map_of fs m" if "m \<noteq> n" for fs :: "(str \<times> str) list"
      using that by (induction fs) auto
    with Cons have "content m (remove_file n st) = content m st"
      by (cases st) (auto simp: content_def remove_file_def)
    with Cons show ?case by simp
  qed simp
  with sync_kept show ?thesis by (simp add: sync_generation_def number_in_def)
qed

text \<open>A rebuild that goes through moves the sync to a connection of a new name - unless the counter,
  a \<open>u32\<close>, stands at its end - so the position that outlived the rebuilt data is not used again.\<close>

theorem rebuild_moves_sync_on:
  assumes "rebuild_files r st = (st', True)" and "sync_generation st < u32_max"
  shows "sync_generation st' = sync_generation st + 1 \<and> sync_connection_id st' \<noteq> sync_connection_id st"
proof -
  from assms(1) obtain w where r: "r = RebuildDone Prepared w"
    and a: "advance_sync_connection w (created (fold remove_file rebuilt_files st)) = (st', True)"
    by (auto simp: rebuild_files_def prepare_def split: rebuild_outcome.splits prepare_outcome.splits)
  have c: "sync_generation (created x) = sync_generation x" for x
    by (cases x) (simp_all add: sync_generation_def number_in_def content_def created_def)
  from a have "sync_generation st' = min u32_max (sync_generation st + 1)"
    unfolding advance_sync_connection_def c sync_generation_removed
    by (simp add: sync_generation_def number_in_write)
  with assms(2) have "sync_generation st' = sync_generation st + 1" by simp
  then show ?thesis by (simp add: sync_id_inj)
qed

theorem rebuild_moves_sync_on_witness:
  "sync_connection_id (fst (rebuild_files (RebuildDone Prepared Written) (store (disk (core_in 1 Session)))))
     \<noteq> sync_connection_id (store (disk (core_in 1 Session)))"
proof -
  have "rebuild_files (RebuildDone Prepared Written) (store (disk (core_in 1 Session)))
      = (fst (rebuild_files (RebuildDone Prepared Written) (store (disk (core_in 1 Session)))), True)"
    by (simp add: rebuild_files_def prepare_def core_in_def created_def advance_sync_connection_def write_file_def
        split: option.split)
  moreover have "sync_generation (store (disk (core_in 1 Session))) < u32_max"
    by (simp add: sync_generation_def number_in_def content_def core_in_def marker_def sync_connection_file_def
        u32_max_def str_simps)
  ultimately show ?thesis by (blast dest: rebuild_moves_sync_on)
qed

text \<open>Every store moves on once and only once: after a migration that went through, another one, on
  the next start, changes no number any more.\<close>

theorem migrate_once:
  assumes "migrate_sync_connection w w' st = (st', True)"
  shows "sync_epoch st' = sync_epoch_now \<and> sync_connection_file \<in> set (file_names st')
    \<and> sync_connection_id (fst (migrate_sync_connection v v' st')) = sync_connection_id st'"
proof -
  obtain st1 ok where e:
    "(if sync_connection_file \<in> set (file_names st) then
        if sync_epoch st < sync_epoch_now then advance_sync_connection w st else (st, True)
      else let g = (if lit ''matrix-sdk-state.sqlite3'' \<in> set (file_names st) then 2 else 1)
           in write_file w sync_connection_file (show_nat g) st) = (st1, ok)" by fastforce
  with assms have ok: "ok" and w2: "write_file w' sync_epoch_file (show_nat sync_epoch_now) st1 = (st', True)"
    by (auto simp: migrate_sync_connection_def split: if_splits)
  have "sync_connection_file \<in> set (file_names st1)"
    using e ok names_write [of w sync_connection_file _ st st1 True] write_ok [of w sync_connection_file _ st]
    by (auto simp: advance_sync_connection_def Let_def split: if_splits) (metis snd_conv)+
  then have n: "sync_connection_file \<in> set (file_names st')" using names_write [OF w2] by auto
  have ep: "sync_epoch st' = sync_epoch_now"
    using number_in_write [OF w2] by (simp add: sync_epoch_def sync_epoch_now_def u32_max_def)
  have "sync_generation (fst (write_file v' sync_epoch_file t st')) = sync_generation st'" for t
    by (cases "write_file v' sync_epoch_file t st'")
       (simp add: sync_generation_def number_in_def content_write dot_names(4))
  then have "sync_connection_id (fst (migrate_sync_connection v v' st')) = sync_connection_id st'"
    using n ep by (simp add: migrate_sync_connection_def sync_id_inj)
  with n ep show ?thesis by blast
qed

theorem migrate_once_witness:
  "sync_connection_id (fst (migrate_sync_connection Written Written
     (fst (migrate_sync_connection Written Written (store (disk (core_in 1 Session)))))))
   = sync_connection_id (fst (migrate_sync_connection Written Written (store (disk (core_in 1 Session)))))"
proof -
  have "snd (migrate_sync_connection Written Written (store (disk (core_in 1 Session))))" by code_simp
  then have "migrate_sync_connection Written Written (store (disk (core_in 1 Session)))
      = (fst (migrate_sync_connection Written Written (store (disk (core_in 1 Session)))), True)"
    by (metis prod.collapse)
  then show ?thesis by (rule migrate_once [THEN conjunct2, THEN conjunct2])
qed

end
