(* ===== verification/Text_Safety.thy ===== *)
theory Text_Safety
  imports Rust_Text
begin

text \<open>
  \<open>src/core/src/text.rs\<close>: text that came from someone else - direction controls removed, file names
  made safe to write, and identifiers blanked out of what goes into a log.
\<close>

section \<open>Direction controls\<close>

definition is_bidi_control :: "nat \<Rightarrow> bool" where
  "is_bidi_control c \<longleftrightarrow> c = 0x061C \<or> c = 0x200E \<or> c = 0x200F
     \<or> (0x202A \<le> c \<and> c \<le> 0x202E) \<or> (0x2066 \<le> c \<and> c \<le> 0x2069)"

definition strip_bidi :: "str \<Rightarrow> str" where
  "strip_bidi s =
     (if \<not> list_ex is_bidi_control s then s else filter (\<lambda>c. \<not> is_bidi_control c) s)"

lemma strip_bidi_eq: "strip_bidi s = filter (\<lambda>c. \<not> is_bidi_control c) s"
  by (auto simp: strip_bidi_def list_ex_iff filter_id_conv)

section \<open>File names\<close>

text \<open>\<open>char::is_control\<close>: the category Cc.\<close>

definition is_control :: "nat \<Rightarrow> bool" where
  "is_control c \<longleftrightarrow> c < 32 \<or> (127 \<le> c \<and> c \<le> 159)"

definition separator :: "nat \<Rightarrow> bool" where
  "separator c \<longleftrightarrow> c = 47 \<or> c = 92"

definition name_max :: nat where
  "name_max = 120"

definition safe_file_name :: "str \<Rightarrow> str" where
  "safe_file_name name =
     (let base = last (split_on separator (strip_bidi name));
          base = trim (filter (\<lambda>c. \<not> is_control c) base)
      in if base = [] \<or> base = lit ''.'' \<or> base = lit ''..'' then []
         else if length base \<le> name_max then base
         else take name_max base)"

section \<open>Identifiers in log lines\<close>

definition edge_char :: "nat \<Rightarrow> bool" where
  "edge_char c \<longleftrightarrow> c \<in> set (lit ''(),;:.'' @ [34, 39] @ lit ''[]{}<>'')"

definition inner_char :: "nat \<Rightarrow> bool" where
  "inner_char c \<longleftrightarrow> c \<in> set (lit ''(),;:'' @ [34, 39] @ lit ''[]{}<>'')"

definition trim_matches :: "(nat \<Rightarrow> bool) \<Rightarrow> str \<Rightarrow> str" where
  "trim_matches P s = rev (dropWhile P (rev (dropWhile P s)))"

definition is_url :: "str \<Rightarrow> bool" where
  "is_url t \<longleftrightarrow> contains (lit ''://'') t"

definition is_matrix_id :: "str \<Rightarrow> bool" where
  "is_matrix_id t \<longleftrightarrow> list_ex (\<lambda>c. c \<in> set (lit ''@!#$+'')) t \<and> utf8_len t \<ge> 3"

definition is_path :: "str \<Rightarrow> bool" where
  "is_path t \<longleftrightarrow> length (filter (\<lambda>c. c = 47) t) \<ge> 2"

definition host_label_ok :: "str \<Rightarrow> bool" where
  "host_label_ok l \<longleftrightarrow> l \<noteq> [] \<and> list_all (\<lambda>c. is_alnum c \<or> c = 45 \<or> c = 95) l \<and> 95 \<notin> set (tl l)"

definition is_hostname :: "str \<Rightarrow> bool" where
  "is_hostname t =
     (let labels = split_on (\<lambda>c. c = 46) (hd (split_on (\<lambda>c. c = 58) t)); end_label = last labels
      in length labels \<ge> 2 \<and> list_all host_label_ok labels
         \<and> (length end_label \<ge> 2 \<and> list_all is_alpha end_label \<or> list_all is_digit end_label))"

definition is_error_code :: "str \<Rightarrow> bool" where
  "is_error_code t \<longleftrightarrow> utf8_len t \<ge> 3 \<and> list_all (\<lambda>c. is_upper c \<or> c = 95 \<or> is_digit c) t \<and> 95 \<in> set t"

text \<open>\<open>split_once('_')\<close>: before and after the first underscore.\<close>

definition is_token :: "str \<Rightarrow> bool" where
  "is_token t \<longleftrightarrow> \<not> is_error_code t \<and> utf8_len t > 12 \<and>
     (case index_of [95] t of None \<Rightarrow> False
      | Some i \<Rightarrow> (let prefix = take i t; rest = drop (i + 1) t
                   in utf8_len prefix \<le> 4 \<and> prefix \<noteq> [] \<and> list_all is_alpha prefix
                      \<and> utf8_len rest \<ge> 8 \<and> list_all (\<lambda>c. is_alnum c \<or> c = 95) rest))"

definition is_blob :: "str \<Rightarrow> bool" where
  "is_blob t \<longleftrightarrow> \<not> is_error_code t \<and> utf8_len t \<ge> 32
     \<and> list_all (\<lambda>c. is_alnum c \<or> c \<in> set (lit ''+/=-_.'')) t"

definition identifies_somebody :: "str \<Rightarrow> bool" where
  "identifies_somebody candidate =
     (let t = trim_matches edge_char candidate
      in if t = [] then False
         else is_url t \<or> is_matrix_id t \<or> is_path t \<or> is_hostname t \<or> is_token t \<or> is_blob t)"

definition named_value :: "str \<Rightarrow> bool" where
  "named_value w \<longleftrightarrow> contains (lit ''_id='') w \<or> contains (lit ''token='') w"

definition scrub_word :: "str \<Rightarrow> str" where
  "scrub_word w =
     (if named_value w \<or> list_ex identifies_somebody (split_on inner_char w) then lit ''<id>'' else w)"

fun join :: "str \<Rightarrow> str list \<Rightarrow> str" where
  "join sep [] = []"
| "join sep [w] = w"
| "join sep (w # v # ws) = w @ sep @ join sep (v # ws)"

definition scrub_ids :: "str \<Rightarrow> str" where
  "scrub_ids s = join [32] (map scrub_word (split_whitespace s))"

section \<open>Lemmas\<close>

lemma last_split_no_sep: "c \<in> set (last (split_on P s)) \<Longrightarrow> \<not> P c \<and> c \<in> set s"
  using split_on_sep split_on_chars by (metis last_in_set split_on_nonempty subsetD)

lemma set_trim: "set (trim s) \<subseteq> set s"
  by (auto simp: trim_def dest!: set_dropWhileD)

lemma trim_ends: "trim s \<noteq> [] \<Longrightarrow> \<not> rust_space (hd (trim s)) \<and> \<not> rust_space (last (trim s))"
proof -
  assume n: "trim s \<noteq> []"
  let ?d = "dropWhile rust_space s"
  have "\<not> rust_space (last (trim s))"
    using n hd_dropWhile [of rust_space "rev ?d"] by (simp add: trim_def last_rev)
  moreover have "\<not> rust_space (hd (trim s))"
  proof -
    obtain t where t: "?d = trim s @ t"
      by (metis trim_def rev_append rev_rev_ident takeWhile_dropWhile_id)
    with n have "hd (trim s) = hd ?d" by (simp add: hd_append)
    moreover have "?d \<noteq> []" using t n by auto
    ultimately show ?thesis using hd_dropWhile by metis
  qed
  ultimately show ?thesis by blast
qed

text \<open>A list of words that hold no white space survives joining and splitting.\<close>

lemma split_on_app:
  "list_all (\<lambda>c. \<not> P c) w \<Longrightarrow> P x \<Longrightarrow> split_on P (w @ x # s) = w # split_on P s"
  by (induction w) auto

lemma split_join:
  "list_all (\<lambda>w. w \<noteq> [] \<and> list_all (\<lambda>c. \<not> rust_space c) w) ws \<Longrightarrow> split_whitespace (join [32] ws) = ws"
proof (induction "[32 :: nat]" ws rule: join.induct [case_names nil one more])
  case (one w)
  then show ?case using split_on_none [of w rust_space] by (auto simp: split_whitespace_def list_all_iff)
next
  case (more w v ws)
  have "rust_space 32" by (simp add: rust_space_def)
  with more show ?case
    using split_on_app [of rust_space w 32 "join [32] (v # ws)"] by (auto simp: split_whitespace_def)
qed (simp add: split_whitespace_def)

lemma words_split: "list_all (\<lambda>w. w \<noteq> [] \<and> list_all (\<lambda>c. \<not> rust_space c) w) (split_whitespace s)"
  by (auto simp: split_whitespace_def list_all_iff dest: split_on_sep)

lemma placeholder: "scrub_word (lit ''<id>'') = lit ''<id>''"
  by code_simp

lemma scrub_word_cases: "scrub_word w = lit ''<id>'' \<or> scrub_word w = w"
  by (simp add: scrub_word_def)

lemma scrub_word_idem: "scrub_word (scrub_word w) = scrub_word w"
  using scrub_word_cases [of w] placeholder by metis

lemma scrub_word_plain:
  "w \<noteq> [] \<and> list_all (\<lambda>c. \<not> rust_space c) w \<Longrightarrow> scrub_word w \<noteq> [] \<and> list_all (\<lambda>c. \<not> rust_space c) (scrub_word w)"
  using scrub_word_cases [of w] by (auto simp: str_simps rust_space_def)

lemma scrub_split: "split_whitespace (scrub_ids s) = map scrub_word (split_whitespace s)"
  using words_split [of s] scrub_word_plain
  by (simp add: scrub_ids_def split_join list_all_length)

text \<open>A word that names nobody: the placeholder, or one with no telling part.\<close>

definition clean_word :: "str \<Rightarrow> bool" where
  "clean_word w \<longleftrightarrow> w = lit ''<id>''
     \<or> \<not> named_value w \<and> list_all (\<lambda>p. \<not> identifies_somebody p) (split_on inner_char w)"

section \<open>Properties\<close>

text \<open>A file name written from a sender's name stays in its folder and shows what it is: no path
  separator, no control character, nothing that reorders text, at most 120 characters, never the
  directory itself or its parent, no white space in front; and all its characters come from the
  name's last component.\<close>

theorem safe_file_name_ok:
  "list_all (\<lambda>c. \<not> separator c \<and> \<not> is_control c \<and> \<not> is_bidi_control c) (safe_file_name name)
   \<and> length (safe_file_name name) \<le> name_max
   \<and> safe_file_name name \<noteq> lit ''.'' \<and> safe_file_name name \<noteq> lit ''..''
   \<and> takeWhile rust_space (safe_file_name name) = []
   \<and> set (safe_file_name name) \<subseteq> set (last (split_on separator (strip_bidi name)))"
proof -
  define part where "part = last (split_on separator (strip_bidi name))"
  define base where "base = trim (filter (\<lambda>c. \<not> is_control c) part)"
  have sub: "set base \<subseteq> set part" using set_trim [of "filter (\<lambda>c. \<not> is_control c) part"] by (auto simp: base_def)
  have ok: "\<not> separator c \<and> \<not> is_control c \<and> \<not> is_bidi_control c" if "c \<in> set base" for c
    using that set_trim [of "filter (\<lambda>c. \<not> is_control c) part"] last_split_no_sep [of c separator "strip_bidi name"]
    by (auto simp: base_def part_def strip_bidi_eq)
  have n: "safe_file_name name = (if base = [] \<or> base = lit ''.'' \<or> base = lit ''..'' then [] else take name_max base)"
    by (auto simp: safe_file_name_def Let_def base_def part_def)
  have len: "take name_max base = b \<Longrightarrow> length b < name_max \<Longrightarrow> base = b" for b by (auto simp: min_def split: if_splits)
  have "take name_max base \<noteq> lit ''.''" "take name_max base \<noteq> lit ''..''" if "base \<noteq> lit ''.''" "base \<noteq> lit ''..''"
    using len [of "lit ''.''"] len [of "lit ''..''"] that by (auto simp: name_max_def)
  moreover have "list_all (\<lambda>c. \<not> separator c \<and> \<not> is_control c \<and> \<not> is_bidi_control c) (take name_max base)"
    using ok by (auto simp: list_all_iff dest: in_set_takeD)
  moreover have "takeWhile rust_space (take name_max base) = []"
  proof (cases base)
    case (Cons c cs)
    then have "\<not> rust_space c" using trim_ends [of "filter (\<lambda>c. \<not> is_control c) part"] by (simp add: base_def)
    with Cons show ?thesis by (simp add: name_max_def)
  qed simp
  moreover have "set (take name_max base) \<subseteq> set part" using sub by (auto dest: in_set_takeD)
  ultimately show ?thesis
    by (simp add: n part_def [symmetric] str_simps)
qed

text \<open>What has gone through the scrubber names nobody any more: every word of the result is the
  placeholder or one in which no part identifies somebody, the words keep their number and order, and
  scrubbing twice is scrubbing once.\<close>

theorem scrub_ids_clean:
  "list_all clean_word (split_whitespace (scrub_ids s))
   \<and> length (split_whitespace (scrub_ids s)) = length (split_whitespace s)
   \<and> scrub_ids (scrub_ids s) = scrub_ids s"
proof -
  have "list_all clean_word (split_whitespace (scrub_ids s))"
    unfolding scrub_split by (auto simp: clean_word_def list_all_iff scrub_word_def list_ex_iff)
  moreover have "scrub_ids (scrub_ids s) = scrub_ids s"
    using scrub_split [of s] by (simp add: scrub_ids_def [of "scrub_ids s"] comp_def scrub_word_idem)
       (simp add: scrub_ids_def)
  ultimately show ?thesis by (simp add: scrub_split)
qed

end
