(* ===== verification/Markup.thy ===== *)
theory Markup
  imports Text_Safety
begin

text \<open>
  \<open>src/core/src/markup.rs\<close>: a formatted body is parsed and sanitised by a library (a parameter that
  yields the tree), walked, and written again in the markup that Qt's styled text can draw.  The
  writer is explicit state: what was written, whether any of it is markup, and whether the cap was
  hit.
\<close>

section \<open>The tree and the writer\<close>

datatype node =
    TextNode str
  | Element str "(str \<times> str) list" "node list"
  | OtherNode "node list"

record ctx =
  preformatted :: bool
  in_anchor :: bool
  monospace :: bool
  struck :: bool
  depth :: nat

definition default_ctx :: ctx where
  "default_ctx = \<lparr>preformatted = False, in_anchor = False, monospace = False, struck = False, depth = 0\<rparr>"

record writer =
  out :: str
  markup :: bool
  truncated :: bool

definition default_writer :: writer where
  "default_writer = \<lparr>out = [], markup = False, truncated = False\<rparr>"

definition max_input :: nat where
  "max_input = 64 * 1024"

definition max_output :: nat where
  "max_output = 96 * 1024"

definition max_tags :: nat where
  "max_tags = 4096"

definition max_depth :: nat where
  "max_depth = 64"

definition br :: str where
  "br = lit ''<br>''"

definition nbsp :: str where
  "nbsp = lit ''&nbsp;''"

section \<open>Writing\<close>

definition push_raw :: "str \<Rightarrow> writer \<Rightarrow> writer" where
  "push_raw s w =
     (if truncated w then w
      else if utf8_len (out w) + utf8_len s > max_output then w\<lparr>truncated := True\<rparr>
      else w\<lparr>out := out w @ s\<rparr>)"

definition push_tag :: "str \<Rightarrow> writer \<Rightarrow> writer" where
  "push_tag s w = push_raw s (w\<lparr>markup := True\<rparr>)"

definition at_line_start :: "writer \<Rightarrow> bool" where
  "at_line_start w \<longleftrightarrow> out w = [] \<or> ends_with br (out w)"

definition at_indent :: "writer \<Rightarrow> bool" where
  "at_indent w \<longleftrightarrow> at_line_start w \<or> ends_with nbsp (out w)"

definition block_break :: "writer \<Rightarrow> writer" where
  "block_break w = (if out w = [] \<or> at_line_start w then w else push_tag br w)"

definition strike_overlay :: str where
  "strike_overlay = [0x336]"

definition carries_overlay :: "nat \<Rightarrow> bool" where
  "carries_overlay c \<longleftrightarrow> \<not> (c = 0x200D \<or> c = 0xFE0E \<or> c = 0xFE0F \<or> (0x300 \<le> c \<and> c \<le> 0x36F)
     \<or> (0x2190 \<le> c \<and> c \<le> 0x2BFF) \<or> (0x1F000 \<le> c \<and> c \<le> 0x1FAFF)) \<and> c \<noteq> 10 \<and> c \<noteq> 13"

definition push_char :: "ctx \<Rightarrow> nat \<Rightarrow> writer \<Rightarrow> writer" where
  "push_char x c w =
     (if is_bidi_control c then w
      else
        (let (w, drawn) =
           (if c = 38 then (push_raw (lit ''&amp;'') w, True)
            else if c = 60 then (push_raw (lit ''&lt;'') w, True)
            else if c = 62 then (push_raw (lit ''&gt;'') w, True)
            else if c = 10 \<and> preformatted x then (push_tag br w, False)
            else if c = 32 \<and> preformatted x \<and> at_indent w then (push_raw nbsp w, False)
            else if is_bidi_control c then (w, False)
            else (push_raw [c] w, True))
         in if struck x \<and> drawn \<and> carries_overlay c then push_raw strike_overlay w else w))"

definition push_text :: "ctx \<Rightarrow> str \<Rightarrow> writer \<Rightarrow> writer" where
  "push_text x s w = fold (push_char x) s w"

text \<open>\<open>finish\<close> drops trailing line breaks.\<close>

function strip_br :: "str \<Rightarrow> str" where
  "strip_br s = (if ends_with br s then strip_br (take (length s - 4) s) else s)"
  by pat_completeness auto
termination
  by (relation "measure length") (auto simp: ends_with_iff br_def)

declare strip_br.simps [simp del]

definition finish :: "writer \<Rightarrow> str" where
  "finish w = strip_br (out w)"

section \<open>Addresses\<close>

definition attribute :: "(str \<times> str) list \<Rightarrow> str \<Rightarrow> str option" where
  "attribute as name = map_of as name"

definition https :: str where
  "https = lit ''https://''"

definition http :: str where
  "http = lit ''http://''"

definition has_scheme :: "str \<Rightarrow> str \<Rightarrow> bool" where
  "has_scheme scheme href \<longleftrightarrow> length scheme \<le> length href
     \<and> map ascii_lower (take (length scheme) href) = scheme"

definition lower_web_scheme :: "str \<Rightarrow> str" where
  "lower_web_scheme href =
     (if has_scheme https href then https @ drop (length https) href
      else if has_scheme http href then http @ drop (length http) href
      else href)"

definition is_web_url :: "str \<Rightarrow> bool" where
  "is_web_url href =
     (if \<not> list_all (\<lambda>c. c < 128) href then False
      else if list_ex (\<lambda>c. c \<in> {34, 39, 60, 62, 96} \<or> is_control c) href then False
      else
        (case (if starts_with https href then Some (drop (length https) href)
               else if starts_with http href then Some (drop (length http) href) else None) of
           None \<Rightarrow> False
         | Some rest \<Rightarrow>
             (let host = takeWhile (\<lambda>c. c \<notin> {47, 63, 35}) rest
              in host \<noteq> [] \<and> \<not> list_ex rust_space host \<and> 64 \<notin> set host)))"

section \<open>Elements\<close>

definition inline_wrapper :: "str \<Rightarrow> (str \<times> str) option" where
  "inline_wrapper name =
     (if name \<in> {lit ''b'', lit ''strong''} then Some (lit ''<b>'', lit ''</b>'')
      else if name \<in> {lit ''i'', lit ''em'', lit ''cite'', lit ''dfn'', lit ''var''} then Some (lit ''<i>'', lit ''</i>'')
      else if name \<in> {lit ''u'', lit ''ins''} then Some (lit ''<u>'', lit ''</u>'')
      else if name = lit ''sub'' then Some (lit ''<sub>'', lit ''</sub>'')
      else if name = lit ''sup'' then Some (lit ''<sup>'', lit ''</sup>'')
      else if name \<in> {lit ''code'', lit ''kbd'', lit ''samp'', lit ''tt''} then Some (lit ''<code>'', lit ''</code>'')
      else None)"

text \<open>The pictures of the rule, the quote bar, the bullet, the cell bar and the spoiler.\<close>

definition rule_text :: str where
  "rule_text = [0x2014, 0x2014, 0x2014, 0x2014]"

definition quote_bar :: str where
  "quote_bar = [0x258F, 32]"

definition bullet :: str where
  "bullet = [0x2022, 32]"

definition cell_bar :: str where
  "cell_bar = [32, 32, 0x2502, 32, 32]"

definition spoiler_mark :: str where
  "spoiler_mark = [0x25A8, 32]"

definition blocks :: "str list" where
  "blocks = [lit ''p'', lit ''div'', lit ''section'', lit ''article'', lit ''aside'', lit ''caption'', lit ''summary'', lit ''details'']"

definition headings :: "str list" where
  "headings = [lit ''h1'', lit ''h2'', lit ''h3'', lit ''h4'', lit ''h5'', lit ''h6'']"

definition push_href :: "str \<Rightarrow> writer \<Rightarrow> writer" where
  "push_href href w = fold (\<lambda>c w. push_raw
     (if c = 60 then lit ''&lt;'' else if c = 62 then lit ''&gt;''
      else if c = 34 then lit ''&quot;'' else if c = 39 then lit ''&#39;'' else [c]) w) href w"

definition item_number :: "bool \<Rightarrow> (str \<times> str) list \<Rightarrow> nat" where
  "item_number ordered as =
     (if ordered then
        (case attribute as (lit ''start'') of None \<Rightarrow> 1
         | Some start \<Rightarrow> (case parse_uint u64_max start of None \<Rightarrow> 1 | Some n \<Rightarrow> n))
      else 0)"

definition push_item :: "bool \<Rightarrow> nat \<Rightarrow> writer \<Rightarrow> writer" where
  "push_item ordered number w =
     push_tag (if ordered then show_nat number @ lit ''. '' else bullet) (block_break w)"

definition image_text :: "(str \<times> str) list \<Rightarrow> str" where
  "image_text as =
     (case attribute as (lit ''alt'') of Some s \<Rightarrow> s
      | None \<Rightarrow> (case attribute as (lit ''title'') of Some s \<Rightarrow> s | None \<Rightarrow> []))"

definition quote :: "writer \<Rightarrow> writer \<Rightarrow> writer" where
  "quote quoted w =
     (let text = finish quoted
      in if text = [] then w
         else push_raw (replace_str br (br @ quote_bar) text)
                (push_tag quote_bar (w\<lparr>markup := markup w \<or> markup quoted\<rparr>)))"

definition anchor_href :: "ctx \<Rightarrow> (str \<times> str) list \<Rightarrow> str option" where
  "anchor_href x as =
     (let href = lower_web_scheme (case attribute as (lit ''href'') of None \<Rightarrow> [] | Some h \<Rightarrow> h)
      in if \<not> in_anchor x \<and> is_web_url href then Some href else None)"

text \<open>
  One branch per group of elements, in the order of the source.  Every call of the walk goes one
  level down, \<open>inner\<close>.
\<close>

fun write_node :: "ctx \<Rightarrow> node \<Rightarrow> writer \<Rightarrow> writer"
  and write_nodes :: "ctx \<Rightarrow> node list \<Rightarrow> writer \<Rightarrow> writer"
  and write_element :: "ctx \<Rightarrow> node \<Rightarrow> writer \<Rightarrow> writer"
  and write_items :: "ctx \<Rightarrow> bool \<Rightarrow> nat \<Rightarrow> node list \<Rightarrow> writer \<Rightarrow> writer" where
  "write_node x n w =
     (if truncated w \<or> depth x > max_depth then w
      else (case n of
              TextNode s \<Rightarrow> push_text x s w
            | Element name as cs \<Rightarrow> write_element x (Element name as cs) w
            | OtherNode cs \<Rightarrow> write_nodes (x\<lparr>depth := depth x + 1\<rparr>) cs w))"
| "write_nodes x [] w = w"
| "write_nodes x (n # ns) w = write_nodes x ns (write_node x n w)"
| "write_element x (TextNode s) w = w"
| "write_element x (OtherNode cs) w = w"
| "write_element x (Element name as cs) w =
     (let inner = x\<lparr>depth := depth x + 1\<rparr>
      in if name \<in> {lit ''s'', lit ''del'', lit ''strike''} then
           write_nodes (inner\<lparr>struck := True\<rparr>) cs (w\<lparr>markup := True\<rparr>)
         else (case inline_wrapper name of
           Some (open, close) \<Rightarrow>
             if monospace x \<and> open = lit ''<code>'' then write_nodes inner cs w
             else push_tag close
                    (write_nodes (inner\<lparr>monospace := (open = lit ''<code>'')\<rparr>) cs (push_tag open w))
         | None \<Rightarrow>
             if name = lit ''br'' then push_tag br w
             else if name \<in> set blocks then block_break (write_nodes inner cs (block_break w))
             else if name \<in> set headings then
               block_break (push_tag (lit ''</b>'')
                 (write_nodes inner cs (push_tag (lit ''<b>'') (block_break w))))
             else if name = lit ''hr'' then block_break (push_tag rule_text (block_break w))
             else if name = lit ''ul'' \<or> name = lit ''ol'' then
               block_break (write_items inner (name = lit ''ol'') (item_number (name = lit ''ol'') as) cs (block_break w))
             else if name = lit ''li'' then block_break (write_nodes inner cs (block_break w))
             else if name = lit ''blockquote'' then
               block_break (quote (write_nodes inner cs default_writer) (block_break w))
             else if name = lit ''pre'' then
               block_break (push_tag (lit ''</pre>'')
                 (write_nodes (inner\<lparr>preformatted := True, monospace := True\<rparr>) cs
                   (push_tag (lit ''<pre>'') (block_break w))))
             else if name = lit ''a'' then
               (case anchor_href inner as of
                  None \<Rightarrow> write_nodes (inner\<lparr>depth := depth inner + 1\<rparr>) cs w
                | Some href \<Rightarrow>
                    push_tag (lit ''</a>'')
                      (write_nodes (inner\<lparr>in_anchor := True, depth := depth inner + 1\<rparr>) cs
                        (push_tag ([34] @ lit ''>'') (push_href href (push_tag (lit ''<a href='' @ [34]) w)))))
             else if name = lit ''tr'' then block_break (write_nodes inner cs (block_break w))
             else if name = lit ''td'' \<or> name = lit ''th'' then
               write_nodes inner cs (if \<not> at_line_start w then push_tag cell_bar w else w)
             else if name = lit ''img'' then
               (if image_text as = [] then w else push_text x (image_text as) w)
             else if name = lit ''span'' then
               write_nodes inner cs
                 (if attribute as (lit ''data-mx-spoiler'') \<noteq> None then push_tag spoiler_mark w else w)
             else write_nodes inner cs w))"
| "write_items x ordered number [] w = w"
| "write_items x ordered number (n # ns) w =
     (case n of
        Element name as cs \<Rightarrow>
          if name = lit ''li'' then
            write_items x ordered (if ordered then min u64_max (number + 1) else number) ns
              (write_nodes x cs (push_item ordered number w))
          else write_items x ordered number ns (write_node x n w)
      | _ \<Rightarrow> write_items x ordered number ns (write_node x n w))"

section \<open>The whole body\<close>

text \<open>\<open>nesting_is_sane\<close>: over the string from position \<open>i\<close> on.\<close>

fun nesting_loop :: "int \<Rightarrow> nat \<Rightarrow> str \<Rightarrow> bool" where
  "nesting_loop d tags [] = True"
| "nesting_loop d tags (c # s) =
     (if c \<noteq> 60 then nesting_loop d tags s
      else if tags + 1 > max_tags then False
      else if starts_with [47] s then nesting_loop (d - 1) (tags + 1) s
      else if \<not> starts_with (lit ''<!'') (c # s) then
        (if d + 1 > int max_depth then False else nesting_loop (d + 1) (tags + 1) s)
      else nesting_loop d (tags + 1) s)"

definition nesting_is_sane :: "str \<Rightarrow> bool" where
  "nesting_is_sane html = nesting_loop 0 0 html"

text \<open>\<open>parse\<close> stands for the library's parser and sanitiser.\<close>

definition to_styled_text :: "(str \<Rightarrow> node list) \<Rightarrow> str \<Rightarrow> str option" where
  "to_styled_text parse html =
     (if html = [] \<or> utf8_len html > max_input then None
      else if \<not> nesting_is_sane html then None
      else (let w = write_nodes default_ctx (parse html) default_writer; text = finish w
            in if text = [] \<or> \<not> markup w then None else Some text))"

end
