(* ===== verification/Markup_Grammar.thy ===== *)
theory Markup_Grammar
  imports Markup Tokens
begin

text \<open>
  The language of the styled text: text without angle brackets, line breaks, the seven wrapping tags
  properly nested, and anchors to web addresses that do not nest.  What the writer does is described
  as growing its output by such a piece, within a number of bytes.
\<close>

section \<open>The grammar\<close>

definition wraps :: "str list" where
  "wraps = [lit ''b'', lit ''i'', lit ''u'', lit ''sub'', lit ''sup'', lit ''code'', lit ''pre'']"

definition plain_text :: "str \<Rightarrow> bool" where
  "plain_text s \<longleftrightarrow> s \<noteq> [] \<and> no_angle s"

inductive styled :: "bool \<Rightarrow> tok list \<Rightarrow> bool" where
  styled_nil: "styled a []"
| styled_text: "styled a us \<Longrightarrow> plain_text s \<Longrightarrow> styled a (us @ [T s])"
| styled_br: "styled a us \<Longrightarrow> styled a (us @ [G (lit ''br'')])"
| styled_wrap: "styled a us \<Longrightarrow> t \<in> set wraps \<Longrightarrow> styled a vs \<Longrightarrow> styled a (us @ G t # vs @ [G (47 # t)])"
| styled_anchor: "styled False us \<Longrightarrow> is_web_url h \<Longrightarrow> styled True vs
    \<Longrightarrow> styled False (us @ G (a_tag h) # vs @ [G (lit ''/a'')])"

inductive_cases styled_snoc: "styled a (us @ [t])"

lemma styled_append: "styled a vs \<Longrightarrow> styled a us \<Longrightarrow> styled a (us @ vs)"
proof (induction rule: styled.induct)
  case (styled_text a vs s)
  then show ?case using styled.styled_text [of a "us @ vs" s] by simp
next
  case (styled_br a vs)
  then show ?case using styled.styled_br [of a "us @ vs"] by simp
next
  case (styled_wrap a vs t ws)
  then show ?case using styled.styled_wrap [of a "us @ vs" t ws] by simp
next
  case (styled_anchor vs h ws)
  then show ?case using styled.styled_anchor [of "us @ vs" h ws] by simp
qed simp

lemma styled_inside: "styled a us \<Longrightarrow> a \<Longrightarrow> styled False us"
  by (induction rule: styled.induct) (auto intro: styled.intros)

lemma styled_weaken: "styled True us \<Longrightarrow> styled a us"
  using styled_inside [of True us] by (cases a) auto

lemma styled_one: "plain_text s \<Longrightarrow> styled a [T s]" "styled a [G (lit ''br'')]"
  using styled_text [OF styled_nil] styled_br [OF styled_nil] by auto

lemma styled_wrapped: "t \<in> set wraps \<Longrightarrow> styled a vs \<Longrightarrow> styled a (G t # vs @ [G (47 # t)])"
  using styled_wrap [OF styled_nil] by simp

lemma styled_link: "is_web_url h \<Longrightarrow> styled True vs \<Longrightarrow> styled False (G (a_tag h) # vs @ [G (lit ''/a'')])"
  using styled_anchor [OF styled_nil] by simp

section \<open>Web addresses\<close>

lemma web_url_chars: "is_web_url h \<Longrightarrow> c \<in> set h \<Longrightarrow> 32 \<le> c \<and> c < 127 \<and> c \<notin> {34, 39, 60, 62, 96}"
proof -
  assume w: "is_web_url h" and c: "c \<in> set h"
  from w c have "c < 128 \<and> c \<notin> {34, 39, 60, 62, 96} \<and> \<not> is_control c"
    by (auto simp: is_web_url_def list_all_iff list_ex_iff split: if_splits)
  then show ?thesis by (auto simp: is_control_def)
qed

lemma web_url_tag: "is_web_url h \<Longrightarrow> tok_ok (G (a_tag h))"
  by (rule tok_ok_a_tag) (auto simp: no_angle_def dest: web_url_chars)

section \<open>What the grammar gives\<close>

text \<open>The program's own tags: the line break, the seven pairs, and the two of an anchor.\<close>

definition own_tag :: "str \<Rightarrow> bool" where
  "own_tag g \<longleftrightarrow> g \<in> set (lit ''br'' # lit ''/a'' # wraps @ map ((#) 47) wraps) \<or> g = a_tag (href_of g) \<and> is_web_url (href_of g)"

definition own_tags_only :: "tok list \<Rightarrow> bool" where
  "own_tags_only us \<longleftrightarrow> list_all (\<lambda>t. case t of T s \<Rightarrow> no_angle s | G g \<Rightarrow> own_tag g) us"

lemma own_tags_append [simp]: "own_tags_only (us @ vs) \<longleftrightarrow> own_tags_only us \<and> own_tags_only vs"
  by (simp add: own_tags_only_def)

lemma own_anchor: "is_web_url h \<Longrightarrow> own_tag (a_tag h)"
  by (simp add: own_tag_def)

lemma styled_own_tags: "styled a us \<Longrightarrow> own_tags_only us"
  by (induction rule: styled.induct)
     (auto simp: own_tags_only_def plain_text_def own_anchor, auto simp: own_tag_def)

lemma wraps_tags:
  assumes "t \<in> set wraps"
  shows "tok_ok (G t)" and "tok_ok (G (47 # t))" and "\<not> starts_with a_open t" and "t \<noteq> lit ''/a''"
    and "47 # t \<noteq> lit ''/a''" and "t \<noteq> lit ''br''" and "47 # t \<noteq> lit ''br''" and "t \<noteq> []"
  using assms by (auto simp: wraps_def a_open_eq no_angle_def str_simps)

lemma styled_toks_ok: "styled a us \<Longrightarrow> toks_ok us"
proof (induction rule: styled.induct)
  case (styled_wrap a us t vs)
  then show ?case using wraps_tags by simp
next
  case (styled_anchor us h vs)
  have "tok_ok (G (lit ''/a''))" by (simp add: a_open_eq no_angle_def str_simps)
  with styled_anchor web_url_tag [of h] show ?case by (simp del: tok_ok.simps)
qed (simp_all add: plain_text_def no_angle_def a_open_eq str_simps)

text \<open>Inside an anchor there is no anchor tag; outside they are closed and do not nest.\<close>

lemma anchors_ok_inside: "styled a us \<Longrightarrow> a \<Longrightarrow> anchors_ok b (us @ vs) = anchors_ok b vs"
proof (induction arbitrary: vs rule: styled.induct)
  case (styled_br a us)
  then show ?case by (simp add: a_open_eq str_simps)
next
  case (styled_wrap a us t ws)
  have "\<not> starts_with a_open (47 # t)" by (simp add: a_open_eq)
  with styled_wrap wraps_tags [OF styled_wrap(2)] show ?case by simp
qed simp_all

lemma anchors_ok_append: "styled a us \<Longrightarrow> anchors_ok False (us @ vs) = anchors_ok False vs"
proof (induction arbitrary: vs rule: styled.induct)
  case (styled_br a us)
  then show ?case by (simp add: a_open_eq str_simps)
next
  case (styled_wrap a us t ws)
  have "\<not> starts_with a_open (47 # t)" by (simp add: a_open_eq)
  with styled_wrap wraps_tags [OF styled_wrap(2)] show ?case by simp
next
  case (styled_anchor us h ws)
  have "starts_with a_open (a_tag h)" by (simp add: a_tag_def)
  moreover have "\<not> starts_with a_open (lit ''/a'')" by (simp add: a_open_eq str_simps)
  moreover have "anchors_ok True (ws @ G (lit ''/a'') # vs) = anchors_ok True (G (lit ''/a'') # vs)"
    using anchors_ok_inside [OF styled_anchor(3)] by blast
  ultimately show ?case using styled_anchor by simp
qed simp_all

lemma styled_anchors_ok: "styled a us \<Longrightarrow> anchors_ok False us"
  using anchors_ok_append [of a us "[]"] by simp

lemma styled_hrefs: "styled a us \<Longrightarrow> list_all is_web_url (tok_hrefs us)"
proof (induction rule: styled.induct)
  case (styled_br a us)
  then show ?case by (simp add: a_open_eq str_simps)
next
  case (styled_wrap a us t vs)
  have "\<not> starts_with a_open (47 # t)" by (simp add: a_open_eq)
  with styled_wrap wraps_tags(3) [OF styled_wrap(2)] show ?case by simp
next
  case (styled_anchor us h vs)
  have "starts_with a_open (a_tag h)" by (simp add: a_tag_def)
  moreover have "\<not> starts_with a_open (lit ''/a'')" by (simp add: a_open_eq str_simps)
  ultimately show ?case using styled_anchor by simp
qed (simp_all)

text \<open>Tags are closed in the order they were opened, \<open>br\<close> apart.\<close>

definition tag_name :: "str \<Rightarrow> str" where
  "tag_name g = takeWhile (\<lambda>c. c \<noteq> 32) g"

fun nested :: "str list \<Rightarrow> tok list \<Rightarrow> bool" where
  "nested st [] = (st = [])"
| "nested st (T s # ts) = nested st ts"
| "nested st (G g # ts) =
     (if g = lit ''br'' then nested st ts
      else case g of
        [] \<Rightarrow> False
      | c # n \<Rightarrow> if c = 47 then (case st of [] \<Rightarrow> False | t # st' \<Rightarrow> t = n \<and> nested st' ts)
                 else nested (tag_name g # st) ts)"

lemma nested_append: "styled a us \<Longrightarrow> nested st (us @ vs) = nested st vs"
proof (induction arbitrary: st vs rule: styled.induct)
  case (styled_wrap a us t ws)
  from styled_wrap(2) have t: "\<exists>c n. t = c # n \<and> c \<noteq> 47" "tag_name t = t" "t \<noteq> lit ''br''" "47 # t \<noteq> lit ''br''"
    by (auto simp: wraps_def tag_name_def str_simps)
  with styled_wrap show ?case by auto
next
  case (styled_anchor us h ws)
  have "tag_name (a_tag h) = [97]" "a_tag h \<noteq> lit ''br''" "\<exists>n. a_tag h = 97 # n" "lit ''/a'' = [47, 97]" "[47, 97] \<noteq> lit ''br''"
    by (simp_all add: tag_name_def a_tag_def a_open_eq str_simps)
  with styled_anchor show ?case by auto
qed simp_all

lemma styled_nested: "styled a us \<Longrightarrow> nested [] us"
  using nested_append [of a us "[]" "[]"] by simp

section \<open>Line breaks at the end\<close>

lemma br_eq: "br = [60, 98, 114, 62]" "br = render1 (G (lit ''br''))"
  by (simp_all add: br_def str_simps)

lemma styled_last:
  assumes "styled a us" and "us \<noteq> []"
  obtains vs s where "us = vs @ [T s]" "plain_text s" "styled a vs"
  | vs where "us = vs @ [G (lit ''br'')]" "styled a vs"
  | vs t where "us = vs @ [G (47 # t)]"
  using assms
proof (induction rule: styled.induct)
  case (styled_anchor us h vs)
  have "us @ G (a_tag h) # vs @ [G (lit ''/a'')] = (us @ G (a_tag h) # vs) @ [G (47 # [97])]" by (simp add: str_simps)
  with styled_anchor show ?case by blast
next
  case (styled_wrap a us t vs)
  have "us @ G t # vs @ [G (47 # t)] = (us @ G t # vs) @ [G (47 # t)]" by simp
  with styled_wrap show ?case by blast
qed auto

lemma ends_text: "plain_text s \<Longrightarrow> \<not> ends_with br (r @ s)"
proof
  assume s: "plain_text s" and e: "ends_with br (r @ s)"
  from e obtain t where "r @ s = (t @ [60, 98, 114]) @ [62]" by (auto simp: ends_with_iff br_eq)
  moreover from s obtain s' c where "s = s' @ [c]" "c \<noteq> 62"
    by (cases s rule: rev_cases) (auto simp: plain_text_def no_angle_def)
  ultimately show False by (metis append_assoc last_snoc)
qed

lemma ends_close: "60 \<notin> set t \<Longrightarrow> \<not> ends_with br (r @ 60 # 47 # t @ [62])"
proof
  assume t: "60 \<notin> set t" and "ends_with br (r @ 60 # 47 # t @ [62])"
  then obtain u where "(r @ [60] @ 47 # t) @ [62] = (u @ [60, 98, 114]) @ [62]"
    by (auto simp: ends_with_iff br_eq)
  then have "r @ [60] @ 47 # t = u @ [60, 98, 114]" by blast
  then have "rev (r @ [60] @ 47 # t) = rev (u @ [60, 98, 114])" by simp
  then have "rev t @ 47 # 60 # rev r = 114 # 98 # 60 # rev u" by simp
  then have "takeWhile (\<lambda>c. c \<noteq> 60) (rev t @ 47 # 60 # rev r) = [114, 98]" by simp
  moreover have "takeWhile (\<lambda>c. c \<noteq> 60) (rev t @ 47 # 60 # rev r) = rev t @ [47]"
    using t takeWhile_append2 [of "rev t" "\<lambda>c. c \<noteq> 60" "47 # 60 # rev r"] by auto
  ultimately have "last (rev t @ [47]) = last [114, 98 :: nat]" by simp
  then show False by simp
qed

lemma strip_styled: "styled a us \<Longrightarrow> \<exists>vs. strip_br (render us) = render vs \<and> styled a vs
    \<and> utf8_len (render vs) \<le> utf8_len (render us)"
proof (induction us rule: rev_induct)
  case Nil
  have "strip_br [] = []" by (subst strip_br.simps) (simp add: ends_with_iff br_eq)
  then show ?case by (auto intro!: exI [of _ "[]"] styled_nil)
next
  case (snoc t us)
  have keep: ?case if "\<not> ends_with br (render (us @ [t]))"
    using that snoc.prems by (subst strip_br.simps) (auto simp del: render_simps)
  consider (1) s where "t = T s" "plain_text s" "styled a us" | (2) "t = G (lit ''br'')" "styled a us"
    | (3) n where "t = G (47 # n)"
    using styled_last [OF snoc.prems] by (metis append1_eq_conv snoc_eq_iff_butlast)
  then show ?case
  proof cases
    case (1 s)
    with keep ends_text [of s "render us"] show ?thesis by simp
  next
    case 2
    have e: "render (us @ [t]) = render us @ br" using 2 by (simp add: br_eq(2))
    then have "strip_br (render (us @ [t])) = strip_br (render us)"
      by (subst strip_br.simps) (simp add: ends_with_iff br_eq(1))
    with snoc.IH 2 e show ?thesis by (auto intro: order_trans)
  next
    case (3 n)
    with styled_toks_ok [OF snoc.prems] have "60 \<notin> set n" by (auto simp: no_angle_def)
    with keep 3 ends_close [of n "render us"] show ?thesis by simp
  qed
qed

section \<open>Quoting\<close>

definition quote_toks :: "tok list \<Rightarrow> tok list" where
  "quote_toks us = concat (map (\<lambda>t. if t = G (lit ''br'') then [t, T quote_bar] else [t]) us)"

lemma quote_toks_simps [simp]:
  "quote_toks [] = []"
  "quote_toks (t # us) = (if t = G (lit ''br'') then [t, T quote_bar] else [t]) @ quote_toks us"
  "quote_toks (us @ vs) = quote_toks us @ quote_toks vs"
  by (simp_all add: quote_toks_def)

lemma bar_text: "plain_text quote_bar"
  by (simp add: plain_text_def quote_bar_def)

lemma styled_quote: "styled a us \<Longrightarrow> styled a (quote_toks us)"
proof (induction rule: styled.induct)
  case (styled_br a us)
  then show ?case using styled.styled_text [OF styled.styled_br [OF styled_br(2)] bar_text] by simp
next
  case (styled_wrap a us t vs)
  then show ?case using wraps_tags [OF styled_wrap(2)] styled.styled_wrap by simp
next
  case (styled_anchor us h vs)
  have "a_tag h \<noteq> lit ''br''" "lit ''/a'' \<noteq> lit ''br''" by (simp_all add: a_tag_def a_open_eq str_simps)
  with styled_anchor show ?case using styled.styled_anchor by simp
qed (simp_all add: styled.intros)

lemma replace_skip: "60 \<notin> set s \<Longrightarrow> replace_str br r (s @ t) = s @ replace_str br r t"
  by (induction s) (auto simp: br_eq)

lemma quote_render: "toks_ok us \<Longrightarrow> replace_str br (br @ quote_bar) (render us) = render (quote_toks us)"
proof (induction us)
  case (Cons t us)
  show ?case
  proof (cases t)
    case (T s)
    with Cons show ?thesis by (simp add: replace_skip no_angle_def)
  next
    case (G g)
    show ?thesis
    proof (cases "g = lit ''br''")
      case True
      then have r: "render1 t = br" using G br_eq(2) by simp
      have "replace_str br (br @ quote_bar) (br @ render us) = (br @ quote_bar) @ replace_str br (br @ quote_bar) (render us)"
        by (simp add: br_eq(1))
      with True Cons G r show ?thesis by simp
    next
      case False
      from Cons.prems G have g: "no_angle g" by simp
      have b: "no_angle (lit ''br'')" by (simp add: str_simps)
      have e: "br = 60 # lit ''br'' @ [62]" by (simp add: br_eq str_simps)
      have "\<not> starts_with br (60 # g @ 62 # render us)"
        using starts_with_tag [OF b g, of "render us"] False unfolding e by simp
      then have "replace_str br (br @ quote_bar) (60 # g @ 62 # render us)
          = 60 # replace_str br (br @ quote_bar) ((g @ [62]) @ render us)" by simp
      also have "\<dots> = 60 # (g @ [62]) @ replace_str br (br @ quote_bar) (render us)"
        using g by (subst replace_skip) (auto simp: no_angle_def)
      finally show ?thesis using Cons G False by simp
    qed
  qed
qed simp

lemma utf8_br: "utf8_len br = 4" "utf8_len quote_bar = 4"
  by (simp_all add: br_eq(1) quote_bar_def utf8_bytes_def)

lemma quote_len: "utf8_len (render (quote_toks us)) \<le> 2 * utf8_len (render us)"
proof (induction us)
  case (Cons t us)
  then show ?case
    using utf8_br by (cases "t = G (lit ''br'')") (simp_all add: br_eq(2) del: render1.simps(2))
qed simp

end
