(* ===== verification/Markup_Safety.thy ===== *)
theory Markup_Safety
  imports Markup_Grammar
begin

text \<open>
  The walk of the writer, for a tree that fits.  \<open>writes\<close> is the contract of a piece of the walk: from
  a writer with room for it, what it adds is a piece of the grammar, within a number of bytes.
\<close>

section \<open>Growing by a piece of the grammar\<close>

definition grows :: "bool \<Rightarrow> nat \<Rightarrow> writer \<Rightarrow> writer \<Rightarrow> bool" where
  "grows a k w w' \<longleftrightarrow> \<not> truncated w' \<and>
     (\<exists>us. out w' = out w @ render us \<and> styled a us \<and> utf8_len (render us) \<le> k)"

definition writes :: "bool \<Rightarrow> nat \<Rightarrow> (writer \<Rightarrow> writer) \<Rightarrow> bool" where
  "writes a k f \<longleftrightarrow> (\<forall>w. \<not> truncated w \<longrightarrow> utf8_len (out w) + k \<le> max_output \<longrightarrow> grows a k w (f w))"

lemma writesI: "(\<And>w. \<not> truncated w \<Longrightarrow> utf8_len (out w) + k \<le> max_output \<Longrightarrow> grows a k w (f w)) \<Longrightarrow> writes a k f"
  by (simp add: writes_def)

lemma writesD: "writes a k f \<Longrightarrow> \<not> truncated w \<Longrightarrow> utf8_len (out w) + k \<le> max_output \<Longrightarrow> grows a k w (f w)"
  by (simp add: writes_def)

lemma growsI: "\<not> truncated w' \<Longrightarrow> out w' = out w @ render us \<Longrightarrow> styled a us \<Longrightarrow> utf8_len (render us) \<le> k \<Longrightarrow> grows a k w w'"
  by (auto simp: grows_def)

lemma writes_skip: "writes a k (\<lambda>w. w)" "writes a k (\<lambda>w. w\<lparr>markup := m w\<rparr>)"
  by (auto simp: writes_def intro!: growsI [of _ _ "[]"] styled_nil)

lemma writes_mono: "writes a k f \<Longrightarrow> k \<le> l \<Longrightarrow> writes a l f"
  by (fastforce simp: writes_def grows_def)

lemma writes_weaken: "writes True k f \<Longrightarrow> writes a k f"
  by (auto simp: writes_def grows_def) (blast intro: styled_weaken)

lemma grows_trans: "grows a k w w' \<Longrightarrow> grows a l w' w'' \<Longrightarrow> grows a (k + l) w w''"
proof -
  assume "grows a k w w'" "grows a l w' w''"
  then obtain us vs where "\<not> truncated w''" "out w'' = out w @ render (us @ vs)" "styled a us" "styled a vs"
    "utf8_len (render us) \<le> k" "utf8_len (render vs) \<le> l" by (auto simp: grows_def)
  then show ?thesis using styled_append by (intro growsI [of _ _ "us @ vs"]) auto
qed

lemma grows_len: "grows a k w w' \<Longrightarrow> utf8_len (out w') \<le> utf8_len (out w) + k"
  by (auto simp: grows_def)

lemma writes_seq:
  assumes "writes a k f" and "writes a l g"
  shows "writes a (k + l) (\<lambda>w. g (f w))"
proof (rule writesI)
  fix w :: writer assume w: "\<not> truncated w" "utf8_len (out w) + (k + l) \<le> max_output"
  with assms(1) have f: "grows a k w (f w)" by (intro writesD) auto
  then have "\<not> truncated (f w)" by (simp add: grows_def)
  moreover have "utf8_len (out (f w)) + l \<le> max_output" using grows_len [OF f] w(2) by linarith
  ultimately have "grows a l (f w) (g (f w))" using assms(2) writesD by blast
  with f show "grows a (k + l) w (g (f w))" by (rule grows_trans)
qed

lemma push_fits:
  "\<not> truncated w \<Longrightarrow> utf8_len (out w) + utf8_len s \<le> max_output
    \<Longrightarrow> out (push_raw s w) = out w @ s \<and> \<not> truncated (push_raw s w)
      \<and> out (push_tag s w) = out w @ s \<and> \<not> truncated (push_tag s w)"
  by (simp add: push_raw_def push_tag_def)

lemma writes_push:
  assumes "styled a us" and "render us = s" and "utf8_len s \<le> k"
  shows "writes a k (push_raw s)" and "writes a k (push_tag s)"
  by (rule writesI, rule growsI [OF _ _ assms(1)]; use push_fits [of _ s] assms in simp)+

lemma writes_text: "plain_text s \<Longrightarrow> utf8_len s \<le> k \<Longrightarrow> writes a k (push_raw s)"
  "plain_text s \<Longrightarrow> utf8_len s \<le> k \<Longrightarrow> writes a k (push_tag s)"
  by (rule writes_push [OF styled_one(1)]; simp)+

lemma writes_br: "4 \<le> k \<Longrightarrow> writes a k (push_tag br)"
  by (rule writes_push(2) [OF styled_one(2)]) (simp_all add: br_eq(2) [symmetric] utf8_br del: render1.simps)

lemma writes_if: "(c \<Longrightarrow> writes a k f) \<Longrightarrow> (\<not> c \<Longrightarrow> writes a k g) \<Longrightarrow> writes a k (\<lambda>w. if c then f w else g w)"
  by (cases c) auto

lemma writes_test: "writes a k f \<Longrightarrow> writes a k g \<Longrightarrow> writes a k (\<lambda>w. if P w then f w else g w)"
  by (simp add: writes_def)

lemma writes_break: "writes a 4 block_break"
  unfolding block_break_def by (rule writes_test [OF writes_skip(1) writes_br]) simp

lemma writes_blocked: "writes a k f \<Longrightarrow> writes a (k + 8) (\<lambda>w. block_break (f (block_break w)))"
  using writes_seq [OF writes_seq [OF writes_break [of a], of k f] writes_break]
  by (rule writes_mono) auto

text \<open>An element: an opening tag, what is inside, the closing tag.\<close>

lemma writes_enclosed:
  assumes f: "writes b k f"
    and piece: "\<And>vs. styled b vs \<Longrightarrow> \<exists>us. styled a us \<and> render us = open @ render vs @ close"
    and size: "utf8_len open + utf8_len close + k \<le> l"
    and op: "\<And>w. \<not> truncated w \<Longrightarrow> utf8_len (out w) + utf8_len open \<le> max_output
      \<Longrightarrow> out (opening w) = out w @ open \<and> \<not> truncated (opening w)"
  shows "writes a l (\<lambda>w. push_tag close (f (opening w)))"
proof (rule writesI)
  fix w :: writer assume w: "\<not> truncated w" "utf8_len (out w) + l \<le> max_output"
  with size op [of w] have 1: "out (opening w) = out w @ open" "\<not> truncated (opening w)" by auto
  with f size w have "grows b k (opening w) (f (opening w))" by (intro writesD) auto
  then obtain vs where vs: "\<not> truncated (f (opening w))" "out (f (opening w)) = out w @ open @ render vs"
    "styled b vs" "utf8_len (render vs) \<le> k" using 1 by (auto simp: grows_def)
  from piece [OF vs(3)] obtain us where us: "styled a us" "render us = open @ render vs @ close" by blast
  from vs size w have "utf8_len (out (f (opening w))) + utf8_len close \<le> max_output" by simp
  with push_fits [OF vs(1)] vs(2) us(2)
  have "out (push_tag close (f (opening w))) = out w @ render us" "\<not> truncated (push_tag close (f (opening w)))" by auto
  with us vs size show "grows a l w (push_tag close (f (opening w)))"
    by (intro growsI [of _ _ us]) auto
qed

definition opened :: "str \<Rightarrow> str" where
  "opened t = 60 # t @ [62]"

definition closed :: "str \<Rightarrow> str" where
  "closed t = 60 # 47 # t @ [62]"

lemma writes_wrapped:
  assumes "writes a k f" and "t \<in> set wraps"
  shows "writes a (k + 13) (\<lambda>w. push_tag (closed t) (f (push_tag (opened t) w)))"
proof (rule writes_enclosed [OF assms(1)])
  show "\<exists>us. styled a us \<and> render us = opened t @ render vs @ closed t" if "styled a vs" for vs
    using styled_wrapped [OF assms(2) that] by (auto simp: opened_def closed_def)
  show "utf8_len (opened t) + utf8_len (closed t) + k \<le> k + 13"
    using assms(2) by (auto simp: wraps_def opened_def closed_def utf8_bytes_def str_simps)
qed (use push_fits in blast)

section \<open>Text and addresses\<close>

lemma plain_one: "c \<noteq> 60 \<Longrightarrow> c \<noteq> 62 \<Longrightarrow> plain_text [c]"
  by (simp add: plain_text_def)

lemma plain_entities:
  "plain_text (lit ''&amp;'')" "plain_text (lit ''&lt;'')" "plain_text (lit ''&gt;'')" "plain_text nbsp"
  "plain_text strike_overlay"
  by (simp_all add: plain_text_def nbsp_def strike_overlay_def str_simps)

lemma utf8_entities:
  "utf8_len (lit ''&amp;'') \<le> 6" "utf8_len (lit ''&lt;'') \<le> 6" "utf8_len (lit ''&gt;'') \<le> 6" "utf8_len nbsp \<le> 6"
  "utf8_len [c] \<le> 6" "utf8_len strike_overlay \<le> 2"
  using utf8_bytes_le(2) [of c] by (simp_all add: utf8_bytes_def nbsp_def strike_overlay_def str_simps)

text \<open>The letter itself, and whether it was drawn.\<close>

definition push_letter :: "ctx \<Rightarrow> nat \<Rightarrow> writer \<Rightarrow> writer" where
  "push_letter x c w =
     (if c = 38 then push_raw (lit ''&amp;'') w
      else if c = 60 then push_raw (lit ''&lt;'') w
      else if c = 62 then push_raw (lit ''&gt;'') w
      else if c = 10 \<and> preformatted x then push_tag br w
      else if c = 32 \<and> preformatted x \<and> at_indent w then push_raw nbsp w
      else push_raw [c] w)"

definition strikes :: "ctx \<Rightarrow> nat \<Rightarrow> writer \<Rightarrow> bool" where
  "strikes x c w \<longleftrightarrow> struck x \<and> carries_overlay c
     \<and> \<not> (c = 10 \<and> preformatted x) \<and> \<not> (c = 32 \<and> preformatted x \<and> at_indent w)"

lemma push_char_eq:
  "push_char x c w = (if is_bidi_control c then w
     else if strikes x c w then push_raw strike_overlay (push_letter x c w) else push_letter x c w)"
  by (auto simp: push_char_def push_letter_def strikes_def Let_def)

lemma writes_letter: "writes a 6 (push_letter x c)"
  unfolding push_letter_def
  by (intro writes_if writes_test writes_text writes_br plain_entities utf8_entities plain_one) auto

lemma writes_char: "writes a 8 (push_char x c)"
proof (cases "is_bidi_control c")
  case True
  then have "push_char x c = (\<lambda>w. w)" by (intro ext) (simp add: push_char_eq)
  then show ?thesis by (simp add: writes_skip)
next
  case False
  have "writes a 8 (\<lambda>w. push_raw strike_overlay (push_letter x c w))"
    by (rule writes_mono [OF writes_seq [OF writes_letter writes_text(1) [OF plain_entities(5) utf8_entities(6)]]]) simp
  then have "writes a 8 (\<lambda>w. if strikes x c w then push_raw strike_overlay (push_letter x c w) else push_letter x c w)"
    by (rule writes_test) (rule writes_mono [OF writes_letter], simp)
  moreover have "push_char x c = (\<lambda>w. if strikes x c w then push_raw strike_overlay (push_letter x c w) else push_letter x c w)"
    using False by (intro ext) (simp add: push_char_eq)
  ultimately show ?thesis by simp
qed

lemma writes_push_text: "writes a (8 * length s) (push_text x s)"
proof (induction s)
  case Nil
  show ?case using writes_skip(1) by (simp add: push_text_def)
next
  case (Cons c s)
  from writes_seq [OF writes_char Cons] show ?case by (simp add: push_text_def)
qed

lemma push_href_fits:
  assumes "is_web_url h" and "\<not> truncated w" and "utf8_len (out w) + length h \<le> max_output"
  shows "out (push_href h w) = out w @ h \<and> \<not> truncated (push_href h w)"
proof -
  have "list_all (\<lambda>c. c < 128 \<and> c \<notin> {34, 39, 60, 62}) h"
    using web_url_chars [OF assms(1)] by (fastforce simp: list_all_iff)
  with assms(2,3) show ?thesis
  proof (induction h arbitrary: w)
    case (Cons c h)
    then have b: "utf8_len [c] = 1" by (simp add: utf8_bytes_def)
    from Cons.prems b push_fits [of w "[c]"] have "out (push_raw [c] w) = out w @ [c]" "\<not> truncated (push_raw [c] w)"
      by auto
    with Cons.IH [of "push_raw [c] w"] Cons.prems b show ?case by (simp add: push_href_def)
  qed (simp add: push_href_def)
qed

definition anchor_open :: "str \<Rightarrow> str" where
  "anchor_open h = 60 # a_tag h @ [62]"

lemma ascii_len: "list_all (\<lambda>c. c < 128) s \<Longrightarrow> utf8_len s = length s"
  by (induction s) (auto simp: utf8_bytes_def)

lemma writes_link:
  assumes "writes True k f" and h: "is_web_url h"
  shows "writes False (k + length h + 15) (\<lambda>w. push_tag (lit ''</a>'')
     (f (push_tag ([34] @ lit ''>'') (push_href h (push_tag (lit ''<a href='' @ [34]) w)))))"
proof (rule writes_enclosed [OF assms(1), where ?open = "anchor_open h"])
  have len: "utf8_len (anchor_open h) = length h + 11"
  proof -
    have "list_all (\<lambda>c. c < 128) h" using web_url_chars [OF h] by (fastforce simp: list_all_iff)
    then show ?thesis by (simp add: anchor_open_def a_tag_def a_open_eq ascii_len utf8_bytes_def)
  qed
  show "\<exists>us. styled False us \<and> render us = anchor_open h @ render vs @ lit ''</a>''" if "styled True vs" for vs
    using styled_link [OF h that] by (intro exI conjI) (auto simp: anchor_open_def str_simps)
  show "utf8_len (anchor_open h) + utf8_len (lit ''</a>'') + k \<le> k + length h + 15"
    by (simp add: len utf8_bytes_def str_simps)
  fix w :: writer assume w: "\<not> truncated w" "utf8_len (out w) + utf8_len (anchor_open h) \<le> max_output"
  let ?o = "lit ''<a href='' @ [34]"
  have o: "utf8_len ?o = 9" "utf8_len ([34] @ lit ''>'') = 2" by (simp_all add: utf8_bytes_def str_simps)
  from w len o push_fits [of w ?o] have 1: "out (push_tag ?o w) = out w @ ?o" "\<not> truncated (push_tag ?o w)" by auto
  with w len o push_href_fits [OF h, of "push_tag ?o w"]
  have 2: "out (push_href h (push_tag ?o w)) = out w @ ?o @ h" "\<not> truncated (push_href h (push_tag ?o w))" by auto
  have "utf8_len h = length h" using len by (simp add: anchor_open_def a_tag_def a_open_eq utf8_bytes_def)
  with 2 w len o push_fits [of "push_href h (push_tag ?o w)" "[34] @ lit ''>''"]
  show "out (push_tag ([34] @ lit ''>'') (push_href h (push_tag ?o w))) = out w @ anchor_open h
      \<and> \<not> truncated (push_tag ([34] @ lit ''>'') (push_href h (push_tag ?o w)))"
    by (simp add: anchor_open_def a_tag_def a_open_def str_simps)
qed

section \<open>Lists and quotes\<close>

lemma show_nat_length: "0 < k \<Longrightarrow> n < 10 ^ k \<Longrightarrow> length (show_nat n) \<le> k"
proof (induction k arbitrary: n)
  case (Suc k)
  show ?case
  proof (cases "n < 10")
    case False
    with Suc.prems have "n div 10 < 10 ^ k" by (simp add: div_less_iff_less_mult mult.commute)
    moreover have "0 < k" using False Suc.prems by (cases k) auto
    ultimately show ?thesis using Suc.IH [of "n div 10"] False by (subst show_nat.simps) simp
  qed (subst show_nat.simps, simp)
qed simp

lemma number_piece:
  assumes "n \<le> u64_max"
  shows "plain_text (show_nat n @ lit ''. '')" and "utf8_len (show_nat n @ lit ''. '') \<le> 22"
proof -
  have d: "list_all is_digit (show_nat n)" using show_nat_digits by blast
  then show "plain_text (show_nat n @ lit ''. '')"
    by (auto simp: plain_text_def no_angle_def list_all_iff is_digit_def str_simps)
  from d have "utf8_len (show_nat n) = length (show_nat n)"
    by (intro ascii_len) (auto simp: list_all_iff is_digit_def)
  moreover have "length (show_nat n) \<le> 20"
    using assms by (intro show_nat_length) (simp_all add: u64_max_def)
  ultimately show "utf8_len (show_nat n @ lit ''. '') \<le> 22" by (simp add: utf8_bytes_def str_simps)
qed

lemma item_number_bound: "item_number ordered as \<le> u64_max"
  by (auto simp: item_number_def u64_max_def dest: parse_bound split: option.split)

lemma plain_marks:
  "plain_text bullet" "plain_text cell_bar" "plain_text spoiler_mark" "plain_text rule_text" "plain_text quote_bar"
  by (simp_all add: plain_text_def bullet_def cell_bar_def spoiler_mark_def rule_text_def quote_bar_def)

lemma utf8_marks:
  "utf8_len bullet = 4" "utf8_len cell_bar = 7" "utf8_len spoiler_mark = 4" "utf8_len rule_text = 12"
  by (simp_all add: bullet_def cell_bar_def spoiler_mark_def rule_text_def utf8_bytes_def)

lemma writes_push_item: "n \<le> u64_max \<Longrightarrow> writes a 26 (push_item ordered n)"
proof -
  assume "n \<le> u64_max"
  then have "writes a 22 (push_tag (if ordered then show_nat n @ lit ''. '' else bullet))"
    using number_piece plain_marks utf8_marks by (intro writes_text) auto
  from writes_seq [OF writes_break this] show ?thesis by (simp add: push_item_def [abs_def])
qed

text \<open>A quote is rendered apart and put in with a bar before every line.\<close>

lemma writes_quote:
  assumes "writes a k f"
  shows "writes a (2 * k + 4) (quote (f default_writer))"
proof (rule writesI)
  fix w :: writer
  assume w: "\<not> truncated w" "utf8_len (out w) + (2 * k + 4) \<le> max_output"
  have "utf8_len (out default_writer) + k \<le> max_output" "\<not> truncated default_writer"
    using w by (auto simp: default_writer_def)
  with assms have "grows a k default_writer (f default_writer)" by (intro writesD)
  then obtain us where us: "out (f default_writer) = render us" "styled a us" "utf8_len (render us) \<le> k"
    by (auto simp: grows_def default_writer_def)
  from strip_styled [OF us(2)] obtain vs where vs: "finish (f default_writer) = render vs" "styled a vs"
    "utf8_len (render vs) \<le> k" using us by (auto simp: finish_def)
  let ?q = "render (quote_toks vs)"
  have q: "replace_str br (br @ quote_bar) (render vs) = ?q" "utf8_len ?q \<le> 2 * k" "styled a (quote_toks vs)"
    using quote_render [OF styled_toks_ok [OF vs(2)]] quote_len [of vs] vs styled_quote by auto
  let ?w = "w\<lparr>markup := markup w \<or> markup (f default_writer)\<rparr>"
  have "writes a (4 + 2 * k) (\<lambda>w. push_raw ?q (push_tag quote_bar w))"
    using writes_seq [OF writes_text(2) [OF plain_marks(5), of 4 a] writes_push(1) [OF q(3) refl q(2)]]
    by (simp add: utf8_br)
  then have "grows a (4 + 2 * k) ?w (push_raw ?q (push_tag quote_bar ?w))"
    using w by (intro writesD) auto
  then show "grows a (2 * k + 4) w (quote (f default_writer) w)"
    using w vs q writes_skip(1) [of a "2 * k + 4"]
    by (auto simp: quote_def Let_def grows_def writes_def)
qed

section \<open>The walk\<close>

text \<open>An upper bound of what a tree can write, in bytes.\<close>

definition attr_len :: "(str \<times> str) list \<Rightarrow> nat" where
  "attr_len as = sum_list (map (\<lambda>(_, v). length v) as)"

fun weight :: "node \<Rightarrow> nat" and weights :: "node list \<Rightarrow> nat" where
  "weight (TextNode s) = 8 * length s"
| "weight (Element name as cs) = 64 + 8 * attr_len as + 2 * weights cs"
| "weight (OtherNode cs) = weights cs"
| "weights [] = 0"
| "weights (n # ns) = weight n + weights ns"

lemma attribute_len: "attribute as n = Some v \<Longrightarrow> length v \<le> attr_len as"
  by (auto simp: attribute_def attr_len_def dest!: map_of_SomeD split_list)

lemma lower_scheme_len: "length (lower_web_scheme h) = length h"
  by (auto simp: lower_web_scheme_def has_scheme_def)

lemma image_len: "length (image_text as) \<le> attr_len as"
  by (auto simp: image_text_def dest: attribute_len split: option.split)

lemma anchor_href_web:
  "anchor_href x as = Some h \<Longrightarrow> is_web_url h \<and> \<not> in_anchor x \<and> length h \<le> attr_len as"
  using lower_scheme_len
  by (auto simp: anchor_href_def Let_def dest!: attribute_len split: option.splits if_splits)

lemma inline_wrapped:
  "inline_wrapper name = Some (a, b) \<Longrightarrow> \<exists>t\<in>set wraps. a = opened t \<and> b = closed t"
  by (auto simp: inline_wrapper_def wraps_def opened_def closed_def str_simps split: if_splits)

definition walks :: "node list \<Rightarrow> bool" where
  "walks cs \<longleftrightarrow> (\<forall>x. writes (in_anchor x) (weights cs) (write_nodes x cs))"

lemma walksD: "walks cs \<Longrightarrow> in_anchor x = a \<Longrightarrow> writes a (weights cs) (write_nodes x cs)"
  by (auto simp: walks_def)

definition node_walks :: "node \<Rightarrow> bool" where
  "node_walks n \<longleftrightarrow> (\<forall>x. writes (in_anchor x) (weight n) (write_node x n))
     \<and> (case n of Element name as cs \<Rightarrow> walks cs | _ \<Rightarrow> True)"

lemma walks_all: "list_all node_walks cs \<Longrightarrow> walks cs"
proof (induction cs)
  case Nil
  have "write_nodes x [] = (\<lambda>w. w)" for x by (rule ext) simp
  then show ?case by (simp add: walks_def writes_skip)
next
  case (Cons n cs)
  then have "writes (in_anchor x) (weight n) (write_node x n)" "writes (in_anchor x) (weights cs) (write_nodes x cs)" for x
    by (auto simp: walks_def node_walks_def simp del: write_node.simps)
  then have "writes (in_anchor x) (weight n + weights cs) (\<lambda>w. write_nodes x cs (write_node x n w))" for x
    by (rule writes_seq)
  moreover have "write_nodes x (n # cs) = (\<lambda>w. write_nodes x cs (write_node x n w))" for x
    by (rule ext) (simp only: write_nodes.simps)
  ultimately show ?case by (simp add: walks_def del: write_node.simps)
qed

lemma writes_items:
  "list_all node_walks cs \<Longrightarrow> number \<le> u64_max
    \<Longrightarrow> writes (in_anchor x) (weights cs) (write_items x ordered number cs)"
proof (induction cs arbitrary: number)
  case Nil
  have "write_items x ordered number [] = (\<lambda>w. w)" by (rule ext) simp
  then show ?case by (simp add: writes_skip)
next
  case (Cons n cs)
  have rest: "writes (in_anchor x) (weights cs) (write_items x ordered m cs)" if "m \<le> u64_max" for m
    using Cons that by simp
  show ?case
  proof (cases "\<exists>as ds. n = Element (lit ''li'') as ds")
    case True
    then obtain as ds where n: "n = Element (lit ''li'') as ds" by blast
    let ?m = "if ordered then min u64_max (number + 1) else number"
    have "writes (in_anchor x) (26 + weights ds) (\<lambda>w. write_nodes x ds (push_item ordered number w))"
      using Cons.prems n by (intro writes_seq [OF writes_push_item] walksD) (auto simp: node_walks_def)
    then have "writes (in_anchor x) (weight n) (\<lambda>w. write_nodes x ds (push_item ordered number w))"
      by (rule writes_mono) (simp add: n)
    then have "writes (in_anchor x) (weight n + weights cs)
        (\<lambda>w. write_items x ordered ?m cs (write_nodes x ds (push_item ordered number w)))"
      by (rule writes_seq) (rule rest, use Cons.prems(2) in auto)
    then show ?thesis by (simp add: n)
  next
    case False
    then have e: "write_items x ordered number (n # cs) = (\<lambda>w. write_items x ordered number cs (write_node x n w))"
      by (intro ext) (auto split: node.split simp del: write_node.simps)
    have "writes (in_anchor x) (weight n) (write_node x n)"
      using Cons.prems by (auto simp: node_walks_def simp del: write_node.simps)
    then have "writes (in_anchor x) (weight n + weights cs) (\<lambda>w. write_items x ordered number cs (write_node x n w))"
      by (rule writes_seq) (rule rest, rule Cons.prems(2))
    then show ?thesis unfolding e by simp
  qed
qed

lemma writes_mark: "plain_text s \<Longrightarrow> utf8_len s \<le> 12 \<Longrightarrow> writes a 12 (push_tag s)"
  by (rule writes_text)

lemma writes_element:
  assumes cs: "list_all node_walks cs"
  shows "writes (in_anchor x) (weight (Element name as cs)) (write_element x (Element name as cs))"
proof -
  define a where "a = in_anchor x"
  define inner where "inner = x\<lparr>depth := depth x + 1\<rparr>"
  have c: "in_anchor y = a \<Longrightarrow> writes a (weights cs) (write_nodes y cs)" for y
    by (rule walksD [OF walks_all [OF cs]])
  have i: "in_anchor inner = a" by (simp add: inner_def a_def)
  note e = ext [where f = "write_element x (Element name as cs)", OF write_element.simps(3)]
  show ?thesis
  proof (cases "inline_wrapper name")
    case (Some p)
    then obtain t where t: "t \<in> set wraps" "p = (opened t, closed t)"
      by (cases p) (auto dest: inline_wrapped)
    show ?thesis
      unfolding e Let_def Some t(2) option.case prod.case inner_def [symmetric] a_def [symmetric]
    proof (intro writes_if)
      show "writes a (weight (Element name as cs)) (\<lambda>w. write_nodes (inner\<lparr>struck := True\<rparr>) cs (w\<lparr>markup := True\<rparr>))"
        by (rule writes_mono [OF writes_seq [OF writes_skip(2) [of a 0] c]]) (simp_all add: i)
      show "writes a (weight (Element name as cs)) (write_nodes inner cs)"
        by (rule writes_mono [OF c [OF i]]) simp
      show "writes a (weight (Element name as cs)) (\<lambda>w. push_tag (closed t)
          (write_nodes (inner\<lparr>monospace := opened t = lit ''<code>''\<rparr>) cs (push_tag (opened t) w)))"
        by (rule writes_mono [OF writes_wrapped [OF c t(1)]]) (simp_all add: i)
    qed
  next
    case None
    have b: "lit ''<b>'' = opened (lit ''b'')" "lit ''</b>'' = closed (lit ''b'')" "lit ''b'' \<in> set wraps"
      "lit ''<pre>'' = opened (lit ''pre'')" "lit ''</pre>'' = closed (lit ''pre'')" "lit ''pre'' \<in> set wraps"
      by (simp_all add: opened_def closed_def wraps_def str_simps)
    have blocked: "writes a (weight (Element name as cs)) (\<lambda>w. block_break (f (block_break w)))"
      if "writes a k f" "k + 8 \<le> weight (Element name as cs)" for k f
      using writes_blocked [OF that(1)] that(2) by (rule writes_mono)
    show ?thesis
      unfolding e Let_def None option.case inner_def [symmetric] a_def [symmetric] b
    proof (intro writes_if)
      show "writes a (weight (Element name as cs)) (\<lambda>w. write_nodes (inner\<lparr>struck := True\<rparr>) cs (w\<lparr>markup := True\<rparr>))"
        by (rule writes_mono [OF writes_seq [OF writes_skip(2) [of a 0] c]]) (simp_all add: i)
      show "writes a (weight (Element name as cs)) (push_tag br)" by (rule writes_br) simp
      show "writes a (weight (Element name as cs)) (\<lambda>w. block_break (write_nodes inner cs (block_break w)))"
        by (rule blocked [OF c [OF i]]) simp
      show "writes a (weight (Element name as cs)) (\<lambda>w. block_break (push_tag (closed (lit ''b''))
          (write_nodes inner cs (push_tag (opened (lit ''b'')) (block_break w)))))"
        by (rule blocked [OF writes_wrapped [OF c [OF i] b(3)]]) simp
      show "writes a (weight (Element name as cs)) (\<lambda>w. block_break (push_tag rule_text (block_break w)))"
        by (rule blocked [OF writes_text(2) [OF plain_marks(4), of 12]]) (simp_all add: utf8_marks)
      show "writes a (weight (Element name as cs)) (\<lambda>w. block_break
          (write_items inner (name = lit ''ol'') (item_number (name = lit ''ol'') as) cs (block_break w)))"
        by (rule blocked [OF writes_items [OF cs item_number_bound, of inner, unfolded i]]) simp
      show "writes a (weight (Element name as cs)) (\<lambda>w. block_break
          (quote (write_nodes inner cs default_writer) (block_break w)))"
        by (rule blocked [OF writes_quote [OF c [OF i]]]) simp
      show "writes a (weight (Element name as cs)) (\<lambda>w. block_break (push_tag (closed (lit ''pre''))
          (write_nodes (inner\<lparr>preformatted := True, monospace := True\<rparr>) cs
            (push_tag (opened (lit ''pre'')) (block_break w)))))"
        by (rule blocked [OF writes_wrapped [OF c b(6)]]) (simp_all add: i)
      show "writes a (weight (Element name as cs)) (\<lambda>w. case anchor_href inner as of
            None \<Rightarrow> write_nodes (inner\<lparr>depth := depth inner + 1\<rparr>) cs w
          | Some href \<Rightarrow> push_tag (lit ''</a>'') (write_nodes (inner\<lparr>in_anchor := True, depth := depth inner + 1\<rparr>) cs
              (push_tag ([34] @ lit ''>'') (push_href href (push_tag (lit ''<a href='' @ [34]) w)))))"
      proof (cases "anchor_href inner as")
        case None
        then show ?thesis using writes_mono [OF c, of "inner\<lparr>depth := depth inner + 1\<rparr>" "weight (Element name as cs)"]
          by (simp add: i)
      next
        case (Some h)
        with anchor_href_web [OF Some] i have h: "is_web_url h" "\<not> a" "length h \<le> attr_len as" by auto
        have "writes True (weights cs) (write_nodes (inner\<lparr>in_anchor := True, depth := depth inner + 1\<rparr>) cs)"
          by (rule walksD [OF walks_all [OF cs]]) simp
        from writes_mono [OF writes_link [OF this h(1)], of "weight (Element name as cs)"] h Some
        show ?thesis by simp
      qed
      show "writes a (weight (Element name as cs))
          (\<lambda>w. write_nodes inner cs (if \<not> at_line_start w then push_tag cell_bar w else w))"
        by (rule writes_mono [OF writes_seq [OF writes_test [OF writes_text(2) [OF plain_marks(2), of 7] writes_skip(1)] c [OF i]]])
           (simp_all add: utf8_marks)
      show "writes a (weight (Element name as cs)) (\<lambda>w. w)" by (rule writes_skip)
      show "writes a (weight (Element name as cs)) (push_text x (image_text as))"
        by (rule writes_mono [OF writes_push_text]) (use image_len [of as] in simp)
      show "writes a (weight (Element name as cs)) (\<lambda>w. write_nodes inner cs
          (if attribute as (lit ''data-mx-spoiler'') \<noteq> None then push_tag spoiler_mark w else w))"
        by (rule writes_mono [OF writes_seq [OF writes_test [OF writes_text(2) [OF plain_marks(3), of 4] writes_skip(1)] c [OF i]]])
           (simp_all add: utf8_marks)
      show "writes a (weight (Element name as cs)) (write_nodes inner cs)"
        by (rule writes_mono [OF c [OF i]]) simp
    qed (rule blocked [OF c [OF i]], simp)+
  qed
qed

lemma all_walk: "node_walks n"
proof (induction n)
  case (TextNode s)
  have "write_node x (TextNode s) = (\<lambda>w. if truncated w \<or> depth x > max_depth then w else push_text x s w)" for x
    by (rule ext) simp
  then show ?case by (simp add: node_walks_def writes_test writes_skip writes_push_text)
next
  case (Element name as cs)
  then have cs: "list_all node_walks cs" by (simp add: list_all_iff)
  have "write_node x (Element name as cs) = (\<lambda>w. if truncated w \<or> depth x > max_depth then w
      else write_element x (Element name as cs) w)" for x
    by (rule ext) (simp del: write_element.simps)
  then show ?case using writes_test [OF writes_skip(1) writes_element [OF cs]] walks_all [OF cs]
    by (simp add: node_walks_def del: weight.simps)
next
  case (OtherNode cs)
  then have cs: "walks cs" by (intro walks_all) (simp add: list_all_iff)
  have "write_node x (OtherNode cs) = (\<lambda>w. if truncated w \<or> depth x > max_depth then w
      else write_nodes (x\<lparr>depth := depth x + 1\<rparr>) cs w)" for x
    by (rule ext) simp
  then show ?case using cs by (simp add: node_walks_def walksD writes_test writes_skip)
qed

lemma walk_styled:
  assumes "weights ns \<le> max_output"
  shows "\<exists>us. finish (write_nodes default_ctx ns default_writer) = render us \<and> styled False us"
proof -
  have "writes False (weights ns) (write_nodes default_ctx ns)"
    by (rule walksD [OF walks_all]) (simp_all add: all_walk list_all_iff default_ctx_def)
  with assms have "grows False (weights ns) default_writer (write_nodes default_ctx ns default_writer)"
    by (intro writesD) (simp_all add: default_writer_def)
  then obtain us where "out (write_nodes default_ctx ns default_writer) = render us" "styled False us"
    by (auto simp: grows_def default_writer_def)
  with strip_styled show ?thesis by (auto simp: finish_def)
qed

lemma styled_text_styled:
  "to_styled_text parse html = Some s \<Longrightarrow> weights (parse html) \<le> max_output
    \<Longrightarrow> \<exists>us. s = render us \<and> styled False us"
  using walk_styled [of "parse html"] by (simp add: to_styled_text_def Let_def split: if_splits) metis

end
