(* ===== verification/Markup_Invariants.thy ===== *)
theory Markup_Invariants
  imports Markup_Safety
begin

text \<open>
  What holds of the writer's output whatever the tree, cut off or not: the locale carries an
  invariant of the written string through the walk, and two are put in, that no direction control is
  in it and that it stays within the cap.
\<close>

section \<open>Invariants of what was written\<close>

text \<open>The strings the writer puts out whole.\<close>

definition fixed_pieces :: "str list" where
  "fixed_pieces = [br, nbsp, lit ''&amp;'', lit ''&lt;'', lit ''&gt;'', strike_overlay, lit ''</a>'',
     lit ''<a href='' @ [34], [34] @ lit ''>'', rule_text, quote_bar, bullet, cell_bar, spoiler_mark,
     lit ''<b>'', lit ''</b>'', lit ''<i>'', lit ''</i>'', lit ''<u>'', lit ''</u>'', lit ''<sub>'', lit ''</sub>'',
     lit ''<sup>'', lit ''</sup>'', lit ''<code>'', lit ''</code>'', lit ''<pre>'', lit ''</pre>'']"

locale writer_invariant =
  fixes ok :: "str \<Rightarrow> bool" and safe :: "str \<Rightarrow> bool"
  assumes start: "ok []"
    and raw: "ok (out w) \<Longrightarrow> safe s \<Longrightarrow> ok (out (push_raw s w))"
    and letters: "\<not> is_bidi_control c \<Longrightarrow> safe [c]"
    and fixed: "list_all safe fixed_pieces"
    and numbers: "safe (show_nat n @ lit ''. '')"
    and quoted: "ok r \<Longrightarrow> safe (replace_str br (br @ quote_bar) (strip_br r))"
begin

lemma raw_ok: "ok (out w) \<Longrightarrow> safe s \<Longrightarrow> ok (out (push_raw s w)) \<and> ok (out (push_tag s w))"
  using raw [of w s] raw [of "w\<lparr>markup := True\<rparr>" s] by (simp add: push_tag_def)

lemma piece: "s \<in> set fixed_pieces \<Longrightarrow> safe s"
  using fixed by (simp add: list_all_iff)

lemma pieces: "safe br" "safe nbsp" "safe (lit ''&amp;'')" "safe (lit ''&lt;'')" "safe (lit ''&gt;'')" "safe strike_overlay"
  "safe (lit ''</a>'')" "safe (lit ''<a href='' @ [34])" "safe ([34] @ lit ''>'')" "safe rule_text" "safe quote_bar"
  "safe bullet" "safe cell_bar" "safe spoiler_mark" "safe (lit ''<b>'')" "safe (lit ''</b>'')" "safe (lit ''<pre>'')"
  "safe (lit ''</pre>'')"
  by (rule piece; simp add: fixed_pieces_def)+

lemma inline_pieces: "inline_wrapper name = Some (a, b) \<Longrightarrow> safe a \<and> safe b"
  using piece by (auto simp: inline_wrapper_def fixed_pieces_def split: if_splits)

lemma break_ok: "ok (out w) \<Longrightarrow> ok (out (block_break w))"
  using raw_ok [of w br] pieces(1) by (simp add: block_break_def)

lemma letter_ok: "ok (out w) \<Longrightarrow> \<not> is_bidi_control c \<Longrightarrow> ok (out (push_letter x c w))"
  using raw_ok pieces(1-5) letters by (simp add: push_letter_def)

lemma char_ok: "ok (out w) \<Longrightarrow> ok (out (push_char x c w))"
  using letter_ok raw_ok pieces(6) by (simp add: push_char_eq)

lemma text_ok: "ok (out w) \<Longrightarrow> ok (out (push_text x s w))"
  by (induction s arbitrary: w) (simp_all add: push_text_def char_ok)

lemma href_ok: "is_web_url h \<Longrightarrow> ok (out w) \<Longrightarrow> ok (out (push_href h w))"
proof -
  assume "is_web_url h"
  then have "list_all (\<lambda>c. c < 128 \<and> c \<notin> {34, 39, 60, 62}) h"
    using web_url_chars by (fastforce simp: list_all_iff)
  then show "ok (out w) \<Longrightarrow> ok (out (push_href h w))"
  proof (induction h arbitrary: w)
    case (Cons c h)
    then have "safe [c]" by (intro letters) (auto simp: is_bidi_control_def)
    with Cons raw_ok [of w "[c]"] show ?case by (simp add: push_href_def)
  qed (simp add: push_href_def)
qed

lemma item_ok: "ok (out w) \<Longrightarrow> ok (out (push_item ordered n w))"
  using raw_ok break_ok numbers pieces(12) by (simp add: push_item_def)

lemma quote_ok: "ok (out q) \<Longrightarrow> ok (out w) \<Longrightarrow> ok (out (quote q w))"
proof -
  assume q: "ok (out q)" and w: "ok (out w)"
  from raw_ok [of "w\<lparr>markup := markup w \<or> markup q\<rparr>" quote_bar] w pieces(11)
  have "ok (out (push_tag quote_bar (w\<lparr>markup := markup w \<or> markup q\<rparr>)))" by simp
  with raw_ok quoted [OF q] w show ?thesis by (simp add: quote_def finish_def Let_def)
qed

lemma tag_ok: "ok (out w) \<Longrightarrow> safe s \<Longrightarrow> ok (out (push_tag s w))"
  using raw_ok by blast

definition keeps :: "(writer \<Rightarrow> writer) \<Rightarrow> bool" where
  "keeps f \<longleftrightarrow> (\<forall>w. ok (out w) \<longrightarrow> ok (out (f w)))"

lemma keepsD: "keeps f \<Longrightarrow> ok (out w) \<Longrightarrow> ok (out (f w))"
  by (simp add: keeps_def)

definition node_keeps :: "node \<Rightarrow> bool" where
  "node_keeps n \<longleftrightarrow> (\<forall>x. keeps (write_node x n))
     \<and> (case n of Element name as cs \<Rightarrow> \<forall>x. keeps (write_nodes x cs) | _ \<Rightarrow> True)"

lemma nodes_keep: "list_all node_keeps cs \<Longrightarrow> keeps (write_nodes x cs)"
  by (induction cs) (auto simp: keeps_def node_keeps_def simp del: write_node.simps)

lemma items_keep: "list_all node_keeps cs \<Longrightarrow> keeps (write_items x ordered number cs)"
proof (induction cs arbitrary: number)
  case (Cons n cs)
  then show ?case
    by (cases n) (auto simp: keeps_def node_keeps_def item_ok simp del: write_node.simps)
qed (simp add: keeps_def)

lemma element_keeps:
  assumes cs: "list_all node_keeps cs" and w: "ok (out w)"
  shows "ok (out (write_element x (Element name as cs) w))"
proof -
  have n: "ok (out v) \<Longrightarrow> ok (out (write_nodes y cs v))" for y v
    using nodes_keep [OF cs] keepsD by blast
  have i: "ok (out v) \<Longrightarrow> ok (out (write_items y b m cs v))" for y b m v
    using items_keep [OF cs] keepsD by blast
  have d: "ok (out default_writer)" using start by (simp add: default_writer_def)
  show ?thesis
  proof (cases "inline_wrapper name")
    case (Some p)
    obtain a b where p: "p = (a, b)" by (cases p)
    with Some inline_pieces [of name a b] w n show ?thesis by (simp add: Let_def tag_ok)
  next
    case None
    have a: "ok (out (case anchor_href y as of
            None \<Rightarrow> write_nodes z cs w
          | Some href \<Rightarrow> push_tag (lit ''</a>'') (write_nodes z' cs
              (push_tag ([34] @ lit ''>'') (push_href href (push_tag (lit ''<a href='' @ [34]) w))))))" for y z z'
      using w n anchor_href_web [of y as] by (auto simp: tag_ok pieces href_ok simp del: append.simps split: option.split)
    show ?thesis
      unfolding write_element.simps Let_def None option.case
      by (intro if_split [where P = "\<lambda>v. ok (out v)", THEN iffD2] conjI impI a;
          simp add: n i d w break_ok tag_ok pieces quote_ok text_ok)
  qed
qed

lemma all_keep: "node_keeps n"
proof (induction n)
  case (Element name as cs)
  then have "list_all node_keeps cs" by (simp add: list_all_iff)
  then show ?case using element_keeps nodes_keep
    by (auto simp: node_keeps_def keeps_def simp del: write_element.simps)
next
  case (OtherNode cs)
  then have "list_all node_keeps cs" by (simp add: list_all_iff)
  then show ?case using nodes_keep by (auto simp: node_keeps_def keeps_def)
qed (simp add: node_keeps_def keeps_def text_ok)

lemma walk_ok: "ok (out (write_nodes x ns default_writer))"
  using nodes_keep [of ns x] start by (simp add: all_keep list_all_iff keeps_def default_writer_def)

end

text \<open>No direction control ever gets into the output, and it never outgrows the cap.\<close>

lemma list_all_replace: "list_all P s \<Longrightarrow> list_all P r \<Longrightarrow> list_all P (replace_str p r s)"
proof (induction p r s rule: replace_str.induct)
  case (2 p r c s)
  have "set (drop (length p) (c # s)) \<subseteq> set (c # s)" by (rule set_drop_subset)
  with 2 have "list_all P (drop (length p) (c # s))" unfolding list_all_iff by blast
  with 2 show ?case by (simp del: drop_Cons)
qed simp

lemma list_all_strip: "list_all P s \<Longrightarrow> list_all P (strip_br s)"
proof (induction s rule: strip_br.induct)
  case (1 s)
  then show ?case by (subst strip_br.simps) (auto simp: list_all_iff dest: in_set_takeD)
qed

definition unturned :: "str \<Rightarrow> bool" where
  "unturned s \<longleftrightarrow> list_all (\<lambda>c. \<not> is_bidi_control c) s"

interpretation no_bidi: writer_invariant unturned unturned
proof
  show "list_all unturned fixed_pieces"
    by (simp add: fixed_pieces_def unturned_def br_def nbsp_def strike_overlay_def rule_text_def quote_bar_def
        bullet_def cell_bar_def spoiler_mark_def is_bidi_control_def str_simps)
  show "unturned (show_nat n @ lit ''. '')" for n
    using show_nat_digits [of n] by (auto simp: unturned_def list_all_iff is_digit_def is_bidi_control_def str_simps)
  show "unturned (replace_str br (br @ quote_bar) (strip_br r))" if "unturned r" for r
  proof -
    have "unturned (br @ quote_bar)" by (simp add: unturned_def br_def quote_bar_def is_bidi_control_def str_simps)
    with that show ?thesis by (simp add: unturned_def list_all_replace list_all_strip)
  qed
qed (auto simp: unturned_def push_raw_def)

interpretation capped: writer_invariant "\<lambda>s. utf8_len s \<le> max_output" "\<lambda>s. True"
  by unfold_locales (simp_all add: push_raw_def list_all_iff)

end
