(* ===== verification/Markup_Output.thy ===== *)
theory Markup_Output
  imports Markup_Invariants Rendering
begin

text \<open>
  The properties of a formatted body, from the tree the library hands over to the markup a label is
  given: through the core's writer, and on through the front end's renderer.  The core counts
  Unicode scalars, the front end UTF-16 units; \<open>utf16_of\<close> is the conversion between them.
\<close>

section \<open>From the core to the front end\<close>

definition utf16_units :: "nat \<Rightarrow> str" where
  "utf16_units c = (if c < 0x10000 then [c]
     else [0xD800 + (c - 0x10000) div 0x400, 0xDC00 + (c - 0x10000) mod 0x400])"

definition utf16_of :: "str \<Rightarrow> str" where
  "utf16_of s = concat (map utf16_units s)"

lemma utf16_of_simps [simp]: "utf16_of [] = []" "utf16_of (c # s) = utf16_units c @ utf16_of s" "utf16_of (s @ t) = utf16_of s @ utf16_of t"
  by (simp_all add: utf16_of_def)

lemma utf16_of_low: "list_all (\<lambda>c. c < 128) s \<Longrightarrow> utf16_of s = s"
  by (induction s) (auto simp: utf16_units_def)

lemma utf16_mem: "k < 128 \<Longrightarrow> k \<in> set (utf16_of s) \<longleftrightarrow> k \<in> set s"
  by (induction s) (auto simp: utf16_units_def)

lemma utf16_plain: "plain_text s \<Longrightarrow> plain_text (utf16_of s)"
  by (cases s) (auto simp: plain_text_def no_angle_def utf16_mem utf16_units_def)

primrec tok16 :: "tok \<Rightarrow> tok" where
  "tok16 (T s) = T (utf16_of s)"
| "tok16 (G g) = G (utf16_of g)"

lemma render_utf16: "utf16_of (render ts) = render (map tok16 ts)"
proof (induction ts)
  case (Cons t ts)
  then show ?case by (cases t) (simp_all add: utf16_units_def)
qed simp

lemma web_low: "is_web_url h \<Longrightarrow> utf16_of h = h"
  by (rule utf16_of_low) (fastforce simp: list_all_iff dest: web_url_chars)

lemma tag_low: "is_web_url h \<Longrightarrow> utf16_of (a_tag h) = a_tag h"
  by (simp add: a_tag_def web_low a_open_eq utf16_units_def)

lemma styled_utf16: "styled a us \<Longrightarrow> styled a (map tok16 us)"
proof (induction rule: styled.induct)
  case (styled_text a us s)
  then show ?case using styled.styled_text utf16_plain by simp
next
  case (styled_br a us)
  then show ?case using styled.styled_br by (simp add: utf16_units_def str_simps)
next
  case (styled_wrap a us t vs)
  then have "utf16_of t = t" "utf16_of (47 # t) = 47 # t"
    by (auto simp: wraps_def utf16_units_def str_simps)
  with styled_wrap show ?case using styled.styled_wrap by simp
next
  case (styled_anchor us h vs)
  then show ?case using styled.styled_anchor by (simp add: tag_low utf16_units_def str_simps)
qed (simp add: styled_nil)

section \<open>Properties\<close>

text \<open>C2: Every body the core writes is well formed, whatever its sender sent: a sequence of text without
  angle brackets and of the program's own tags - line breaks, the pairs of \<open>b\<close>, \<open>i\<close>, \<open>u\<close>, \<open>sub\<close>, \<open>sup\<close>, \<open>code\<close>
  and \<open>pre\<close>, and anchors - closed in the order they were opened, its anchors not
  nested and their addresses web addresses.  The tree must fit, counted by \<open>weights\<close>.\<close>

theorem styled_text_wellformed:
  assumes "to_styled_text tree html = Some s" and "weights (tree html) \<le> max_output"
  shows "\<exists>us. s = render us \<and> toks_ok us \<and> own_tags_only us \<and> nested [] us \<and> anchors_ok False us
    \<and> list_all (\<lambda>h. is_web_url h) (tok_hrefs us)"
  using styled_text_styled [OF assms] styled_toks_ok styled_own_tags styled_nested styled_anchors_ok styled_hrefs by blast

definition sample_tree :: "node list" where
  "sample_tree = [Element (lit ''b'') [] [TextNode (lit ''a<b'')],
     Element (lit ''a'') [(lit ''href'', lit ''Https://x.y/'')] [TextNode (lit ''z'')]]"

theorem styled_text_wellformed_witness:
  "\<exists>us. render us = lit ''<b>a&lt;b</b><a href='' @ [34] @ lit ''https://x.y/'' @ [34] @ lit ''>z</a>''
     \<and> own_tags_only us \<and> nested [] us"
proof -
  have "to_styled_text (\<lambda>_. sample_tree) (lit ''x'')
      = Some (lit ''<b>a&lt;b</b><a href='' @ [34] @ lit ''https://x.y/'' @ [34] @ lit ''>z</a>'')"
    by code_simp
  moreover have "weights sample_tree \<le> max_output" by code_simp
  ultimately show ?thesis using styled_text_wellformed [of "\<lambda>_. sample_tree" "lit ''x''"] by metis
qed

text \<open>C27: Whatever the tree and however much of it is cut off, no character that reorders text gets
  through, and the result stays within the cap.\<close>

theorem styled_text_bounds:
  assumes "to_styled_text tree html = Some s"
  shows "list_all (\<lambda>c. \<not> is_bidi_control c) s \<and> utf8_len s \<le> max_output \<and> s \<noteq> []"
proof -
  let ?o = "out (write_nodes default_ctx (tree html) default_writer)"
  have s: "s = strip_br ?o" "s \<noteq> []"
    using assms by (auto simp: to_styled_text_def Let_def finish_def split: if_splits)
  have "utf8_len (strip_br r) \<le> utf8_len r" for r
  proof (induction r rule: strip_br.induct)
    case (1 r)
    have "utf8_len (take n r) \<le> utf8_len r" for n
      using utf8_len_simps(3) [of "take n r" "drop n r"] by simp
    with 1 show ?case by (subst strip_br.simps) (auto intro: order_trans)
  qed
  with no_bidi.walk_ok [of default_ctx "tree html"] capped.walk_ok [of default_ctx "tree html"] s
  show ?thesis by (auto simp: unturned_def list_all_strip intro: order_trans)
qed

theorem styled_text_bounds_witness:
  "\<exists>s. to_styled_text (\<lambda>_. [Element (lit ''b'') [] [TextNode [97, 0x202E, 98]]]) (lit ''x'') = Some s
     \<and> list_all (\<lambda>c. \<not> is_bidi_control c) s"
proof -
  have e: "to_styled_text (\<lambda>_. [Element (lit ''b'') [] [TextNode [97, 0x202E, 98]]]) (lit ''x'') = Some (lit ''<b>ab</b>'')"
    by code_simp
  from styled_text_bounds [OF e] e show ?thesis by blast
qed

text \<open>C10: A formatted body end to end, for a tree that fits the cap of the writer (counted by \<open>weights\<close>) and a link colour
  without angle brackets: what the core wrote, shown by the front end with web links off,
  carries no address but web addresses of the app's own permalinks, and the text a reader sees is the
  text of the core's markup, with web links on and off.\<close>

theorem formatted_body_links:
  assumes "to_styled_text tree html = Some s" and "weights (tree html) \<le> max_output" and "no_angle col"
  shows "list_all (\<lambda>h. is_web_url h \<and> internal_href h) (hrefs (renderFormatted (utf16_of s) False col))
    \<and> strip_tags False (renderFormatted (utf16_of s) click col) = strip_tags False (utf16_of s)"
proof -
  from styled_text_styled [OF assms(1,2)] obtain us where us: "s = render us" "styled False us" by blast
  define vs where "vs = map tok16 us"
  have v: "utf16_of s = render vs" "styled False vs" using us styled_utf16 by (simp_all add: vs_def render_utf16)
  note ok = styled_toks_ok [OF v(2)] styled_anchors_ok [OF v(2)]
  have "list_all is_web_url (hrefs (render vs))" using styled_hrefs [OF v(2)] by (simp add: hrefs_render ok)
  moreover have "hrefs (renderFormatted (render vs) False col) = filter internal_href (hrefs (render vs))"
    "strip_tags False (renderFormatted (render vs) click col) = strip_tags False (render vs)"
    using ok assms(3)
    by (simp_all add: renderFormatted_tokens hrefs_render strip_render tok_render_ok tok_render_hrefs tok_render_kept)
  ultimately show ?thesis by (simp add: v list_all_iff)
qed

theorem formatted_body_links_witness:
  "list_all (\<lambda>h. internal_href h)
     (hrefs (renderFormatted (utf16_of (lit ''<b>a&lt;b</b><a href='' @ [34] @ lit ''https://x.y/'' @ [34] @ lit ''>z</a>'')) False (lit ''red'')))"
proof -
  have e: "to_styled_text (\<lambda>_. sample_tree) (lit ''x'')
      = Some (lit ''<b>a&lt;b</b><a href='' @ [34] @ lit ''https://x.y/'' @ [34] @ lit ''>z</a>'')"
    by code_simp
  have "weights sample_tree \<le> max_output" by code_simp
  moreover have "no_angle (lit ''red'')" by (simp add: str_simps)
  ultimately show ?thesis using formatted_body_links [OF e] by (auto simp: list_all_iff)
qed

section \<open>What the cap cuts\<close>

lemma push_amps:
  "\<not> truncated w \<Longrightarrow> utf8_len (out w) + 5 * n \<le> max_output
    \<Longrightarrow> push_text default_ctx (replicate n 38) w = w\<lparr>out := out w @ concat (replicate n (lit ''&amp;''))\<rparr>"
proof (induction n arbitrary: w)
  case (Suc n)
  have len: "utf8_len (lit ''&amp;'') = 5" by (simp add: utf8_bytes_def str_simps)
  have c: "push_char default_ctx 38 w = w\<lparr>out := out w @ lit ''&amp;''\<rparr>"
    using Suc.prems len
    by (simp add: push_char_eq strikes_def push_letter_def push_raw_def default_ctx_def is_bidi_control_def)
  have "push_text default_ctx (replicate (Suc n) 38) w = push_text default_ctx (replicate n 38) (push_char default_ctx 38 w)"
    by (simp add: push_text_def)
  also have "\<dots> = w\<lparr>out := out w @ lit ''&amp;'' @ concat (replicate n (lit ''&amp;''))\<rparr>"
    unfolding c using Suc.prems len by (subst Suc.IH) simp_all
  finally show ?case by simp
qed (simp add: push_text_def)

definition long_tree :: "node list" where
  "long_tree = [TextNode (replicate 19660 38), Element (lit ''b'') [] [TextNode (lit ''x'')]]"

text \<open>The size proviso is needed.  An anchor that the cap leaves open is no link to the front end: it stays as it
  is, with its address, also where web links are off.\<close>

theorem open_anchor_stays:
  "(let s = lit ''<a href='' @ [34] @ lit ''https://x.y/'' @ [34] @ lit ''>z'' in renderFormatted s False (lit ''red'') = s)"
  by code_simp

text \<open>And the cap does leave tags open: a body of 19,660 ampersands and a bold letter, 20 kilobytes as it
  is sent, is cut off between the opening tag and the closing one, and the row gets a tag that is
  never closed.\<close>

theorem cap_leaves_tag_open:
  "to_styled_text (\<lambda>_. long_tree) (lit ''x'')
     = Some (concat (replicate 19660 (lit ''&amp;'')) @ lit ''<b>x'')"
proof -
  define amps where "amps = concat (replicate 19660 (lit ''&amp;''))"
  have len: "utf8_len amps = 98300"
  proof -
    have "utf8_len (concat (replicate n (lit ''&amp;''))) = 5 * n" for n
      by (induction n) (simp_all add: utf8_bytes_def str_simps)
    then show ?thesis by (simp add: amps_def)
  qed
  have t: "push_text default_ctx (replicate 19660 38) default_writer = default_writer\<lparr>out := amps\<rparr>"
    using push_amps [of default_writer 19660] by (simp add: default_writer_def max_output_def amps_def)
  have w: "write_nodes default_ctx long_tree default_writer
      = \<lparr>out = amps @ lit ''<b>x'', markup = True, truncated = True\<rparr>"
  proof -
    have i: "inline_wrapper (lit ''b'') = Some (lit ''<b>'', lit ''</b>'')" by (simp add: inline_wrapper_def)
    have s: "lit ''b'' \<noteq> lit ''s''" "lit ''b'' \<noteq> lit ''del''" "lit ''b'' \<noteq> lit ''strike''" by (simp_all add: str_simps)
    have c: "lit ''x'' = [120]" "utf8_len (lit ''<b>'') = 3" "utf8_len (lit ''</b>'') = 4"
      "(lit ''<b>'' = lit ''<code>'') = False" "lit ''<b>x'' = lit ''<b>'' @ [120]"
      by (simp_all add: utf8_bytes_def str_simps)
    have f: "write_node default_ctx (TextNode (replicate 19660 38)) default_writer = default_writer\<lparr>out := amps\<rparr>"
      unfolding t [symmetric] by (simp add: default_ctx_def default_writer_def max_depth_def)
    show ?thesis
      unfolding long_tree_def write_nodes.simps f
      by (simp add: default_ctx_def max_depth_def i s c len push_tag_def push_raw_def default_writer_def
          max_output_def push_text_def push_char_eq strikes_def push_letter_def is_bidi_control_def Let_def utf8_bytes_def)
  qed
  have "strip_br (amps @ lit ''<b>x'') = amps @ lit ''<b>x''"
    using ends_text [of "[120]" "amps @ lit ''<b>''"]
    by (subst strip_br.simps) (simp add: plain_text_def str_simps)
  moreover have "nesting_is_sane (lit ''x'')" "utf8_len (lit ''x'') \<le> max_input"
    by (simp_all add: nesting_is_sane_def max_input_def utf8_bytes_def str_simps)
  ultimately show ?thesis
    unfolding amps_def [symmetric] by (simp add: to_styled_text_def w finish_def Let_def str_simps)
qed

end
