(* ===== verification/Replies.thy ===== *)
theory Replies
  imports Prelude
begin

text \<open>
  The answering side of \<open>src/core/src/runtime.rs\<close>: the sink that delivers messages to the front end
  and keeps the debts, the ids of commands that still get an answer.  Every operation takes one lock,
  so a run is a sequence of calls.  A message is what \<open>emit\<close> tells apart: a reply with an id, or
  anything else; the payloads are opaque.
\<close>

section \<open>The sink\<close>

datatype message = Reply nat str | Other str

record sink =
  registered :: bool
  unanswered :: "nat set"
  settled :: "nat set"
  delivered :: "message list"

definition new_sink :: sink where
  "new_sink = \<lparr>registered = False, unanswered = {}, settled = {}, delivered = []\<rparr>"

definition set_callback :: "bool \<Rightarrow> sink \<Rightarrow> sink" where
  "set_callback f s = s\<lparr>registered := f\<rparr>"

definition deliver :: "message \<Rightarrow> sink \<Rightarrow> sink" where
  "deliver m s = (if registered s then s\<lparr>delivered := delivered s @ [m]\<rparr> else s)"

definition expect_reply :: "nat \<Rightarrow> sink \<Rightarrow> sink" where
  "expect_reply i s = s\<lparr>settled := settled s - {i}, unanswered := insert i (unanswered s)\<rparr>"

definition stand_in :: "nat \<Rightarrow> str \<Rightarrow> sink \<Rightarrow> sink \<times> bool" where
  "stand_in i v s =
     (if i \<notin> unanswered s then (s, False)
      else (deliver (Reply i v) (s\<lparr>unanswered := unanswered s - {i}, settled := insert i (settled s)\<rparr>), True))"

definition answer_if_owed :: "nat \<Rightarrow> str \<Rightarrow> sink \<Rightarrow> sink" where
  "answer_if_owed i v s =
     (if i \<in> unanswered s then deliver (Reply i v) (s\<lparr>unanswered := unanswered s - {i}\<rparr>) else s)"

definition emit :: "message \<Rightarrow> sink \<Rightarrow> sink" where
  "emit m s =
     (case m of
        Other v \<Rightarrow> deliver m s
      | Reply i v \<Rightarrow>
          if i \<in> settled s then s\<lparr>settled := settled s - {i}\<rparr>
          else deliver m (s\<lparr>unanswered := unanswered s - {i}\<rparr>))"

section \<open>Commands\<close>

text \<open>How a command's task ends: \<open>handle\<close> returned, panicked, or the task was aborted; the guard
  answers for an aborted one.  A teardown aborts what still runs and answers for it, in the order it
  finds them.\<close>

datatype ending = Returned | Panicked | Aborted

definition signed_out :: str where
  "signed_out = lit ''signed out''"

definition task_end :: "ending \<Rightarrow> nat \<Rightarrow> sink \<Rightarrow> sink" where
  "task_end e i s =
     (case e of
        Returned \<Rightarrow> s
      | Panicked \<Rightarrow> answer_if_owed i (lit ''the command failed unexpectedly'') s
      | Aborted \<Rightarrow> fst (stand_in i signed_out s))"

definition drain_commands :: "nat list \<Rightarrow> sink \<Rightarrow> sink" where
  "drain_commands is s = fold (\<lambda>i s. fst (stand_in i signed_out s)) is s"

text \<open>A sign-in's answer, sent by whoever gets there first.\<close>

definition answer_once :: "message \<Rightarrow> bool \<times> sink \<Rightarrow> bool \<times> sink" where
  "answer_once m r = (case r of (answered, s) \<Rightarrow> if \<not> answered then (True, emit m s) else (True, s))"

datatype call = Expect nat | Emit message | End ending nat | Drain "nat list"

definition perform :: "call \<Rightarrow> sink \<Rightarrow> sink" where
  "perform c s =
     (case c of Expect i \<Rightarrow> expect_reply i s | Emit m \<Rightarrow> emit m s | End e i \<Rightarrow> task_end e i s
      | Drain is \<Rightarrow> drain_commands is s)"

definition performs :: "call list \<Rightarrow> sink \<Rightarrow> sink" where
  "performs cs s = fold perform cs s"

section \<open>One command at a time\<close>

text \<open>What a call does for one id: the abstract debt of a command, and how many replies it got.\<close>

datatype debt = Owed | Settled | Clear

definition debt_of :: "nat \<Rightarrow> sink \<Rightarrow> debt" where
  "debt_of i s = (if i \<in> unanswered s then Owed else if i \<in> settled s then Settled else Clear)"

definition answers :: "nat \<Rightarrow> sink \<Rightarrow> nat" where
  "answers i s = length (filter (\<lambda>m. case m of Reply j v \<Rightarrow> j = i | Other v \<Rightarrow> False) (delivered s))"

datatype act = ASend | AReply | AStandIn | AIfOwed

primrec act_debt :: "act \<Rightarrow> debt \<Rightarrow> debt \<times> nat" where
  "act_debt ASend d = (Owed, 0)"
| "act_debt AReply d = (Clear, if d = Settled then 0 else 1)"
| "act_debt AStandIn d = (if d = Owed then (Settled, 1) else (d, 0))"
| "act_debt AIfOwed d = (if d = Owed then (Clear, 1) else (d, 0))"

definition acts_on :: "nat \<Rightarrow> call \<Rightarrow> act list" where
  "acts_on i c =
     (case c of
        Expect j \<Rightarrow> if j = i then [ASend] else []
      | Emit m \<Rightarrow> (case m of Reply j v \<Rightarrow> if j = i then [AReply] else [] | Other v \<Rightarrow> [])
      | End e j \<Rightarrow> if j \<noteq> i then [] else (case e of Returned \<Rightarrow> [] | Panicked \<Rightarrow> [AIfOwed] | Aborted \<Rightarrow> [AStandIn])
      | Drain is \<Rightarrow> map (\<lambda>_. AStandIn) (filter (\<lambda>j. j = i) is))"

primrec acts_debt :: "act list \<Rightarrow> debt \<Rightarrow> debt \<times> nat" where
  "acts_debt [] d = (d, 0)"
| "acts_debt (a # as) d =
     (let (d', n) = act_debt a d; (d'', m) = acts_debt as d' in (d'', n + m))"

text \<open>An id is never owed and settled at once.\<close>

definition books_ok :: "sink \<Rightarrow> bool" where
  "books_ok s \<longleftrightarrow> registered s \<and> unanswered s \<inter> settled s = {}"

lemma acts_append: "acts_debt (as @ bs) d =
    (let (d', n) = acts_debt as d; (d'', m) = acts_debt bs d' in (d'', n + m))"
  by (induction as arbitrary: d) (auto simp: Let_def split: prod.split)

lemmas sink_defs = expect_reply_def stand_in_def answer_if_owed_def emit_def deliver_def debt_of_def
  answers_def books_ok_def

lemma stand_in_debt:
  "books_ok s \<Longrightarrow> books_ok (fst (stand_in j v s))
     \<and> (debt_of i (fst (stand_in j v s)), answers i (fst (stand_in j v s)))
       = (if j = i then (fst (act_debt AStandIn (debt_of i s)), answers i s + snd (act_debt AStandIn (debt_of i s)))
          else (debt_of i s, answers i s))"
  by (auto simp: sink_defs)

lemma drain_debt:
  "books_ok s \<Longrightarrow> books_ok (drain_commands is s)
     \<and> (debt_of i (drain_commands is s), answers i (drain_commands is s))
       = (let (d, n) = acts_debt (map (\<lambda>_. AStandIn) (filter (\<lambda>j. j = i) is)) (debt_of i s) in (d, answers i s + n))"
proof (induction "is" arbitrary: s)
  case (Cons j js)
  have d: "drain_commands (j # js) s = drain_commands js (fst (stand_in j signed_out s))"
    by (simp add: drain_commands_def)
  from stand_in_debt [OF Cons.prems, of j signed_out i] Cons.IH [of "fst (stand_in j signed_out s)"]
  show ?case unfolding d by (auto simp: Let_def split: prod.splits if_splits)
qed (simp add: drain_commands_def)

lemma perform_debt:
  assumes "books_ok s"
  shows "books_ok (perform c s)
     \<and> (debt_of i (perform c s), answers i (perform c s))
       = (let (d, n) = acts_debt (acts_on i c) (debt_of i s) in (d, answers i s + n))"
proof (cases c)
  case (End e j)
  with assms stand_in_debt [OF assms, of j signed_out i] show ?thesis
    by (cases e) (auto simp: perform_def task_end_def acts_on_def answer_if_owed_def deliver_def debt_of_def
        answers_def books_ok_def)
next
  case (Drain "is")
  with drain_debt [OF assms] show ?thesis by (simp add: perform_def acts_on_def)
next
  case (Expect j)
  with assms show ?thesis by (auto simp: perform_def acts_on_def sink_defs)
next
  case (Emit m)
  with assms show ?thesis by (cases m) (auto simp: perform_def acts_on_def sink_defs)
qed

lemma performs_debt:
  "books_ok s \<Longrightarrow> books_ok (performs cs s)
     \<and> (debt_of i (performs cs s), answers i (performs cs s))
       = (let (d, n) = acts_debt (concat (map (acts_on i) cs)) (debt_of i s) in (d, answers i s + n))"
proof (induction cs arbitrary: s)
  case (Cons c cs)
  from perform_debt [OF Cons.prems, of c i] Cons.IH [of "perform c s"] show ?case
    by (auto simp: performs_def acts_append Let_def split: prod.splits)
qed (simp add: performs_def)

text \<open>The life of one command: sent once, answered by itself at most once, and not by itself any more
  once it panicked.\<close>

fun orderly :: "bool \<Rightarrow> act list \<Rightarrow> bool" where
  "orderly may [] = True"
| "orderly may (ASend # as) = False"
| "orderly may (AReply # as) = (may \<and> orderly False as)"
| "orderly may (AStandIn # as) = orderly may as"
| "orderly may (AIfOwed # as) = orderly False as"

lemma snd_acts: "snd (acts_debt (a # as) d) = snd (act_debt a d) + snd (acts_debt as (fst (act_debt a d)))"
  by (simp add: Let_def split: prod.split)

lemma orderly_clear: "orderly False as \<Longrightarrow> snd (acts_debt as Clear) = 0"
proof (induction as)
  case (Cons a as)
  then show ?case by (cases a) (simp_all add: snd_acts del: acts_debt.simps(2))
qed simp

lemma orderly_weaken: "orderly False as \<Longrightarrow> orderly may as"
proof (induction as arbitrary: may)
  case (Cons a as)
  then show ?case by (cases a) auto
qed simp

lemma orderly_settled: "orderly may as \<Longrightarrow> snd (acts_debt as Settled) = 0"
proof (induction as arbitrary: may)
  case (Cons a as)
  then show ?case by (cases a) (auto simp: snd_acts orderly_clear simp del: acts_debt.simps(2))
qed simp

lemma orderly_once: "orderly True as \<Longrightarrow> snd (acts_debt as Owed) = (if as = [] then 0 else 1)"
proof (cases as)
  case (Cons a bs)
  then show "orderly True as \<Longrightarrow> snd (acts_debt as Owed) = (if as = [] then 0 else 1)"
    by (cases a) (simp_all add: snd_acts orderly_clear orderly_settled del: acts_debt.simps(2))
qed simp

section \<open>Properties\<close>

text \<open>C30: The books refine, for every id on its own, the three states of a debt: whatever the other
  commands do and in whatever order, what becomes of an id and how many replies it gets is decided by
  the calls that name it.\<close>

theorem replies_refine:
  assumes "registered s" and "unanswered s \<inter> settled s = {}"
  shows "(debt_of i (performs cs s), answers i (performs cs s))
    = (let (d, n) = acts_debt (concat (map (acts_on i) cs)) (debt_of i s) in (d, answers i s + n))"
  using performs_debt assms by (simp add: books_ok_def)

theorem replies_refine_witness:
  "answers 1 (performs [Expect 1, Expect 2, Drain [2, 1], Emit (Reply 1 [])] (set_callback True new_sink)) = 1"
  using replies_refine [of "set_callback True new_sink" 1 "[Expect 1, Expect 2, Drain [2, 1], Emit (Reply 1 [])]"]
  by (simp add: set_callback_def new_sink_def acts_on_def debt_of_def) (simp add: answers_def)

text \<open>C4: Every command is answered exactly once, as soon as anything answers at all: sent, and then
  answered by itself, by the guard of its aborted task, by a teardown, or after a panic, in any
  order and among any other commands - a command that answers itself at most once, and not after it
  panicked, gets one reply in all.\<close>

theorem exactly_one_reply:
  assumes "registered s" and "unanswered s \<inter> settled s = {}"
    and "concat (map (acts_on i) cs) = ASend # as" and "orderly True as"
  shows "answers i (performs cs s) = answers i s + (if as = [] then 0 else 1)"
  using performs_debt [of s cs i] assms(1-3) orderly_once [OF assms(4)]
  by (auto simp: books_ok_def Let_def split: prod.splits)

theorem exactly_one_reply_witness:
  "answers 7 (performs [Expect 7, Expect 2, Drain [2, 7], End Aborted 7, Emit (Reply 7 [])] (set_callback True new_sink)) = 1"
  using exactly_one_reply [of "set_callback True new_sink" 7 "[Expect 7, Expect 2, Drain [2, 7], End Aborted 7, Emit (Reply 7 [])]"
      "[AStandIn, AStandIn, AReply]"]
  by (simp add: set_callback_def new_sink_def acts_on_def) (simp add: answers_def)

text \<open>A sign-in's command is answered once whoever answers: of any sequence of answers through its
  flag exactly the first goes to the sink.\<close>

theorem sign_in_answered_once:
  "fold answer_once (m # ms) (False, s) = (True, emit m s)"
proof -
  have "fold answer_once ms (True, r) = (True, r)" for ms r
    by (induction ms) (simp_all add: answer_once_def)
  then show ?thesis by (simp add: answer_once_def)
qed

end
