(* ===== verification/Send_Queue.thy ===== *)
theory Send_Queue
  imports Rust_Text
begin

text \<open>
  \<open>src/core/src/sendqueue.rs\<close> and the recovery loop of \<open>src/core/src/roomlist.rs\<close>: the SDK switches a
  room's send queue off after a failure; the program counts the failures of each request, parks a
  request that used up its tries, and wakes the other rooms again on timers.  Instants and durations
  are numbers of nanoseconds; instants never run backwards, and a difference is cut off at zero.
\<close>

section \<open>Counting and parking\<close>

type_synonym request = "str \<times> str"

definition attachment_attempts :: nat where
  "attachment_attempts = 3"

definition count_window :: nat where
  "count_window = secs (6 * 3600)"

definition text_attempts :: nat where
  "text_attempts = 10"

definition text_patience :: nat where
  "text_patience = secs (30 * 60)"

definition first_delay :: nat where
  "first_delay = secs 5"

definition max_delay :: nat where
  "max_delay = secs 60"

definition settled_after :: nat where
  "settled_after = secs 180"

record tries =
  tally :: nat
  since :: nat

record parking =
  attempts :: "request \<Rightarrow> tries option"
  parked :: "request set"
  waiting :: "str set"
  backoff :: "str \<Rightarrow> (nat \<times> nat) option"

definition no_parking :: parking where
  "no_parking = \<lparr>attempts = (\<lambda>_. None), parked = {}, waiting = {}, backoff = (\<lambda>_. None)\<rparr>"

text \<open>One more counted failure; the flag says that the request is parked.\<close>

definition failed :: "str \<Rightarrow> str \<Rightarrow> bool \<Rightarrow> nat \<Rightarrow> parking \<Rightarrow> parking \<times> bool" where
  "failed room txn attachment now p =
     (if (room, txn) \<in> parked p then (p, True)
      else
        (let p = p\<lparr>waiting := insert room (waiting p)\<rparr>;
             t = (case attempts p (room, txn) of None \<Rightarrow> \<lparr>tally = 0, since = now\<rparr> | Some t \<Rightarrow> t);
             t = (if now - since t > count_window then \<lparr>tally = 0, since = now\<rparr> else t);
             t = t\<lparr>tally := tally t + 1\<rparr>;
             p = p\<lparr>attempts := (attempts p)((room, txn) := Some t)\<rparr>;
             park = (if attachment then tally t \<ge> attachment_attempts
                     else tally t \<ge> text_attempts \<and> now - since t \<ge> text_patience)
         in if park
            then (p\<lparr>attempts := (attempts p)((room, txn) := None), parked := insert (room, txn) (parked p),
                    waiting := waiting p - {room}\<rparr>, True)
            else (p, False)))"

definition next_delay :: "str \<Rightarrow> nat \<Rightarrow> parking \<Rightarrow> parking \<times> nat" where
  "next_delay room now p =
     (let delay = (case backoff p room of
                     Some (prev, at_time) \<Rightarrow> if now - at_time \<le> settled_after then min max_delay (prev * 2) else first_delay
                   | None \<Rightarrow> first_delay)
      in (p\<lparr>backoff := (backoff p)(room := Some (delay, now))\<rparr>, delay))"

definition remaining :: "str \<Rightarrow> nat \<Rightarrow> parking \<Rightarrow> nat" where
  "remaining room now p =
     (case backoff p room of None \<Rightarrow> 0 | Some (delay, at_time) \<Rightarrow> at_time + delay - now)"

definition line_back :: "parking \<Rightarrow> parking" where
  "line_back p = p\<lparr>backoff := (\<lambda>_. None)\<rparr>"

definition release :: "str \<Rightarrow> str \<Rightarrow> parking \<Rightarrow> parking" where
  "release room txn p =
     p\<lparr>attempts := (attempts p)((room, txn) := None), parked := parked p - {(room, txn)}\<rparr>"

definition keep_only :: "str \<Rightarrow> str set \<Rightarrow> parking \<Rightarrow> parking" where
  "keep_only room queued p =
     p\<lparr>attempts := (\<lambda>(r, t). if r \<noteq> room \<or> t \<in> queued then attempts p (r, t) else None),
       parked := {(r, t) \<in> parked p. r \<noteq> room \<or> t \<in> queued}\<rparr>"

definition is_parked :: "str \<Rightarrow> str \<Rightarrow> parking \<Rightarrow> bool" where
  "is_parked room txn p \<longleftrightarrow> (room, txn) \<in> parked p"

definition room_parked :: "str \<Rightarrow> parking \<Rightarrow> bool" where
  "room_parked room p \<longleftrightarrow> room \<in> fst ` parked p"

datatype failure = Answered nat | Unanswered bool | LocalFailure

definition counts_as_attempt :: "failure \<Rightarrow> bool \<Rightarrow> bool" where
  "counts_as_attempt f attachment =
     (case f of Answered status \<Rightarrow> status \<noteq> 429
      | Unanswered connected \<Rightarrow> attachment \<and> connected
      | LocalFailure \<Rightarrow> True)"

text \<open>The queue as the store tells it: the request ids with their kinds, or not readable.\<close>

definition recoverable_failure ::
  "(str \<times> bool) list option \<Rightarrow> str \<Rightarrow> str \<Rightarrow> failure \<Rightarrow> nat \<Rightarrow> parking \<Rightarrow> parking \<times> bool" where
  "recoverable_failure queued room txn f now p =
     (case queued of
        None \<Rightarrow> (p\<lparr>waiting := insert room (waiting p)\<rparr>, False)
      | Some q \<Rightarrow>
          (let attachment = (case map_of q txn of None \<Rightarrow> False | Some a \<Rightarrow> a);
               p = keep_only room (fst ` set q) p
           in if \<not> counts_as_attempt f attachment
              then (p\<lparr>waiting := insert room (waiting p)\<rparr>, False)
              else failed room txn attachment now p))"

section \<open>The rooms' queues\<close>

text \<open>
  \<open>switched_off\<close> are the rooms whose queue the SDK has switched off after a recoverable failure;
  \<open>channel\<close> the failures on their way to the loop, by their rooms, the oldest first, and \<open>lagging\<close> says that
  the channel has dropped some and the loop has not been told yet; \<open>handling\<close> are the rooms the loop is working
  on, \<open>timers\<close> those with a timer (\<open>pending\<close>), \<open>waking\<close> those whose timer has let go of the room but
  not called \<open>wake_room\<close> yet, \<open>listed\<close> those a reconnect has listed and not woken yet, and \<open>retrying\<close>
  those in which the user's retry or removal of a request has released it and not woken the queue yet.
\<close>

record queues =
  books :: parking
  switched_off :: "str set"
  channel :: "str list"
  lagging :: bool
  handling :: "str set"
  timers :: "str set"
  waking :: "str set"
  listed :: "str set"
  retrying :: "str list"

definition no_queues :: queues where
  "no_queues = \<lparr>books = no_parking, switched_off = {}, channel = [], lagging = False, handling = {}, timers = {}, waking = {},
     listed = {}, retrying = []\<rparr>"

definition wake :: "str \<Rightarrow> queues \<Rightarrow> queues" where
  "wake room q = q\<lparr>switched_off := switched_off q - {room}\<rparr>"

definition wake_room :: "str \<Rightarrow> queues \<Rightarrow> queues" where
  "wake_room room q =
     (if room_parked room (books q) then q
      else wake room (q\<lparr>books := (books q)\<lparr>waiting := waiting (books q) - {room}\<rparr>\<rparr>))"

text \<open>Rooms that may be off: those noted, and those with anything queued where the store can say so.\<close>

definition rooms_off :: "str list option \<Rightarrow> parking \<Rightarrow> str set" where
  "rooms_off unsent p = waiting p \<union> (case unsent of None \<Rightarrow> {} | Some rs \<Rightarrow> set rs)"

text \<open>\<open>wake_running\<close> up to its loop: each of the rooms it lists is then woken in a step of its own.\<close>

definition wake_running :: "str list option \<Rightarrow> queues \<Rightarrow> queues" where
  "wake_running unsent q =
     (let q = q\<lparr>books := line_back (books q)\<rparr> in q\<lparr>listed := listed q \<union> rooms_off unsent (books q)\<rparr>)"

definition rooms_to_wake :: "str list option \<Rightarrow> nat \<Rightarrow> parking \<Rightarrow> (str \<times> nat) set" where
  "rooms_to_wake unsent now p =
     (\<lambda>r. (r, remaining r now p)) ` {r \<in> rooms_off unsent p. \<not> room_parked r p}"

definition wake_later :: "str \<Rightarrow> queues \<Rightarrow> queues" where
  "wake_later room q = q\<lparr>timers := insert room (timers q)\<rparr>"

text \<open>\<open>retry\<close> and \<open>discard\<close> up to the call of the SDK, which sends the request again or takes it out: found in the queue, it is
  released.  When the SDK has answered, whatever it says, the queue is woken.  (\<open>stuck\<close> wakes it too, after taking
  out a reaction the server has already.)\<close>

definition retry :: "bool \<Rightarrow> str \<Rightarrow> str \<Rightarrow> queues \<Rightarrow> queues" where
  "retry found room txn q =
     (if \<not> found then q else q\<lparr>books := release room txn (books q), retrying := room # retrying q\<rparr>)"

definition retried :: "str \<Rightarrow> queues \<Rightarrow> queues" where
  "retried room q =
     (if room \<notin> set (retrying q) then q else wake room (q\<lparr>retrying := remove1 room (retrying q)\<rparr>))"

section \<open>The recovery loop\<close>

datatype queue_event =
    SdkFails str
  | Overflows nat
  | Told str "(str \<times> bool) list option" failure nat
  | Schedules str nat
  | Lagged "str list option" nat
  | TimerRings str
  | TimerWakes str
  | Running "str list option"
  | WakesListed str
  | Retry bool str str
  | Retried str

text \<open>The loop first does the counting, with the queue read on the way, then sees to the timer: two
  steps, between which others may run.  A room whose timer is there gets no second one, and no new
  wait.  Of a full channel the oldest failures are lost; the loop is told so before it is told of the next one
  that was kept, and gives every room that may be off a timer.\<close>

definition queue_step :: "queue_event \<Rightarrow> queues \<Rightarrow> queues" where
  "queue_step ev q =
     (case ev of
        SdkFails r \<Rightarrow> q\<lparr>switched_off := insert r (switched_off q), channel := channel q @ [r]\<rparr>
      | Overflows n \<Rightarrow> q\<lparr>channel := drop n (channel q), lagging := True\<rparr>
      | Told t queued f now \<Rightarrow>
          if lagging q then q
          else (case channel q of
             [] \<Rightarrow> q
           | r # rs \<Rightarrow>
               (let (p, is_parked) = recoverable_failure queued r t f now (books q)
                in q\<lparr>books := p, channel := rs, handling := (if is_parked then handling q else insert r (handling q))\<rparr>))
      | Schedules r now \<Rightarrow>
          if r \<notin> handling q then q
          else if r \<in> timers q then q\<lparr>handling := handling q - {r}\<rparr>
          else wake_later r (q\<lparr>handling := handling q - {r}, books := fst (next_delay r now (books q))\<rparr>)
      | Lagged unsent now \<Rightarrow>
          if \<not> lagging q then q
          else q\<lparr>lagging := False, timers := timers q \<union> fst ` rooms_to_wake unsent now (books q)\<rparr>
      | TimerRings r \<Rightarrow>
          if r \<notin> timers q then q else q\<lparr>timers := timers q - {r}, waking := insert r (waking q)\<rparr>
      | TimerWakes r \<Rightarrow> if r \<notin> waking q then q else wake_room r (q\<lparr>waking := waking q - {r}\<rparr>)
      | Running unsent \<Rightarrow> wake_running unsent q
      | WakesListed r \<Rightarrow> if r \<notin> listed q then q else wake_room r (q\<lparr>listed := listed q - {r}\<rparr>)
      | Retry found r t \<Rightarrow> retry found r t q
      | Retried r \<Rightarrow> retried r q)"

text \<open>A proviso on the store: when the loop asks after dropped failures, it can be read, and lists every room that is off,
  but for those whose failure is still in the channel and those a retry is at (which may have emptied the queue).  A
  request that failed recoverably stays in the store.\<close>

definition store_tells :: "queue_event \<Rightarrow> queues \<Rightarrow> bool" where
  "store_tells ev q \<longleftrightarrow>
     (case ev of
        Lagged unsent now \<Rightarrow>
          (case unsent of None \<Rightarrow> False | Some rs \<Rightarrow> switched_off q \<subseteq> set rs \<union> set (channel q) \<union> set (retrying q))
      | _ \<Rightarrow> True)"

inductive queue_reachable :: "queues \<Rightarrow> bool" where
  queue_start: "queue_reachable no_queues"
| queue_more: "queue_reachable q \<Longrightarrow> store_tells ev q \<Longrightarrow> queue_reachable (queue_step ev q)"

section \<open>Lemmas\<close>

inductive_cases queue_reachableE: "queue_reachable q"



lemma next_delay_parked [simp]: "parked (fst (next_delay r now p)) = parked p"
  by (simp add: next_delay_def Let_def)

lemma room_parked_frame [simp]:
  "room_parked r (p\<lparr>waiting := w\<rparr>) = room_parked r p" "room_parked r (line_back p) = room_parked r p"
  "room_parked r (fst (next_delay r' now p)) = room_parked r p"
  by (simp_all add: room_parked_def line_back_def)


text \<open>Whoever will see to a room that is off.\<close>

definition seen_to :: "str \<Rightarrow> queues \<Rightarrow> bool" where
  "seen_to r q \<longleftrightarrow> r \<in> set (channel q) \<or> lagging q \<or> r \<in> handling q \<or> r \<in> timers q \<or> r \<in> waking q \<or> r \<in> set (retrying q)"









subsection \<open>Counting\<close>

definition fail_at :: "str \<Rightarrow> str \<Rightarrow> bool \<Rightarrow> nat \<Rightarrow> parking \<Rightarrow> parking" where
  "fail_at room txn a now p = fst (failed room txn a now p)"

text \<open>The count of a request that was first counted at \<open>s\<close>, while the window is open.\<close>

definition counting :: "request \<Rightarrow> nat \<Rightarrow> nat \<Rightarrow> parking \<Rightarrow> bool" where
  "counting k n s p \<longleftrightarrow> k \<notin> parked p \<and> attempts p k = (if n = 0 then None else Some \<lparr>tally = n, since = s\<rparr>)"

definition exhausted :: "bool \<Rightarrow> nat \<Rightarrow> nat \<Rightarrow> bool" where
  "exhausted a n passed \<longleftrightarrow> (if a then n \<ge> attachment_attempts else n \<ge> text_attempts \<and> passed \<ge> text_patience)"

lemma fail_counting:
  assumes "counting (room, txn) n s p" and "n = 0 \<longrightarrow> now = s" and "now - s \<le> count_window"
  shows "if exhausted a (Suc n) (now - s) then is_parked room txn (fail_at room txn a now p)
         else counting (room, txn) (Suc n) s (fail_at room txn a now p)"
  using assms
  by (auto simp: counting_def fail_at_def failed_def Let_def exhausted_def is_parked_def split: if_splits)

lemma parked_stays: "is_parked room txn p \<Longrightarrow> is_parked room txn (fold (fail_at room txn a) ts p)"
  by (induction ts arbitrary: p) (auto simp: is_parked_def fail_at_def failed_def)

lemma exhausted_mono: "exhausted a n d \<Longrightarrow> n \<le> m \<Longrightarrow> d \<le> e \<Longrightarrow> exhausted a m e"
  by (auto simp: exhausted_def split: if_splits)

lemma last_mono: "sorted (t # ts) \<Longrightarrow> t \<le> last (t # ts)"
  by (cases ts rule: rev_cases) (auto simp: sorted_append)

lemma fails_counting:
  assumes "counting (room, txn) n s p" and "n = 0 \<longrightarrow> hd ts = s" and "sorted ts" and "ts \<noteq> []"
    and "last ts - s \<le> count_window" and "s \<le> hd ts"
  shows "is_parked room txn (fold (fail_at room txn a) ts p) \<longleftrightarrow> exhausted a (n + length ts) (last ts - s)"
  using assms
proof (induction ts arbitrary: n p)
  case (Cons t ts)
  have l: "t \<le> last (t # ts)" using last_mono Cons.prems(3) .
  then have w: "t - s \<le> count_window" using Cons.prems(5) by linarith
  have z: "n = 0 \<longrightarrow> t = s" using Cons.prems(2) by simp
  note f = fail_counting [OF Cons.prems(1) z w, of a]
  show ?case
  proof (cases "exhausted a (Suc n) (t - s)")
    case True
    then have "is_parked room txn (fold (fail_at room txn a) (t # ts) p)" using f parked_stays by simp
    moreover have "exhausted a (n + length (t # ts)) (last (t # ts) - s)"
      by (rule exhausted_mono [OF True]) (use l in auto)
    ultimately show ?thesis by blast
  next
    case False
    with f have c: "counting (room, txn) (Suc n) s (fail_at room txn a t p)" by simp
    show ?thesis
    proof (cases "ts = []")
      case True
      with c False show ?thesis by (simp add: counting_def is_parked_def)
    next
      case n: False
      with Cons.prems have h: "sorted ts" "s \<le> hd ts" "last ts - s \<le> count_window" by (cases ts; auto)+
      from Cons.IH [OF c _ h(1) n h(3) h(2)] n show ?thesis by simp
    qed
  qed
qed simp

subsection \<open>Waiting\<close>

fun delays :: "str \<Rightarrow> nat list \<Rightarrow> parking \<Rightarrow> nat list" where
  "delays room [] p = []"
| "delays room (now # ts) p = (let (p', d) = next_delay room now p in d # delays room ts p')"

text \<open>Failures close on one another: each at most three minutes after the one before.\<close>

fun close_by :: "nat list \<Rightarrow> bool" where
  "close_by (s # t # ts) = (t - s \<le> settled_after \<and> close_by (t # ts))"
| "close_by _ = True"

definition doubled :: "nat \<Rightarrow> nat" where
  "doubled n = min max_delay (first_delay * 2 ^ n)"

lemma doubled_next: "min max_delay (doubled n * 2) = doubled (Suc n)"
  by (simp add: doubled_def min_def max_delay_def)

lemma delays_doubled:
  "backoff p room = Some (doubled n, s) \<Longrightarrow> close_by (s # ts)
    \<Longrightarrow> delays room ts p = map doubled [Suc n..<Suc n + length ts]"
proof (induction ts arbitrary: n s p)
  case (Cons t ts)
  have "next_delay room t p = (p\<lparr>backoff := (backoff p)(room := Some (doubled (Suc n), t))\<rparr>, doubled (Suc n))"
    using Cons.prems by (simp add: next_delay_def doubled_next Let_def)
  moreover have "delays room ts (p\<lparr>backoff := (backoff p)(room := Some (doubled (Suc n), t))\<rparr>)
      = map doubled [Suc (Suc n)..<Suc (Suc n) + length ts]"
    using Cons.prems by (intro Cons.IH) auto
  ultimately show ?case by (simp add: upt_conv_Cons del: upt_Suc)
qed simp

section \<open>Properties\<close>




text \<open>Where the store cannot be read, a lag forgets a room: its failure was dropped, it was never noted, and no timer comes
  for it, until a reconnect.\<close>

theorem lag_over_unreadable_store:
  "let q = fold queue_step [SdkFails [1], Overflows 1, Lagged None 0] no_queues
   in [1] \<in> switched_off q \<and> \<not> room_parked [1] (books q) \<and> \<not> seen_to [1] q"
  by (simp add: queue_step_def no_queues_def no_parking_def rooms_to_wake_def rooms_off_def room_parked_def seen_to_def Let_def)

text \<open>C20: The retrying of a request comes to an end, and not too soon: of failures that count, within
  the window of six hours, an attachment is parked exactly if there were three; a text exactly if
  there were ten and the last came half an hour or more after the first.\<close>

theorem request_parked_iff:
  assumes "(room, txn) \<notin> parked p" and "attempts p (room, txn) = None"
    and "sorted ts" and "ts \<noteq> []" and "last ts - hd ts \<le> count_window"
  shows "is_parked room txn (fold (fail_at room txn attachment) ts p) \<longleftrightarrow>
    (if attachment then length ts \<ge> attachment_attempts
     else length ts \<ge> text_attempts \<and> last ts - hd ts \<ge> text_patience)"
  using fails_counting [of room txn 0 "hd ts" p ts attachment] assms
  by (simp add: counting_def exhausted_def)

theorem request_parked_iff_witness:
  "is_parked [1] [2] (fold (fail_at [1] [2] True) [0, 5, 9] no_parking)"
  using request_parked_iff [of "[1]" "[2]" no_parking "[0, 5, 9]" True]
  by (simp add: no_parking_def count_window_def secs_def attachment_attempts_def)

text \<open>The waits of a room whose failures come close on one another are five seconds, doubling, up to
  a minute: the n-th is the smaller of a minute and five seconds times two to the n.\<close>

theorem waits_double:
  assumes "backoff p room = None" and "close_by ts"
  shows "delays room ts p = map (\<lambda>n. min max_delay (first_delay * 2 ^ n)) [0..<length ts]"
proof (cases ts)
  case (Cons t us)
  have d: "next_delay room t p = (p\<lparr>backoff := (backoff p)(room := Some (doubled 0, t))\<rparr>, doubled 0)"
    using assms(1) by (simp add: next_delay_def doubled_def min_def max_delay_def first_delay_def secs_def)
  have "delays room us (p\<lparr>backoff := (backoff p)(room := Some (doubled 0, t))\<rparr>) = map doubled [Suc 0..<Suc 0 + length us]"
    using assms(2) Cons by (intro delays_doubled) auto
  then have "delays room ts p = doubled 0 # map doubled [Suc 0..<length ts]" using d Cons by simp
  also have "\<dots> = map doubled [0..<length ts]" using Cons by (simp add: upt_conv_Cons del: upt_Suc)
  finally show ?thesis by (simp add: doubled_def [abs_def])
qed simp

theorem waits_double_witness:
  "delays [1] [0, 0, 0, 0, 0] no_parking = [secs 5, secs 10, secs 20, secs 40, secs 60]"
  using waits_double [of no_parking "[1]" "[0, 0, 0, 0, 0]"]
  by (simp add: no_parking_def max_delay_def first_delay_def secs_def upt_conv_Cons)

text \<open>The user's retry of one request wakes the room even where another request in it is parked: the
  queue is on again, with the parked request in it, which \<open>wake_room\<close> and a reconnect would never
  do.\<close>

theorem retry_wakes_over_parked:
  assumes "(room, txn) \<in> parked (books q)" and "txn' \<noteq> txn"
  shows "room \<notin> switched_off (retried room (retry True room txn' q))
    \<and> room_parked room (books (retried room (retry True room txn' q)))
    \<and> switched_off (wake_room room q) = switched_off q
    \<and> switched_off (fold queue_step [Running unsent, WakesListed room] q) = switched_off q"
proof -
  have "(room, txn) \<in> parked (books q) - {(room, txn')}" using assms by simp
  then have "room \<in> fst ` (parked (books q) - {(room, txn')})" by (rule rev_image_eqI) simp
  moreover have "room_parked room (books q)" using assms(1) unfolding room_parked_def by (rule rev_image_eqI) simp
  ultimately show ?thesis
    by (simp add: retry_def retried_def wake_def release_def wake_room_def queue_step_def wake_running_def Let_def)
       (simp add: room_parked_def)
qed

theorem retry_wakes_over_parked_witness:
  "[1] \<notin> switched_off (retried [1] (retry True [1] [3] (no_queues\<lparr>books := no_parking\<lparr>parked := {([1], [2])}\<rparr>, switched_off := {[1]}\<rparr>)))"
  using retry_wakes_over_parked [of "[1]" "[2]" "no_queues\<lparr>books := no_parking\<lparr>parked := {([1], [2])}\<rparr>, switched_off := {[1]}\<rparr>" "[3]" None]
  by simp

end
