(* ===== verification/Poll_Verdicts.thy ===== *)
theory Poll_Verdicts
  imports Text_Safety "HOL-Library.AList"
begin

text \<open>
  \<open>src/core/src/poll.rs\<close>, the half that decides whether a poll has ended.  The SDK applies any end of
  a poll whoever sent it; here a poll ends on its creator's word.  The program keeps a verdict per
  poll, starts a check where the SDK reports an end nobody has vouched for, reads the poll's relations
  from the server, and books the user's own end as it is queued.  The map of verdicts is an association
  list with distinct keys; checks run side by side and may be dropped at any time.

  Parameters: what the SDK makes of a list of responses (\<open>compile_unstable_poll_results\<close>), whether it
  takes a list of answers (\<open>UnstablePollAnswers::try_from\<close>), whether a text is an event id
  (\<open>EventId::parse\<close>), and what the server answers to the n-th request for a page.
\<close>

section \<open>The verdicts\<close>

type_synonym votes = "(str \<times> str list) list"

datatype verdict =
    Pending
  | Ended votes bool
  | Rogue votes bool nat
  | Failed nat nat

type_synonym verdicts = "(str \<times> verdict) list"

definition verdict_limit :: nat where
  "verdict_limit = 500"

definition recount_after :: nat where
  "recount_after = secs 60"

definition check_attempts :: nat where
  "check_attempts = 2"

definition retry_after :: nat where
  "retry_after = secs 300"

definition relation_pages :: nat where
  "relation_pages = 5"

definition remember_in :: "verdicts \<Rightarrow> str \<Rightarrow> verdict \<Rightarrow> verdicts" where
  "remember_in known i v =
     AList.update i v (if length known \<ge> verdict_limit \<and> map_of known i = None then [] else known)"

definition ended_by_creator :: "verdicts \<Rightarrow> str \<Rightarrow> bool" where
  "ended_by_creator known i \<longleftrightarrow> (case map_of known i of Some (Ended _ _) \<Rightarrow> True | _ \<Rightarrow> False)"

section \<open>A check\<close>

text \<open>What the SDK reports of a poll (\<open>PollResult\<close>), and the poll as started.\<close>

record poll_result =
  question :: str
  undisclosed :: bool
  max_selections :: nat
  answers :: "(str \<times> str) list"
  sdk_votes :: votes
  end_time :: "nat option"

record block =
  b_question :: str
  b_undisclosed :: bool
  b_max :: nat
  b_answers :: "(str \<times> str) list"

text \<open>\<open>js_int::UInt\<close> holds the integers a JSON number can.\<close>

definition uint_max :: nat where
  "uint_max = 9007199254740991"

definition build_block :: "((str \<times> str) list \<Rightarrow> bool) \<Rightarrow> str \<Rightarrow> bool \<Rightarrow> nat \<Rightarrow> (str \<times> str) list \<Rightarrow> block option" where
  "build_block takes q und most listed =
     (if \<not> takes listed then None
      else Some \<lparr>b_question = q, b_undisclosed = und, b_max = (if most \<le> uint_max then most else 1),
                 b_answers = listed\<rparr>)"

text \<open>A row of the timeline: a poll with its event id (none while it is a local echo), its sender and
  the SDK's results, or anything else.\<close>

datatype row = OtherRow | PollRow "str option" str poll_result

record check =
  event_id :: str
  creator :: str
  started :: block
  counted :: votes
  sdk_end :: "nat option"
  attempt :: nat
  recount :: bool
  armed :: bool

definition new_check ::
  "((str \<times> str) list \<Rightarrow> bool) \<Rightarrow> str option \<Rightarrow> str \<Rightarrow> poll_result \<Rightarrow> nat \<Rightarrow> bool \<Rightarrow> bool \<Rightarrow> check option" where
  "new_check takes i sender r n again arm =
     (case i of
        None \<Rightarrow> None
      | Some i \<Rightarrow>
          (case build_block takes (question r) (undisclosed r) (max_selections r) (answers r) of
             None \<Rightarrow> None
           | Some b \<Rightarrow> Some \<lparr>event_id = i, creator = sender, started = b, counted = sdk_votes r,
                             sdk_end = end_time r, attempt = n, recount = again, armed = arm\<rparr>))"

text \<open>One row of \<open>checks_needed\<close>: what is known of the poll decides whether, and how, it is asked for.\<close>

datatype ask = Skip | Ask nat | AskAgain votes bool

definition asked :: "nat \<Rightarrow> verdict option \<Rightarrow> ask" where
  "asked now v =
     (case v of
        None \<Rightarrow> Ask 0
      | Some (Failed n at) \<Rightarrow>
          if n < check_attempts then Ask n
          else if now - at > retry_after then Ask 0
          else Skip
      | Some (Rogue votes complete checked) \<Rightarrow>
          if now - checked > recount_after then AskAgain votes complete else Skip
      | Some _ \<Rightarrow> Skip)"

definition check_row ::
  "((str \<times> str) list \<Rightarrow> bool) \<Rightarrow> nat \<Rightarrow> row \<Rightarrow> verdicts \<times> check list \<Rightarrow> verdicts \<times> check list" where
  "check_row takes now row kc =
     (case (row, kc) of
        (PollRow (Some i) sender r, (known, checks)) \<Rightarrow>
          if end_time r = None then kc
          else (case asked now (map_of known i) of
                  Skip \<Rightarrow> kc
                | AskAgain votes complete \<Rightarrow>
                    (AList.update i (Rogue votes complete now) known,
                     checks @ (case new_check takes (Some i) sender r 0 True False of None \<Rightarrow> [] | Some c \<Rightarrow> [c]))
                | Ask n \<Rightarrow>
                    (case new_check takes (Some i) sender r n False True of
                       None \<Rightarrow> kc
                     | Some c \<Rightarrow> (remember_in known i Pending, checks @ [c])))
      | _ \<Rightarrow> kc)"

definition checks_needed ::
  "((str \<times> str) list \<Rightarrow> bool) \<Rightarrow> nat \<Rightarrow> row list \<Rightarrow> verdicts \<Rightarrow> verdicts \<times> check list" where
  "checks_needed takes now rows known = fold (check_row takes now) rows (known, [])"

text \<open>The guard of a check that is dropped before it answers.\<close>

definition drop_guard :: "check \<Rightarrow> verdicts \<Rightarrow> verdicts" where
  "drop_guard c known =
     (if armed c \<and> map_of known (event_id c) = Some Pending then AList.delete (event_id c) known else known)"

section \<open>Reading the relations\<close>

datatype related = PollEnd str nat | Response str nat "str list" | OtherEvent

type_synonym response = "str \<times> nat \<times> str list"

record page =
  creator_end :: "nat option"
  foreign_end :: bool
  responses :: "response list"
  next_page :: "str option"

definition read_related :: "str \<Rightarrow> related \<Rightarrow> page \<Rightarrow> page" where
  "read_related who ev p =
     (case ev of
        PollEnd sender ts \<Rightarrow>
          if sender \<noteq> who then p\<lparr>foreign_end := True\<rparr>
          else if (case creator_end p of None \<Rightarrow> True | Some known \<Rightarrow> ts < known)
          then p\<lparr>creator_end := Some ts\<rparr> else p
      | Response sender ts chosen \<Rightarrow> p\<lparr>responses := responses p @ [(sender, ts, chosen)]\<rparr>
      | OtherEvent \<Rightarrow> p)"

text \<open>The server's answer to a request: no answer, or the events of the page and the token of the next.\<close>

type_synonym server = "nat \<Rightarrow> str option \<Rightarrow> (related list \<times> str option) option"

definition relations_page :: "server \<Rightarrow> str \<Rightarrow> nat \<Rightarrow> str option \<Rightarrow> page option" where
  "relations_page srv who n token =
     (case srv n token of
        None \<Rightarrow> None
      | Some (evs, nxt) \<Rightarrow>
          Some (fold (read_related who) evs \<lparr>creator_end = None, foreign_end = False, responses = [], next_page = nxt\<rparr>))"

record reading =
  r_end :: "nat option"
  r_recount :: bool
  r_responses :: "response list"
  r_complete :: bool

text \<open>What the ends on one page say, and the loop over the pages; \<open>n\<close> is the index of the next one.
  \<open>None\<close> is a page that was not answered.\<close>

definition note_ends :: "check \<Rightarrow> page \<Rightarrow> reading \<Rightarrow> reading" where
  "note_ends c p acc =
     (let acc = acc\<lparr>r_recount := r_recount acc \<or> foreign_end p\<rparr>
      in case creator_end p of
           None \<Rightarrow> acc
         | Some e \<Rightarrow> acc\<lparr>r_end := Some e, r_recount := r_recount acc \<or> sdk_end c \<noteq> Some e\<rparr>)"

function read_pages :: "server \<Rightarrow> check \<Rightarrow> nat \<Rightarrow> str option \<Rightarrow> reading \<Rightarrow> reading option" where
  "read_pages srv c n token acc =
     (if n \<ge> relation_pages then Some acc
      else (case relations_page srv (creator c) n token of
              None \<Rightarrow> None
            | Some p \<Rightarrow>
                (let acc = note_ends c p acc
                 in if r_end acc \<noteq> None \<and> \<not> r_recount acc then Some acc
                    else (let acc = acc\<lparr>r_responses := r_responses acc @ responses p\<rparr>
                          in case next_page p of
                               None \<Rightarrow> Some acc
                             | Some t \<Rightarrow>
                                 read_pages srv c (Suc n) (Some t)
                                   (if n + 1 = relation_pages then acc\<lparr>r_complete := False\<rparr> else acc)))))"
  by pat_completeness auto
termination
  by (relation "measure (\<lambda>(srv, c, n, token, acc). relation_pages - n)") auto

declare read_pages.simps [simp del]

definition read_relations :: "server \<Rightarrow> check \<Rightarrow> reading option" where
  "read_relations srv c =
     read_pages srv c 0 None \<lparr>r_end = None, r_recount = recount c, r_responses = [], r_complete = True\<rparr>"

section \<open>The decision\<close>

type_synonym compiler = "block \<Rightarrow> response list \<Rightarrow> nat option \<Rightarrow> votes"

record poll_view =
  v_question :: str
  v_undisclosed :: bool
  v_max :: nat
  v_ended :: bool
  v_complete :: bool
  v_answers :: "(str \<times> str) list"
  v_votes :: votes

definition decided_votes :: "compiler \<Rightarrow> check \<Rightarrow> reading \<Rightarrow> votes" where
  "decided_votes compile c r =
     (if r_end r \<noteq> None \<and> \<not> r_recount r then counted c
      else compile (started c) (r_responses r) (r_end r))"

text \<open>\<open>verify\<close> from the answer of the server on: the verdicts, and the view that goes out with
  \<open>poll.verified\<close>.\<close>

definition verify :: "compiler \<Rightarrow> server \<Rightarrow> nat \<Rightarrow> check \<Rightarrow> verdicts \<Rightarrow> verdicts \<times> poll_view option" where
  "verify compile srv now c known =
     (case read_relations srv c of
        None \<Rightarrow> (if armed c then remember_in known (event_id c) (Failed (attempt c + 1) now) else known, None)
      | Some r \<Rightarrow>
          (let ended = (r_end r \<noteq> None); votes = decided_votes compile c r
           in if ended_by_creator known (event_id c) \<and> \<not> ended then (known, None)
              else (remember_in known (event_id c)
                      (if ended then Ended votes (r_complete r) else Rogue votes (r_complete r) now),
                    Some \<lparr>v_question = b_question (started c), v_undisclosed = b_undisclosed (started c),
                          v_max = b_max (started c), v_ended = ended, v_complete = r_complete r,
                          v_answers = b_answers (started c), v_votes = votes\<rparr>)))"

section \<open>The user's own end and vote\<close>

definition not_loaded :: str where
  "not_loaded = lit ''this poll is no longer loaded''"

definition not_an_id :: str where
  "not_an_id = lit ''not an event identifier''"

definition loaded_poll :: "row option \<Rightarrow> str + (str \<times> poll_result)" where
  "loaded_poll item =
     (case item of
        None \<Rightarrow> Inl not_loaded
      | Some OtherRow \<Rightarrow> Inl (lit ''this is not a poll'')
      | Some (PollRow _ sender r) \<Rightarrow> Inr (sender, r))"

text \<open>\<open>vote\<close> up to the sending: the refusals, for a poll as the timeline holds it.\<close>

definition vote_allowed :: "(str \<Rightarrow> bool) \<Rightarrow> verdicts \<Rightarrow> str \<Rightarrow> row option \<Rightarrow> str list \<Rightarrow> str + unit" where
  "vote_allowed parses known i item chosen =
     (if \<not> parses i then Inl not_an_id else case loaded_poll item of
        Inl e \<Rightarrow> Inl e
      | Inr (_, r) \<Rightarrow>
          if ended_by_creator known i then Inl (lit ''the poll has ended'')
          else if length chosen > max_selections r then Inl (lit ''too many answers chosen'')
          else (case List.find (\<lambda>a. \<not> list_ex (\<lambda>k. fst k = a) (answers r)) chosen of
                  Some unknown \<Rightarrow> Inl (lit ''no such answer: '' @ take 16 unknown)
                | None \<Rightarrow> Inr ()))"

definition end_allowed :: "(str \<Rightarrow> bool) \<Rightarrow> verdicts \<Rightarrow> str \<Rightarrow> str \<Rightarrow> row option \<Rightarrow> str + poll_result" where
  "end_allowed parses known own i item =
     (if \<not> parses i then Inl not_an_id else case loaded_poll item of
        Inl e \<Rightarrow> Inl e
      | Inr (sender, r) \<Rightarrow>
          if sender \<noteq> own then Inl (lit ''only the creator can end a poll'')
          else if ended_by_creator known i then Inl (lit ''the poll has ended'')
          else Inr r)"

text \<open>The own end, booked as soon as it is queued, and taken back if the queue gives it up.\<close>

definition book_end :: "str \<Rightarrow> poll_result \<Rightarrow> verdicts \<Rightarrow> verdicts" where
  "book_end i r known =
     (let (votes, complete) =
        (case map_of known i of Some (Rogue votes complete _) \<Rightarrow> (votes, complete) | _ \<Rightarrow> (sdk_votes r, True))
      in remember_in known i (Ended votes complete))"

definition take_back_end :: "str \<Rightarrow> verdicts \<Rightarrow> verdicts" where
  "take_back_end i known = (if ended_by_creator known i then AList.delete i known else known)"

text \<open>What a row shows: the view of \<open>from_state\<close>.\<close>

definition from_state :: "verdicts \<Rightarrow> str option \<Rightarrow> poll_result \<Rightarrow> poll_view" where
  "from_state known i r =
     (let (ended, votes, complete) =
        (case Option.bind i (map_of known) of
           Some (Ended votes complete) \<Rightarrow> (True, votes, complete)
         | Some (Rogue votes complete _) \<Rightarrow> (False, votes, complete)
         | _ \<Rightarrow> (False, sdk_votes r, True))
      in \<lparr>v_question = question r, v_undisclosed = undisclosed r, v_max = max_selections r, v_ended = ended,
          v_complete = complete, v_answers = answers r, v_votes = votes\<rparr>)"

section \<open>The machine\<close>

text \<open>The map and the checks that have been started and have neither answered nor been dropped.  A check
  books its answer in one step; between its start and that step anything may happen.  An own end is
  booked some time after it was allowed: the sender and the results of the row come with the event,
  and of the refusals only the one that cannot change in between is asked again.\<close>

record polls =
  known :: verdicts
  running :: "check list"

datatype poll_event =
    Rows nat "row list"
  | Answers check server nat
  | Drops check
  | EndQueued str str str poll_result
  | EndGivenUp str
  | Forget

definition poll_step ::
  "((str \<times> str) list \<Rightarrow> bool) \<Rightarrow> compiler \<Rightarrow> poll_event \<Rightarrow> polls \<Rightarrow> polls" where
  "poll_step takes compile ev s =
     (case ev of
        Rows now rows \<Rightarrow>
          (let (k, cs) = checks_needed takes now rows (known s)
           in s\<lparr>known := k, running := running s @ cs\<rparr>)
      | Answers c srv now \<Rightarrow>
          if c \<notin> set (running s) then s
          else s\<lparr>known := fst (verify compile srv now c (known s)), running := remove1 c (running s)\<rparr>
      | Drops c \<Rightarrow>
          if c \<notin> set (running s) then s
          else s\<lparr>known := drop_guard c (known s), running := remove1 c (running s)\<rparr>
      | EndQueued own i sender r \<Rightarrow>
          if sender \<noteq> own then s else s\<lparr>known := book_end i r (known s)\<rparr>
      | EndGivenUp i \<Rightarrow> s\<lparr>known := take_back_end i (known s)\<rparr>
      | Forget \<Rightarrow> s\<lparr>known := []\<rparr>)"

definition no_polls :: polls where
  "no_polls = \<lparr>known = [], running = []\<rparr>"

definition poll_run :: "((str \<times> str) list \<Rightarrow> bool) \<Rightarrow> compiler \<Rightarrow> poll_event list \<Rightarrow> polls" where
  "poll_run takes compile evs = fold (poll_step takes compile) evs no_polls"

end
