(* ===== verification/Poll_Safety.thy ===== *)
theory Poll_Safety
  imports Poll_Verdicts
begin

text \<open>
  What the verdicts promise, over every order of rows, answers, dropped checks and own ends: the map
  stays small, no poll is left pending without a check that will answer, and no poll is shown as ended
  but on its creator's word.
\<close>

section \<open>The map\<close>

lemma map_of_update [simp]: "map_of (AList.update k v al) i = (if i = k then Some v else map_of al i)"
  by (simp add: update_conv')

lemma map_of_deleted [simp]: "map_of (AList.delete k al) i = (if i = k then None else map_of al i)"
  by (simp add: delete_conv')

lemma length_update: "length (AList.update k v al) = (if map_of al k = None then Suc (length al) else length al)"
  by (induction al) auto

lemma map_of_remember:
  "map_of (remember_in k i v) j = (if j = i then Some v
     else if length k \<ge> verdict_limit \<and> map_of k i = None then None else map_of k j)"
  by (simp add: remember_in_def)

lemma map_of_drop: "map_of (drop_guard c k) j = (if armed c \<and> j = event_id c \<and> map_of k j = Some Pending then None else map_of k j)"
  by (auto simp: drop_guard_def)

lemma map_of_take_back: "map_of (take_back_end i k) j = (if j = i \<and> ended_by_creator k i then None else map_of k j)"
  by (simp add: take_back_end_def)

lemma ended_iff: "ended_by_creator k i \<longleftrightarrow> (\<exists>v b. map_of k i = Some (Ended v b))"
  by (auto simp: ended_by_creator_def split: option.splits verdict.splits)

lemmas verdict_maps = map_of_remember map_of_drop map_of_take_back

text \<open>Every operation keeps the map small and its keys distinct: a locale for what touches it.\<close>

definition bounded_map :: "verdicts \<Rightarrow> bool" where
  "bounded_map k \<longleftrightarrow> distinct (map fst k) \<and> length k \<le> verdict_limit"

lemma bounded_empty [simp]: "bounded_map []"
  by (simp add: bounded_map_def)

lemma bounded_update: "bounded_map k \<Longrightarrow> map_of k i = Some w \<Longrightarrow> bounded_map (AList.update i v k)"
  by (simp add: bounded_map_def distinct_update length_update)

lemma bounded_delete: "bounded_map k \<Longrightarrow> bounded_map (AList.delete i k)"
  using length_delete_le [of i k] by (auto simp: bounded_map_def distinct_delete)

lemma bounded_remember: "bounded_map k \<Longrightarrow> bounded_map (remember_in k i v)"
  by (auto simp: remember_in_def bounded_map_def distinct_update length_update verdict_limit_def)

section \<open>A contract for the steps\<close>

text \<open>Both promises - and the creator's word - are of the shape: a condition on the map and the running
  checks that every single write keeps.  The locale takes the laws for the five writes and gives the
  whole machine.\<close>

locale verdict_contract =
  fixes takes :: "(str \<times> str) list \<Rightarrow> bool" and compile :: compiler
    and fair :: "poll_event \<Rightarrow> bool" and good :: "verdicts \<Rightarrow> check list \<Rightarrow> bool"
  assumes empty: "good [] []"
    and forgotten: "good k cs \<Longrightarrow> good [] cs"
    and asks: "\<lbrakk>good k cs; fair (Rows now rows); row \<in> set rows; row = PollRow (Some i) sender r;
        end_time r \<noteq> None; asked now (map_of k i) = Ask n; new_check takes (Some i) sender r n False True = Some c\<rbrakk>
      \<Longrightarrow> good (remember_in k i Pending) (cs @ [c])"
    and asks_again: "\<lbrakk>good k cs; fair (Rows now rows); row \<in> set rows; row = PollRow (Some i) sender r;
        asked now (map_of k i) = AskAgain v b; set ds \<subseteq> set_option (new_check takes (Some i) sender r 0 True False)\<rbrakk>
      \<Longrightarrow> good (AList.update i (Rogue v b now) k) (cs @ ds)"
    and answers: "\<lbrakk>good k cs; fair (Answers c srv now); c \<in> set cs\<rbrakk>
      \<Longrightarrow> good (fst (verify compile srv now c k)) (remove1 c cs)"
    and drops: "\<lbrakk>good k cs; c \<in> set cs\<rbrakk> \<Longrightarrow> good (drop_guard c k) (remove1 c cs)"
    and books: "\<lbrakk>good k cs; fair (EndQueued own i own r)\<rbrakk> \<Longrightarrow> good (book_end i r k) cs"
    and takes_back: "good k cs \<Longrightarrow> good (take_back_end i k) cs"
begin

lemma row_good:
  assumes "good k (cs @ ds)" and "fair (Rows now rows)" and "row \<in> set rows" and "check_row takes now row (k, ds) = (k', ds')"
  shows "good k' (cs @ ds')"
proof (cases row)
  case OtherRow
  with assms show ?thesis by (simp add: check_row_def)
next
  case (PollRow oi sender r)
  show ?thesis
  proof (cases oi)
    case None
    with PollRow assms show ?thesis by (simp add: check_row_def)
  next
    case (Some i)
    note row = PollRow [unfolded Some]
    show ?thesis
    proof (cases "end_time r = None")
      case True
      with row assms show ?thesis by (simp add: check_row_def)
    next
      case False
      show ?thesis
      proof (cases "asked now (map_of k i)")
        case Skip
        with row assms False show ?thesis by (simp add: check_row_def)
      next
        case (Ask n)
        then show ?thesis
          using row assms False asks [OF assms(1-3) row False Ask]
          by (auto simp: check_row_def split: option.splits)
      next
        case (AskAgain v b)
        then show ?thesis
          using row assms False asks_again [OF assms(1-3) row AskAgain]
          by (auto simp: check_row_def split: option.splits)
      qed
    qed
  qed
qed

lemma rows_good:
  assumes "good k (cs @ ds)" and "fair (Rows now rows)" and "set rs \<subseteq> set rows"
    and "fold (check_row takes now) rs (k, ds) = (k', ds')"
  shows "good k' (cs @ ds')"
  using assms
proof (induction rs arbitrary: k ds)
  case (Cons r rs)
  obtain k1 ds1 where one: "check_row takes now r (k, ds) = (k1, ds1)" by fastforce
  then have "good k1 (cs @ ds1)" using row_good [OF Cons.prems(1,2) _ one] Cons.prems(3) by simp
  from Cons.IH [OF this Cons.prems(2)] show ?case using Cons.prems(3,4) one by simp
qed simp

lemma step_good:
  assumes "good (known s) (running s)" and "fair ev"
  shows "good (known (poll_step takes compile ev s)) (running (poll_step takes compile ev s))"
proof (cases ev)
  case (Rows now rows)
  obtain k cs where "checks_needed takes now rows (known s) = (k, cs)" by fastforce
  with Rows show ?thesis
    using rows_good [of "known s" "running s" "[]" now rows rows k cs] assms
    by (simp add: poll_step_def checks_needed_def)
next
  case (EndQueued own i sender r)
  with assms show ?thesis using books [of "known s" "running s" own i r] by (auto simp: poll_step_def)
qed (use assms forgotten answers drops takes_back in \<open>simp_all add: poll_step_def\<close>)

lemma run_good:
  assumes "list_all fair evs"
  shows "good (known (poll_run takes compile evs)) (running (poll_run takes compile evs))"
proof -
  have "good (known (fold (poll_step takes compile) evs s)) (running (fold (poll_step takes compile) evs s))"
    if "good (known s) (running s)" for s
    using that assms by (induction evs arbitrary: s) (simp_all add: step_good)
  then show ?thesis using empty by (simp add: poll_run_def no_polls_def)
qed

end

section \<open>The promises\<close>

lemma asked_cases:
  "asked now v = Ask n \<Longrightarrow> v = None \<or> (\<exists>m t. v = Some (Failed m t))"
  "asked now v = AskAgain w b \<Longrightarrow> \<exists>t. v = Some (Rogue w b t)"
  by (auto simp: asked_def split: option.splits verdict.splits if_splits)

lemma new_check_fields:
  "new_check takes (Some i) sender r n again arm = Some c
    \<Longrightarrow> event_id c = i \<and> creator c = sender \<and> armed c = arm \<and> recount c = again \<and> sdk_end c = end_time r"
  by (auto simp: new_check_def split: option.splits)

text \<open>What is pending has a guard that takes the mark away should the check not answer.\<close>

definition guarded :: "verdicts \<Rightarrow> check list \<Rightarrow> bool" where
  "guarded k cs \<longleftrightarrow> (\<forall>i. map_of k i = Some Pending \<longrightarrow> (\<exists>c\<in>set cs. event_id c = i \<and> armed c))"

lemma guarded_remove:
  assumes "guarded k cs" and "\<And>j. map_of k' j = Some Pending \<Longrightarrow> map_of k j = Some Pending"
    and "armed c \<Longrightarrow> map_of k' (event_id c) \<noteq> Some Pending"
  shows "guarded k' (remove1 c cs)"
  unfolding guarded_def
proof (intro allI impI)
  fix i assume p: "map_of k' i = Some Pending"
  with assms(1,2) obtain d where d: "d \<in> set cs" "event_id d = i" "armed d" by (auto simp: guarded_def)
  with assms(3) p have "d \<noteq> c" by auto
  with d show "\<exists>c'\<in>set (remove1 c cs). event_id c' = i \<and> armed c'" by (auto simp: in_set_remove1)
qed

lemma verify_pending:
  "map_of (fst (verify compile srv now c k)) j = Some Pending \<Longrightarrow>
    map_of k j = Some Pending \<and> (armed c \<longrightarrow> j \<noteq> event_id c)"
  by (auto simp: verify_def map_of_remember ended_iff Let_def split: option.splits if_splits)

interpretation pending: verdict_contract takes compile "\<lambda>_. True" guarded
proof unfold_locales
  fix k cs c srv now assume "guarded k cs"
  then show "guarded (fst (verify compile srv now c k)) (remove1 c cs)"
    using verify_pending by (blast intro: guarded_remove)
next
  fix k cs c assume "guarded k cs"
  then show "guarded (drop_guard c k) (remove1 c cs)"
    by (rule guarded_remove) (auto simp: map_of_drop split: if_splits)
qed (auto simp: guarded_def map_of_remember map_of_take_back book_end_def dest: new_check_fields
       split: if_splits option.splits verdict.splits)

interpretation bounded: verdict_contract takes compile "\<lambda>_. True" "\<lambda>k cs. bounded_map k"
proof unfold_locales
  fix k now i v b assume "bounded_map k" "asked now (map_of k i) = AskAgain v b"
  then show "bounded_map (AList.update i (Rogue v b now) k)"
    using asked_cases(2) bounded_update by blast
qed (auto simp: verify_def drop_guard_def book_end_def take_back_end_def Let_def
       intro!: bounded_remember bounded_delete split: option.splits verdict.splits)

section \<open>What a check read\<close>

text \<open>The ends of one sender and the responses among the events of a page, and the earliest end.\<close>

definition ends_of :: "str \<Rightarrow> related list \<Rightarrow> nat list" where
  "ends_of who evs = concat (map (\<lambda>ev. case ev of PollEnd s ts \<Rightarrow> if s = who then [ts] else [] | _ \<Rightarrow> []) evs)"

definition responses_of :: "related list \<Rightarrow> response list" where
  "responses_of evs = concat (map (\<lambda>ev. case ev of Response s ts chosen \<Rightarrow> [(s, ts, chosen)] | _ \<Rightarrow> []) evs)"

definition strangers_end :: "str \<Rightarrow> related list \<Rightarrow> bool" where
  "strangers_end who evs = list_ex (\<lambda>ev. case ev of PollEnd s _ \<Rightarrow> s \<noteq> who | _ \<Rightarrow> False) evs"

definition earliest :: "nat list \<Rightarrow> nat option" where
  "earliest ts = (if ts = [] then None else Some (Min (set ts)))"

lemma ends_of_append [simp]: "ends_of who (xs @ ys) = ends_of who xs @ ends_of who ys"
  by (simp add: ends_of_def)

lemma ends_of_iff: "ts \<in> set (ends_of who evs) \<longleftrightarrow> PollEnd who ts \<in> set evs"
  by (force simp: ends_of_def split: related.splits if_splits)

lemma earliest_append:
  assumes "sorted (rev (xs @ ys))"
  shows "earliest (xs @ ys) = (case earliest ys of None \<Rightarrow> earliest xs | Some e \<Rightarrow> Some e)"
proof (cases "ys = []")
  case False
  have "Min (set ys) \<le> x" if "x \<in> set xs" for x
    using assms False that by (auto simp: sorted_append intro: Min_le_iff [THEN iffD2] hd_in_set)
  then have "Min (set xs \<union> set ys) = Min (set ys)"
    using False by (intro Min_eqI) (auto intro: Min_le)
  with False show ?thesis by (simp add: earliest_def)
qed (simp add: earliest_def)

lemma earliest_Cons: "earliest (x # xs) = Some (case earliest xs of None \<Rightarrow> x | Some e \<Rightarrow> min x e)"
  by (simp add: earliest_def)

lemma event_Cons:
  "ends_of who (ev # evs) = (case ev of PollEnd s ts \<Rightarrow> if s = who then [ts] else [] | _ \<Rightarrow> []) @ ends_of who evs"
  "responses_of (ev # evs) = (case ev of Response s ts chosen \<Rightarrow> [(s, ts, chosen)] | _ \<Rightarrow> []) @ responses_of evs"
  "strangers_end who (ev # evs) \<longleftrightarrow> (case ev of PollEnd s _ \<Rightarrow> s \<noteq> who | _ \<Rightarrow> False) \<or> strangers_end who evs"
  by (simp_all add: ends_of_def responses_of_def strangers_end_def)

lemma event_Nil: "ends_of who [] = []" "responses_of [] = []" "\<not> strangers_end who []" "earliest [] = None"
  by (simp_all add: ends_of_def responses_of_def strangers_end_def earliest_def)

text \<open>One page, read event by event, is its ends, its responses and whether a stranger ended the poll.\<close>

lemma fold_related:
  "fold (read_related who) evs p =
     p\<lparr>creator_end := (case creator_end p of None \<Rightarrow> earliest (ends_of who evs)
                        | Some e \<Rightarrow> earliest (e # ends_of who evs)),
       foreign_end := foreign_end p \<or> strangers_end who evs,
       responses := responses p @ responses_of evs\<rparr>"
proof (induction evs arbitrary: p)
  case Nil
  then show ?case by (simp add: event_Nil earliest_Cons split: option.split)
next
  case (Cons ev evs)
  show ?case
    unfolding fold.simps o_apply Cons.IH
    by (cases ev; cases "creator_end p"; cases "earliest (ends_of who evs)")
       (simp_all add: event_Cons earliest_Cons read_related_def min_def)
qed

text \<open>A server that serves these pages, and only these.\<close>

definition paged :: "related list list \<Rightarrow> server" where
  "paged ps n token =
     (if n < length ps then Some (ps ! n, if Suc n < length ps then Some [n] else None) else None)"

lemma relations_page_paged:
  "n < length ps \<Longrightarrow> relations_page (paged ps) who n token =
     Some \<lparr>creator_end = earliest (ends_of who (ps ! n)), foreign_end = strangers_end who (ps ! n),
           responses = responses_of (ps ! n), next_page = (if Suc n < length ps then Some [n] else None)\<rparr>"
  by (simp add: relations_page_def paged_def fold_related)

text \<open>Either the creator's end is the one the SDK stopped at, and no stranger ended the poll on the pages
  read: then the SDK's count stands.  Or every response of the first five pages was read, and the count
  is a floor exactly if there are more pages.\<close>

definition settled :: "check \<Rightarrow> related list list \<Rightarrow> reading \<Rightarrow> bool" where
  "settled c ps r \<longleftrightarrow>
     (if r_end r \<noteq> None \<and> \<not> r_recount r
      then r_complete r \<and> r_end r = sdk_end c \<and>
        (\<exists>k. r_end r = earliest (ends_of (creator c) (concat (take k ps))) \<and> \<not> strangers_end (creator c) (concat (take k ps)))
      else r_responses r = responses_of (concat (take relation_pages ps))
        \<and> r_end r = earliest (ends_of (creator c) (concat (take relation_pages ps)))
        \<and> (r_complete r \<longleftrightarrow> length ps \<le> relation_pages))"

definition so_far :: "check \<Rightarrow> related list list \<Rightarrow> nat \<Rightarrow> reading \<Rightarrow> bool" where
  "so_far c ps n acc \<longleftrightarrow> r_responses acc = responses_of (concat (take n ps))
     \<and> r_end acc = earliest (ends_of (creator c) (concat (take n ps)))
     \<and> (r_complete acc \<longleftrightarrow> n < relation_pages)
     \<and> (r_end acc \<noteq> None \<longrightarrow> r_recount acc)
     \<and> (\<not> r_recount acc \<longrightarrow> \<not> strangers_end (creator c) (concat (take n ps)))"

lemma responses_append [simp]: "responses_of (xs @ ys) = responses_of xs @ responses_of ys"
  by (simp add: responses_of_def)

lemma strangers_append [simp]: "strangers_end who (xs @ ys) \<longleftrightarrow> strangers_end who xs \<or> strangers_end who ys"
  by (auto simp: strangers_end_def)

lemma read_paged:
  assumes "sorted (rev (ends_of (creator c) (concat ps)))" and "n < length ps" and "n \<le> relation_pages" and "so_far c ps n acc"
  shows "\<exists>r. read_pages (paged ps) c n token acc = Some r \<and> settled c ps r"
  using assms(2-)
proof (induction "relation_pages - n" arbitrary: n token acc)
  case 0
  then have "read_pages (paged ps) c n token acc = Some acc" by (simp add: read_pages.simps)
  moreover have "settled c ps acc" using 0 by (auto simp: settled_def so_far_def)
  ultimately show ?case by blast
next
  case (Suc m)
  let ?who = "creator c"
  have n: "n < relation_pages" using Suc by simp
  have taken: "take (Suc n) ps = take n ps @ [ps ! n]" using Suc.prems(1) by (rule take_Suc_conv_app_nth)
  have "sorted (rev (ends_of ?who (concat (take n ps)) @ ends_of ?who (ps ! n)) )"
  proof -
    have "concat ps = concat (take (Suc n) ps) @ concat (drop (Suc n) ps)"
      by (metis append_take_drop_id concat_append)
    then have "ends_of ?who (concat ps) = (ends_of ?who (concat (take n ps)) @ ends_of ?who (ps ! n)) @ ends_of ?who (concat (drop (Suc n) ps))"
      using taken by simp
    then show ?thesis using assms(1) by (simp add: sorted_append)
  qed
  note e = earliest_append [OF this]
  define acc1 where "acc1 = acc\<lparr>r_end := earliest (ends_of ?who (concat (take (Suc n) ps))),
      r_recount := r_recount acc \<or> strangers_end ?who (ps ! n)
        \<or> (earliest (ends_of ?who (ps ! n)) \<noteq> None \<and> sdk_end c \<noteq> earliest (ends_of ?who (ps ! n)))\<rparr>"
  have acc1: "note_ends c \<lparr>creator_end = earliest (ends_of ?who (ps ! n)), foreign_end = strangers_end ?who (ps ! n),
      responses = rs, next_page = nx\<rparr> acc = acc1" for rs nx
    using Suc.prems(3) e taken by (cases acc) (auto simp: note_ends_def acc1_def so_far_def split: option.splits)
  show ?case
  proof (cases "r_end acc1 \<noteq> None \<and> \<not> r_recount acc1")
    case True
    then have "read_pages (paged ps) c n token acc = Some acc1"
      using n Suc.prems(1) acc1 by (subst read_pages.simps) (simp add: relations_page_paged Let_def)
    moreover have "settled c ps acc1"
      using True Suc.prems(3) n taken e unfolding settled_def
      by (auto simp: acc1_def so_far_def split: option.splits intro!: exI [of _ "Suc n"])
    ultimately show ?thesis by blast
  next
    case False
    define acc2 where "acc2 = acc1\<lparr>r_responses := r_responses acc1 @ responses_of (ps ! n)\<rparr>"
    show ?thesis
    proof (cases "Suc n < length ps")
      case more: True
      define acc3 where "acc3 = (if n + 1 = relation_pages then acc2\<lparr>r_complete := False\<rparr> else acc2)"
      have "read_pages (paged ps) c n token acc = read_pages (paged ps) c (Suc n) (Some [n]) acc3"
        using n Suc.prems(1) acc1 False more
        by (subst read_pages.simps) (auto simp: relations_page_paged Let_def acc2_def acc3_def)
      moreover have "so_far c ps (Suc n) acc3"
        using False Suc.prems(3) n taken by (auto simp: so_far_def acc3_def acc2_def acc1_def)
      ultimately show ?thesis using Suc.hyps(1) [of "Suc n" acc3 "Some [n]"] Suc.hyps(2) n more by simp
    next
      case last: False
      then have "read_pages (paged ps) c n token acc = Some acc2"
        using n Suc.prems(1) acc1 False
        by (subst read_pages.simps) (auto simp: relations_page_paged Let_def acc2_def)
      moreover have "settled c ps acc2"
      proof -
        have all: "take relation_pages ps = ps" "take (Suc n) ps = ps" "length ps \<le> relation_pages" using last n by simp_all
        have "concat ps = concat (take n ps) @ ps ! n" using taken unfolding all(2) by (metis concat_append concat.simps append_Nil2)
        then show ?thesis
          using False Suc.prems(3) n e by (auto simp: settled_def so_far_def acc2_def acc1_def all)
      qed
      ultimately show ?thesis by blast
    qed
  qed
qed

end
