(* ===== verification/Poll_Promises.thy ===== *)
theory Poll_Promises
  imports Poll_Safety
begin

text \<open>
  The properties of the verdicts: from the contract of \<open>Poll_Safety\<close>, what no stranger can do to a
  poll, what a check decides, how often a failing check is tried, and the one way a booked end is lost.
\<close>

section \<open>The creator's word\<close>

text \<open>Nothing in this event is the word of the poll's creator: rows of the poll name the creator, the
  server shows no end of the creator's, and the user is somebody else.\<close>

definition no_word :: "str \<Rightarrow> str \<Rightarrow> poll_event \<Rightarrow> bool" where
  "no_word who i ev \<longleftrightarrow>
     (case ev of
        Rows now rows \<Rightarrow>
          list_all (\<lambda>row. case row of PollRow (Some j) sender r \<Rightarrow> j = i \<longrightarrow> sender = who | _ \<Rightarrow> True) rows
      | Answers c srv now \<Rightarrow>
          event_id c = i \<longrightarrow> (\<forall>n t evs nx ts. srv n t = Some (evs, nx) \<longrightarrow> PollEnd who ts \<notin> set evs)
      | EndQueued own j sender r \<Rightarrow> j = i \<longrightarrow> sender = who \<and> own \<noteq> who
      | _ \<Rightarrow> True)"

definition unended :: "str \<Rightarrow> str \<Rightarrow> verdicts \<Rightarrow> check list \<Rightarrow> bool" where
  "unended who i k cs \<longleftrightarrow> \<not> ended_by_creator k i \<and> (\<forall>c\<in>set cs. event_id c = i \<longrightarrow> creator c = who)"

lemma earliest_None: "earliest ts = None \<longleftrightarrow> ts = []"
  by (simp add: earliest_def)

lemma read_silent:
  assumes "\<And>n t evs nx ts. srv n t = Some (evs, nx) \<Longrightarrow> PollEnd (creator c) ts \<notin> set evs"
  shows "\<lbrakk>r_end acc = None; read_pages srv c n token acc = Some r\<rbrakk> \<Longrightarrow> r_end r = None"
proof (induction "relation_pages - n" arbitrary: n token acc)
  case 0
  then show ?case by (simp add: read_pages.simps)
next
  case (Suc m)
  then have n: "n < relation_pages" by simp
  have IH: "r_end r = None" if "read_pages srv c k t acc' = Some r" "r_end acc' = None" "k = Suc n" for k acc' t
    using Suc.hyps(1) [of "Suc n"] Suc.hyps(2) that by simp
  show ?case
  proof (cases "srv n token")
    case None
    with Suc.prems n show ?thesis by (subst (asm) read_pages.simps) (simp add: relations_page_def)
  next
    case (Some a)
    obtain evs nx where a: "srv n token = Some (evs, nx)" using Some by (cases a) simp
    have "ends_of (creator c) evs = []"
      using assms [OF a] ends_of_iff [of _ "creator c" evs] by (metis list.set_intros(1) neq_Nil_conv)
    then have "r_end (note_ends c (fold (read_related (creator c)) evs
        \<lparr>creator_end = None, foreign_end = False, responses = [], next_page = nx\<rparr>) acc) = None"
      using Suc.prems(1) by (simp add: note_ends_def fold_related earliest_def)
    then show ?thesis
      using Suc.prems n a
      by (subst (asm) read_pages.simps)
         (auto simp: relations_page_def Let_def fold_related split: option.splits if_splits dest!: IH)
  qed
qed

lemma verify_silent:
  assumes "\<And>n t evs nx ts. srv n t = Some (evs, nx) \<Longrightarrow> PollEnd (creator c) ts \<notin> set evs"
    and "\<not> ended_by_creator k i"
  shows "\<not> ended_by_creator (fst (verify compile srv now c k)) i"
proof -
  have "r_end r = None" if "read_relations srv c = Some r" for r
    by (rule read_silent [OF assms(1) _ that [unfolded read_relations_def]]) simp_all
  with assms(2) show ?thesis
    by (auto simp: verify_def ended_iff map_of_remember Let_def split: option.splits if_splits)
qed

lemma verify_other: "event_id c \<noteq> i \<Longrightarrow> \<not> ended_by_creator k i \<Longrightarrow> \<not> ended_by_creator (fst (verify compile srv now c k)) i"
  by (auto simp: verify_def ended_iff map_of_remember Let_def split: option.splits)

interpretation word: verdict_contract takes compile "no_word who i" "unended who i"
proof unfold_locales
  fix k cs c srv now
  assume a: "unended who i k cs" "no_word who i (Answers c srv now)" "c \<in> set cs"
  have "\<not> ended_by_creator (fst (verify compile srv now c k)) i"
  proof (cases "event_id c = i")
    case True
    with a show ?thesis by (intro verify_silent) (auto simp: unended_def no_word_def)
  next
    case False
    with a show ?thesis by (intro verify_other) (simp_all add: unended_def)
  qed
  with a show "unended who i (fst (verify compile srv now c k)) (remove1 c cs)"
    using set_remove1_subset [of c cs] by (auto simp: unended_def)
next
  fix k cs now rows row j sender r n c
  assume "unended who i k cs" "no_word who i (Rows now rows)" "row \<in> set rows" "row = PollRow (Some j) sender r"
    "new_check takes (Some j) sender r n False True = Some c"
  then show "unended who i (remember_in k j Pending) (cs @ [c])"
    using new_check_fields [of takes j sender r n False True c]
    by (auto simp: unended_def no_word_def list_all_iff ended_iff map_of_remember split: if_splits)
next
  fix k cs now rows row j sender r v b ds
  assume "unended who i k cs" "no_word who i (Rows now rows)" "row \<in> set rows" "row = PollRow (Some j) sender r"
    "set ds \<subseteq> set_option (new_check takes (Some j) sender r 0 True False)"
  then show "unended who i (AList.update j (Rogue v b now) k) (cs @ ds)"
    using new_check_fields [of takes j sender r 0 True False]
    by (fastforce simp: unended_def no_word_def list_all_iff ended_iff split: if_splits)
next
  fix k cs c assume "unended who i k cs" "c \<in> set cs"
  then show "unended who i (drop_guard c k) (remove1 c cs)"
    using set_remove1_subset [of c cs] by (auto simp: unended_def ended_iff map_of_drop split: if_splits)
qed (auto simp: unended_def no_word_def ended_iff map_of_remember map_of_take_back book_end_def
       split: if_splits option.splits verdict.splits)

section \<open>A poll whose checks fail\<close>

text \<open>The checks of poll \<open>i\<close> that an event starts, and those a run starts.\<close>

definition of_poll :: "str \<Rightarrow> check list \<Rightarrow> check list" where
  "of_poll i cs = filter (\<lambda>c. event_id c = i) cs"

definition started_by :: "((str \<times> str) list \<Rightarrow> bool) \<Rightarrow> str \<Rightarrow> poll_event \<Rightarrow> polls \<Rightarrow> check list" where
  "started_by takes i ev s =
     (case ev of Rows now rows \<Rightarrow> of_poll i (snd (checks_needed takes now rows (known s))) | _ \<Rightarrow> [])"

fun started_in :: "((str \<times> str) list \<Rightarrow> bool) \<Rightarrow> compiler \<Rightarrow> str \<Rightarrow> poll_event list \<Rightarrow> polls \<Rightarrow> check list" where
  "started_in takes compile i [] s = []"
| "started_in takes compile i (ev # evs) s =
     started_by takes i ev s @ started_in takes compile i evs (poll_step takes compile ev s)"

text \<open>Nothing but checks without an answer happens to the poll: none of its checks is dropped, its own end is neither
  booked nor taken back, and the account is not signed out.  The polls an event names.\<close>

fun unanswered :: "str \<Rightarrow> poll_event \<Rightarrow> bool" where
  "unanswered i (Rows now rows) \<longleftrightarrow> True"
| "unanswered i (Answers c srv now) \<longleftrightarrow> event_id c = i \<longrightarrow> read_relations srv c = None"
| "unanswered i (Drops c) \<longleftrightarrow> event_id c \<noteq> i"
| "unanswered i (EndQueued own j sender r) \<longleftrightarrow> j \<noteq> i"
| "unanswered i (EndGivenUp j) \<longleftrightarrow> j \<noteq> i"
| "unanswered i Forget \<longleftrightarrow> False"

definition row_polls :: "row \<Rightarrow> str set" where
  "row_polls row = (case row of PollRow (Some i) sender r \<Rightarrow> {i} | _ \<Rightarrow> {})"

fun polls_of :: "poll_event \<Rightarrow> str set" where
  "polls_of (Rows now rows) = (\<Union>row\<in>set rows. row_polls row)"
| "polls_of (Answers c srv now) = {event_id c}"
| "polls_of (EndQueued own i sender r) = {i}"
| "polls_of _ = {}"

text \<open>The time of an event, where it reads the clock.\<close>

fun within :: "nat \<Rightarrow> poll_event \<Rightarrow> bool" where
  "within w (Rows now rows) \<longleftrightarrow> w \<le> now \<and> now \<le> w + retry_after"
| "within w (Answers c srv now) \<longleftrightarrow> w \<le> now \<and> now \<le> w + retry_after"
| "within w _ \<longleftrightarrow> True"

text \<open>What is known of the poll and its running checks fit together: it is pending exactly while one check of it runs.  And what
  a window that opens at \<open>w\<close> still has for it.\<close>

definition orderly :: "str \<Rightarrow> verdict option \<Rightarrow> check list \<Rightarrow> bool" where
  "orderly i v cs \<longleftrightarrow>
     (case v of
        None \<Rightarrow> of_poll i cs = []
      | Some Pending \<Rightarrow> (\<exists>c. of_poll i cs = [c] \<and> armed c \<and> attempt c < check_attempts)
      | Some (Failed n t) \<Rightarrow> of_poll i cs = []
      | _ \<Rightarrow> False)"

definition tries_left :: "str \<Rightarrow> nat \<Rightarrow> verdict option \<Rightarrow> check list \<Rightarrow> nat" where
  "tries_left i w v cs =
     (case v of
        None \<Rightarrow> check_attempts
      | Some Pending \<Rightarrow> check_attempts - Suc (attempt (hd (of_poll i cs)))
      | Some (Failed n at) \<Rightarrow> if n < check_attempts then check_attempts - n else if at \<ge> w then 0 else check_attempts
      | _ \<Rightarrow> 0)"

text \<open>The map holds polls of \<open>P\<close> only, and so is never cleared to make room.\<close>

definition roomy :: "str set \<Rightarrow> verdicts \<Rightarrow> bool" where
  "roomy P k \<longleftrightarrow> distinct (map fst k) \<and> fst ` set k \<subseteq> P"

definition quiet :: "str \<Rightarrow> str set \<Rightarrow> polls \<Rightarrow> bool" where
  "quiet i P s \<longleftrightarrow> roomy P (known s) \<and> orderly i (map_of (known s) i) (running s)"

lemma of_poll_simps [simp]: "of_poll i [] = []" "of_poll i (cs @ ds) = of_poll i cs @ of_poll i ds"
  "of_poll i [c] = (if event_id c = i then [c] else [])" "event_id c \<noteq> i \<Longrightarrow> of_poll i (remove1 c cs) = of_poll i cs"
  by (auto simp: of_poll_def filter_remove1)

lemma of_poll_remove: "event_id c = i \<Longrightarrow> of_poll i (remove1 c cs) = remove1 c (of_poll i cs)"
  by (simp add: of_poll_def filter_remove1)

lemma others_removed:
  assumes "event_id c \<noteq> i"
  shows "orderly i x (remove1 c cs) = orderly i x cs" and "tries_left i w x (remove1 c cs) = tries_left i w x cs"
  using assms by (simp_all add: orderly_def tries_left_def split: option.split verdict.split)

lemma roomy_remember:
  assumes "roomy P k" and "finite P" and "card P \<le> verdict_limit" and "j \<in> P"
  shows "roomy P (remember_in k j v)" and "map_of (remember_in k j v) i = (if i = j then Some v else map_of k i)"
proof -
  have full: "map_of k j \<noteq> None" if "length k \<ge> verdict_limit"
  proof -
    have sub: "fst ` set k \<subseteq> P" using assms(1) by (simp add: roomy_def)
    have "card (fst ` set k) = length k" using assms(1) distinct_card [of "map fst k"] by (simp add: roomy_def)
    moreover have "card (fst ` set k) \<le> card P" using assms(2) sub by (rule card_mono)
    ultimately have "card (fst ` set k) = card P" using that assms(3) by linarith
    with assms(2) sub have "fst ` set k = P" by (rule card_subset_eq)
    with assms(4) show ?thesis by (simp add: map_of_eq_None_iff)
  qed
  then have "remember_in k j v = AList.update j v k" by (auto simp: remember_in_def)
  with assms(1,4) show "roomy P (remember_in k j v)" "map_of (remember_in k j v) i = (if i = j then Some v else map_of k i)"
    by (simp_all add: roomy_def distinct_update dom_update)
qed

lemma roomy_update: "roomy P k \<Longrightarrow> j \<in> P \<Longrightarrow> roomy P (AList.update j v k)"
  by (simp add: roomy_def distinct_update dom_update)

lemma roomy_delete: "roomy P k \<Longrightarrow> roomy P (AList.delete j k)"
  using dom_delete_subset [of j k] by (auto simp: roomy_def distinct_delete)

text \<open>A look at one row: a check of the poll that it starts is paid from the tries.\<close>

lemma look_left:
  assumes w: "w \<le> now" "now \<le> w + retry_after" and ok: "roomy P k" "orderly i (map_of k i) (cs @ ds)"
    and P: "finite P" "card P \<le> verdict_limit" "row_polls row \<subseteq> P" and look: "check_row takes now row (k, ds) = (k', ds')"
  shows "roomy P k' \<and> orderly i (map_of k' i) (cs @ ds')
    \<and> length (of_poll i ds') + tries_left i w (map_of k' i) (cs @ ds') \<le> length (of_poll i ds) + tries_left i w (map_of k i) (cs @ ds)"
proof -
  have same: ?thesis if "check_row takes now row (k, ds) = (k, ds)" using ok that look by simp
  show ?thesis
  proof (cases row)
    case OtherRow
    then show ?thesis by (intro same) (simp add: check_row_def)
  next
    case (PollRow oi sender r)
    show ?thesis
    proof (cases "oi = None \<or> end_time r = None")
      case True
      with PollRow show ?thesis by (intro same) (auto simp: check_row_def split: option.split)
    next
      case False
      then obtain j where row: "row = PollRow (Some j) sender r" "end_time r \<noteq> None" using PollRow by auto
      then have j: "j \<in> P" using P(3) by (simp add: row_polls_def)
      note rem = roomy_remember [OF ok(1) P(1,2) j]
      show ?thesis
      proof (cases "asked now (map_of k j)")
        case Skip
        with row show ?thesis by (intro same) (simp add: check_row_def)
      next
        case (AskAgain v b)
        then obtain t where t: "map_of k j = Some (Rogue v b t)" using asked_cases(2) by blast
        with ok(2) have "j \<noteq> i" by (auto simp: orderly_def)
        moreover from this have "of_poll i (case new_check takes (Some j) sender r 0 True False of None \<Rightarrow> [] | Some c \<Rightarrow> [c]) = []"
          by (auto dest: new_check_fields split: option.split)
        ultimately show ?thesis
          using look row AskAgain ok roomy_update [OF ok(1) j] by (auto simp: check_row_def orderly_def tries_left_def split: option.splits verdict.splits)
      next
        case (Ask n)
        show ?thesis
        proof (cases "new_check takes (Some j) sender r n False True")
          case None
          with row Ask show ?thesis by (intro same) (simp add: check_row_def)
        next
          case (Some c)
          then have c: "event_id c = j" "armed c" "attempt c = n" by (auto simp: new_check_def split: option.splits)
          from look row Ask Some have new: "k' = remember_in k j Pending" "ds' = ds @ [c]" by (simp_all add: check_row_def)
          show ?thesis
          proof (cases "j = i")
            case True
            from Ask ok(2) True have "of_poll i (cs @ ds) = []" "n < check_attempts"
              "Suc (check_attempts - Suc n) \<le> tries_left i w (map_of k i) (cs @ ds)"
              using w by (auto simp: asked_def orderly_def tries_left_def check_attempts_def split: option.splits verdict.splits if_splits)
            with rem c new True show ?thesis by (auto simp: orderly_def tries_left_def)
          next
            case False
            with rem c new ok(2) show ?thesis
              by (auto simp: orderly_def tries_left_def split: option.splits verdict.splits)
          qed
        qed
      qed
    qed
  qed
qed

lemma looks_left:
  assumes "w \<le> now" "now \<le> w + retry_after" and "finite P" "card P \<le> verdict_limit"
  shows "\<lbrakk>roomy P k; orderly i (map_of k i) (cs @ ds); (\<Union>row\<in>set rows. row_polls row) \<subseteq> P;
      fold (check_row takes now) rows (k, ds) = (k', ds')\<rbrakk>
    \<Longrightarrow> roomy P k' \<and> orderly i (map_of k' i) (cs @ ds')
      \<and> length (of_poll i ds') + tries_left i w (map_of k' i) (cs @ ds') \<le> length (of_poll i ds) + tries_left i w (map_of k i) (cs @ ds)"
proof (induction rows arbitrary: k ds)
  case (Cons row rows)
  obtain k1 ds1 where one: "check_row takes now row (k, ds) = (k1, ds1)" by fastforce
  from look_left [OF assms(1,2) Cons.prems(1,2) assms(3,4) _ one] Cons.prems(3)
  have l: "roomy P k1" "orderly i (map_of k1 i) (cs @ ds1)"
    "length (of_poll i ds1) + tries_left i w (map_of k1 i) (cs @ ds1) \<le> length (of_poll i ds) + tries_left i w (map_of k i) (cs @ ds)"
    by auto
  from Cons.IH [OF l(1,2)] Cons.prems(3,4) one l(3) show ?case by (auto intro: order_trans)
qed simp

text \<open>An answer, and a dropped check, of another poll change nothing; one of the poll itself fails.\<close>

lemma verify_others:
  assumes "roomy P k" and "finite P" "card P \<le> verdict_limit" "event_id c \<in> P"
  shows "roomy P (fst (verify compile srv now c k))"
    and "event_id c \<noteq> i \<Longrightarrow> map_of (fst (verify compile srv now c k)) i = map_of k i"
  using roomy_remember [OF assms] assms(1) by (auto simp: verify_def Let_def split: option.splits)

lemma answer_left:
  assumes "quiet i P s" and "finite P" "card P \<le> verdict_limit" "event_id c \<in> P"
    and "event_id c = i \<Longrightarrow> read_relations srv c = None" and "w \<le> now"
  shows "quiet i P (poll_step takes compile (Answers c srv now) s)
    \<and> tries_left i w (map_of (known (poll_step takes compile (Answers c srv now) s)) i) (running (poll_step takes compile (Answers c srv now) s))
      \<le> tries_left i w (map_of (known s) i) (running s)"
proof (cases "c \<in> set (running s)")
  case False
  with assms(1) show ?thesis by (simp add: poll_step_def)
next
  case True
  have r: "roomy P (known s)" and o: "orderly i (map_of (known s) i) (running s)" using assms(1) by (simp_all add: quiet_def)
  note v = verify_others [OF r assms(2-4)]
  show ?thesis
  proof (cases "event_id c = i")
    case False
    from True v False o others_removed [OF False] show ?thesis by (simp add: poll_step_def quiet_def)
  next
    case i: True
    with True have "c \<in> set (of_poll i (running s))" by (simp add: of_poll_def)
    with o have p: "map_of (known s) i = Some Pending" "of_poll i (running s) = [c]" "armed c" "attempt c < check_attempts"
      by (auto simp: orderly_def split: option.splits verdict.splits)
    have "fst (verify compile srv now c (known s)) = remember_in (known s) i (Failed (attempt c + 1) now)"
      using assms(5) i p(3) by (simp add: verify_def)
    with True roomy_remember [OF r assms(2-4)] p i assms(6) show ?thesis
      by (simp add: poll_step_def quiet_def orderly_def tries_left_def of_poll_remove)
  qed
qed

lemma step_left:
  assumes "quiet i P s" and "finite P" "card P \<le> verdict_limit" and "polls_of ev \<subseteq> P" and "unanswered i ev" and "within w ev"
  shows "quiet i P (poll_step takes compile ev s)
    \<and> length (started_by takes i ev s)
        + tries_left i w (map_of (known (poll_step takes compile ev s)) i) (running (poll_step takes compile ev s))
      \<le> tries_left i w (map_of (known s) i) (running s)"
proof -
  have r: "roomy P (known s)" and o: "orderly i (map_of (known s) i) (running s)" using assms(1) by (simp_all add: quiet_def)
  show ?thesis
  proof (cases ev)
    case (Rows now rows)
    obtain k cs where n: "checks_needed takes now rows (known s) = (k, cs)" by fastforce
    with looks_left [of w now P "known s" i "running s" "[]" rows takes k cs] Rows assms r o show ?thesis
      by (simp add: poll_step_def quiet_def started_by_def checks_needed_def)
  next
    case (Answers c srv now)
    with answer_left [of i P s c srv w now takes compile] assms show ?thesis by (simp add: started_by_def)
  next
    case (Drops c)
    with assms have "event_id c \<noteq> i" by simp
    then have "orderly i x (remove1 c cs) = orderly i x cs" "tries_left i w x (remove1 c cs) = tries_left i w x cs"
      "map_of (drop_guard c k) i = map_of k i" for x cs k
      by (simp_all add: others_removed map_of_drop)
    moreover have "roomy P (drop_guard c (known s))" using r by (simp add: drop_guard_def roomy_delete)
    ultimately show ?thesis using Drops assms(1) o by (simp add: poll_step_def started_by_def quiet_def)
  next
    case (EndQueued own j sender rr)
    have "roomy P (book_end j rr (known s)) \<and> map_of (book_end j rr (known s)) i = map_of (known s) i"
      using EndQueued assms(4,5) roomy_remember [OF r assms(2,3), of j] by (auto simp: book_end_def split: prod.split)
    with EndQueued assms(1) o show ?thesis by (simp add: poll_step_def started_by_def quiet_def)
  next
    case (EndGivenUp j)
    with assms(5) have "map_of (take_back_end j (known s)) i = map_of (known s) i" by (simp add: map_of_take_back)
    moreover have "roomy P (take_back_end j (known s))" using r by (simp add: take_back_end_def roomy_delete)
    ultimately show ?thesis using EndGivenUp assms(1) o by (simp add: poll_step_def started_by_def quiet_def)
  next
    case Forget
    with assms(5) show ?thesis by simp
  qed
qed

lemma steps_left:
  assumes "finite P" "card P \<le> verdict_limit"
  shows "\<lbrakk>quiet i P s; \<forall>ev\<in>set evs. polls_of ev \<subseteq> P \<and> unanswered i ev \<and> within w ev\<rbrakk>
    \<Longrightarrow> length (started_in takes compile i evs s) \<le> tries_left i w (map_of (known s) i) (running s)"
proof (induction evs arbitrary: s)
  case (Cons ev evs)
  from step_left [OF Cons.prems(1) assms, of ev w takes compile] Cons.prems(2)
  have "quiet i P (poll_step takes compile ev s)" "length (started_by takes i ev s)
        + tries_left i w (map_of (known (poll_step takes compile ev s)) i) (running (poll_step takes compile ev s))
      \<le> tries_left i w (map_of (known s) i) (running s)" by auto
  with Cons.IH [of "poll_step takes compile ev s"] Cons.prems(2) show ?case by simp
qed simp

lemma run_quiet:
  assumes "finite P" "card P \<le> verdict_limit" and "\<forall>ev\<in>set evs. polls_of ev \<subseteq> P \<and> unanswered i ev"
  shows "quiet i P (poll_run takes compile evs)"
proof -
  have once: "\<exists>w. within w ev" for ev by (cases ev) (auto intro: exI [of _ "_ :: nat"])
  have "quiet i P (fold (poll_step takes compile) evs s)" if "quiet i P s" for s
    using that assms(3)
  proof (induction evs arbitrary: s)
    case (Cons ev evs)
    obtain w where "within w ev" using once by blast
    with step_left [OF Cons.prems(1) assms(1,2), of ev w takes compile] Cons show ?case by simp
  qed simp
  moreover have "quiet i P no_polls" by (simp add: quiet_def no_polls_def roomy_def orderly_def)
  ultimately show ?thesis by (simp add: poll_run_def)
qed

lemma tries_bound: "tries_left i w v cs \<le> check_attempts"
  by (simp add: tries_left_def split: option.split verdict.split)

section \<open>Properties\<close>

text \<open>C13: The map of verdicts holds at most 500 polls whatever happens, and no poll is left pending: what is
  marked as being checked has a check under way whose guard takes the mark away should it be dropped -
  through any order of rows, answers, dropped checks, own ends and sign-outs.\<close>

theorem no_poll_left_pending:
  "bounded_map (known (poll_run takes compile evs))
   \<and> guarded (known (poll_run takes compile evs)) (running (poll_run takes compile evs))"
  using bounded.run_good [of evs takes compile] pending.run_good [of evs takes compile]
  by (simp add: list_all_iff)

text \<open>C9: No stranger ends a poll: as long as the creator has not ended it - the rows name the creator, the
  server shows no end of the creator's, and the user is somebody else - the poll is shown as running,
  whatever ends others sent and however the checks of them came out, and no vote is refused for it.\<close>

theorem stranger_cannot_end:
  assumes "list_all (no_word who i) evs"
  shows "\<not> v_ended (from_state (known (poll_run takes compile evs)) (Some i) r)
    \<and> vote_allowed parses (known (poll_run takes compile evs)) i item chosen = vote_allowed parses [] i item chosen"
proof -
  from word.run_good [OF assms, of takes compile]
  have "\<not> ended_by_creator (known (poll_run takes compile evs)) i" by (simp add: unended_def)
  note quiet = this
  moreover have "\<not> ended_by_creator [] i" by (simp add: ended_by_creator_def)
  ultimately have "vote_allowed parses (known (poll_run takes compile evs)) i item chosen = vote_allowed parses [] i item chosen"
    by (simp add: vote_allowed_def split: sum.split)
  moreover from quiet have "\<not> v_ended (from_state (known (poll_run takes compile evs)) (Some i) r)"
    by (auto simp: from_state_def ended_by_creator_def Let_def split: option.splits verdict.splits prod.splits)
  ultimately show ?thesis by blast
qed

definition sample_poll :: poll_result where
  "sample_poll = \<lparr>question = [1], undisclosed = False, max_selections = 1, answers = [([97], [97]), ([98], [98])],
     sdk_votes = [], end_time = Some 7\<rparr>"

definition sample_check :: check where
  "sample_check = \<lparr>event_id = [5], creator = [2],
     started = \<lparr>b_question = [1], b_undisclosed = False, b_max = 1, b_answers = [([97], [97]), ([98], [98])]\<rparr>,
     counted = [], sdk_end = Some 7, attempt = 0, recount = False, armed = True\<rparr>"

theorem stranger_cannot_end_witness:
  "\<not> v_ended (from_state (known (poll_run (\<lambda>_. True) (\<lambda>_ _ _. [])
      [Rows 0 [PollRow (Some [5]) [2] sample_poll], Answers sample_check (paged [[PollEnd [3] 7]]) 1])) (Some [5]) sample_poll)"
  by (rule stranger_cannot_end [THEN conjunct1, of "[2]"])
     (auto simp: no_word_def paged_def split: if_splits)

text \<open>C22: What a check reads and decides, against pages of events served newest first: either the SDK's
  count stands, because it stopped at the creator's end and no stranger's end was met up to there; or
  the votes are counted from every response of the first five pages, up to the creator's earliest end
  on them, and the count is called complete exactly if there were no more pages.\<close>

theorem check_reads:
  assumes "ps \<noteq> []" and "sorted (rev (ends_of (creator c) (concat ps)))"
  shows "\<exists>r. read_relations (paged ps) c = Some r \<and> settled c ps r"
  unfolding read_relations_def
  by (rule read_paged) (use assms in \<open>simp_all add: so_far_def relation_pages_def event_Nil\<close>)

theorem check_reads_witness:
  "\<exists>r. read_relations (paged [[PollEnd [2] 7], [Response [4] 3 [[97]]]]) sample_check = Some r
    \<and> settled sample_check [[PollEnd [2] 7], [Response [4] 3 [[97]]]] r"
  by (rule check_reads) (simp_all add: sample_check_def ends_of_def)

text \<open>C32: A poll whose checks get no answer is left in peace: in a run of the program, of any length, with any rows looked at any number
  of times and anything else happening to other polls, at most two checks of the poll are started in any five
  minutes.  The provisos: no check of the poll was answered; none was dropped before it had failed; the user neither
  ended the poll nor signed out; and the run has met no more than 500 polls, so that the map of verdicts was
  never cleared.\<close>

theorem failing_checks_rest:
  assumes "\<forall>ev\<in>set (before @ evs). unanswered i ev" and "card (\<Union> (polls_of ` set (before @ evs))) \<le> verdict_limit"
    and "\<forall>ev\<in>set evs. within w ev"
  shows "length (started_in takes compile i evs (poll_run takes compile before)) \<le> check_attempts"
proof -
  let ?P = "\<Union> (polls_of ` set (before @ evs))"
  have fin: "finite (polls_of ev)" for ev
    by (cases ev) (auto simp: row_polls_def split: row.splits option.splits)
  then have P: "finite ?P" by blast
  have "quiet i ?P (poll_run takes compile before)"
    using assms(1,2) by (intro run_quiet [OF P]) auto
  then have "length (started_in takes compile i evs (poll_run takes compile before))
    \<le> tries_left i w (map_of (known (poll_run takes compile before)) i) (running (poll_run takes compile before))"
    using assms by (intro steps_left [OF P]) auto
  then show ?thesis using tries_bound order_trans by blast
qed

definition failing_run :: "poll_event list" where
  "failing_run = [Rows 0 [PollRow (Some [5]) [2] sample_poll], Answers sample_check (\<lambda>_ _. None) 1, Rows 2 [PollRow (Some [5]) [2] sample_poll],
     Answers (sample_check\<lparr>attempt := 1\<rparr>) (\<lambda>_ _. None) 3, Rows 4 [PollRow (Some [5]) [2] sample_poll]]"

theorem failing_checks_rest_witness:
  "length (started_in (\<lambda>_. True) (\<lambda>_ _ _. []) [5] failing_run (poll_run (\<lambda>_. True) (\<lambda>_ _ _. []) [])) \<le> check_attempts
    \<and> length (started_in (\<lambda>_. True) (\<lambda>_ _ _. []) [5] failing_run no_polls) = 2"
proof
  have none: "read_relations (\<lambda>_ _. None) c = None" for c
    by (simp add: read_relations_def read_pages.simps relations_page_def relation_pages_def)
  show "length (started_in (\<lambda>_. True) (\<lambda>_ _ _. []) [5] failing_run (poll_run (\<lambda>_. True) (\<lambda>_ _ _. []) [])) \<le> check_attempts"
    by (rule failing_checks_rest [of "[]" _ _ 0])
       (simp_all add: failing_run_def none row_polls_def sample_check_def verdict_limit_def retry_after_def secs_def)
  show "length (started_in (\<lambda>_. True) (\<lambda>_ _ _. []) [5] failing_run no_polls) = 2"
    by code_simp
qed

text \<open>The proviso on dropped checks is needed: a dropped check takes the mark of the poll away, and the tries with it.  A poll whose
  checks are dropped one after the other is asked about as often as its row is looked at.\<close>

theorem dropped_checks_start_over:
  "length (started_in (\<lambda>_. True) (\<lambda>_ _ _. []) [5]
     [Rows 0 [PollRow (Some [5]) [2] sample_poll], Drops sample_check, Rows 1 [PollRow (Some [5]) [2] sample_poll], Drops sample_check,
      Rows 2 [PollRow (Some [5]) [2] sample_poll]] no_polls) = 3"
  by code_simp

lemma verify_unanswered:
  "verify compile (\<lambda>_ _. None) t c k = (if armed c then remember_in k (event_id c) (Failed (attempt c + 1) t) else k, None)"
  by (simp add: verify_def read_relations_def read_pages.simps relations_page_def relation_pages_def)

text \<open>A check that fails forgets the user's own end.  The poll's end by a stranger is being checked when
  its creator, the user, ends it: the end is booked, the check gets no answer and books its failure
  over it - the poll shows as running again.  (A check that is answered leaves the end alone.)\<close>

theorem failed_check_forgets_own_end:
  assumes "end_time r \<noteq> None" and "new_check takes (Some i) me r 0 False True = Some c"
  shows "ended_by_creator (known (poll_run takes compile [Rows 0 [PollRow (Some i) me r], EndQueued me i me r])) i
    \<and> \<not> ended_by_creator (known (poll_run takes compile
        [Rows 0 [PollRow (Some i) me r], EndQueued me i me r, Answers c (\<lambda>_ _. None) 1])) i"
proof -
  have "event_id c = i" "armed c" using new_check_fields [OF assms(2)] by simp_all
  with assms show ?thesis
    by (simp add: poll_run_def poll_step_def no_polls_def checks_needed_def check_row_def asked_def
        book_end_def verify_unanswered ended_by_creator_def map_of_remember split: prod.split)
qed

theorem failed_check_forgets_own_end_witness:
  "ended_by_creator (known (poll_run (\<lambda>_. True) (\<lambda>_ _ _. [])
     [Rows 0 [PollRow (Some [5]) [2] sample_poll], EndQueued [2] [5] [2] sample_poll])) [5]"
  by (rule failed_check_forgets_own_end [THEN conjunct1])
     (simp_all add: sample_poll_def new_check_def build_block_def)

end
