(* ===== verification/Poll_View.thy ===== *)
theory Poll_View
  imports Poll_Verdicts
begin

text \<open>
  \<open>src/core/src/poll.rs\<close>, the other half: what the user interface may see of a poll, and the content of
  a poll the user starts.  The counts of an undisclosed poll that is still running do not leave the
  core.  A share is the pair of the numbers the program divides.
\<close>

section \<open>The payload\<close>

definition question_chars :: nat where
  "question_chars = 500"

definition answer_chars :: nat where
  "answer_chars = 200"

definition bounded_text :: "str \<Rightarrow> nat \<Rightarrow> str" where
  "bounded_text text limit =
     (let cut = take limit text; cut = (if length cut < length text then cut @ [0x2026] else cut)
      in strip_bidi cut)"

record shown_answer =
  a_id :: str
  a_text :: str
  a_count :: "nat option"
  a_share :: "(nat \<times> nat) option"

record payload =
  p_question :: str
  p_undisclosed :: bool
  p_ended :: bool
  p_hidden :: bool
  p_max :: nat
  p_votes :: "nat option"
  p_voters :: "nat option"
  p_complete :: "bool option"
  p_mine :: "str list"
  p_answers :: "shown_answer list"

definition voters :: "votes \<Rightarrow> str list" where
  "voters vs = fold (\<lambda>(_, users) seen. fold (\<lambda>u seen. if u \<in> set seen then seen else seen @ [u]) users seen) vs []"

definition users_of :: "votes \<Rightarrow> str \<Rightarrow> str list" where
  "users_of vs a = (case List.find (\<lambda>v. fst v = a) vs of Some (_, users) \<Rightarrow> users | None \<Rightarrow> [])"

definition total_votes :: "votes \<Rightarrow> nat" where
  "total_votes vs = sum_list (map (\<lambda>v. length (snd v)) vs)"

definition payload :: "poll_view \<Rightarrow> str option \<Rightarrow> payload" where
  "payload v own =
     (let hidden = v_undisclosed v \<and> \<not> v_ended v;
          total = total_votes (v_votes v);
          mine = filter (\<lambda>(a, _). case own of None \<Rightarrow> False | Some u \<Rightarrow> u \<in> set (users_of (v_votes v) a)) (v_answers v)
      in \<lparr>p_question = bounded_text (v_question v) question_chars,
          p_undisclosed = v_undisclosed v, p_ended = v_ended v, p_hidden = hidden,
          p_max = max (v_max v) 1,
          p_votes = (if hidden then None else Some total),
          p_voters = (if hidden then None else Some (length (voters (v_votes v)))),
          p_complete = (if hidden then None else Some (v_complete v)),
          p_mine = map fst mine,
          p_answers = map (\<lambda>(a, text).
            (let count = length (users_of (v_votes v) a)
             in \<lparr>a_id = a, a_text = bounded_text text answer_chars,
                 a_count = (if hidden then None else Some count),
                 a_share = (if hidden \<or> total = 0 then None else Some (count, total))\<rparr>)) (v_answers v)\<rparr>)"

section \<open>A poll the user starts\<close>

definition answer_id :: "nat \<Rightarrow> str" where
  "answer_id n = lit ''a'' @ show_nat n"

definition fallback_text :: "str \<Rightarrow> str list \<Rightarrow> str" where
  "fallback_text q as =
     q @ concat (map (\<lambda>(n, a). [10] @ show_nat (n + 1) @ lit ''. '' @ a) (zip [0..<length as] as))"

definition clamp :: "nat \<Rightarrow> nat \<Rightarrow> nat \<Rightarrow> nat" where
  "clamp lo hi n = (if n < lo then lo else if n > hi then hi else n)"

definition start_content ::
  "((str \<times> str) list \<Rightarrow> bool) \<Rightarrow> str \<Rightarrow> str list \<Rightarrow> bool \<Rightarrow> nat \<Rightarrow> str + (str \<times> block)" where
  "start_content takes q as und most =
     (let q = trim q in
      if q = [] then Inl (lit ''the poll has no question'')
      else (let as = filter (\<lambda>a. a \<noteq> []) (map trim as) in
        if length as < 2 then Inl (lit ''a poll needs at least two answers'')
        else (case build_block takes q und (clamp 1 (length as) most)
                     (map (\<lambda>(n, a). (answer_id n, a)) (zip [0..<length as] as)) of
                None \<Rightarrow> Inl (lit ''the answers were refused'')
              | Some b \<Rightarrow> Inr (fallback_text q as, b))))"

section \<open>Lemmas\<close>

lemma in_voters_fold:
  "set (fold (\<lambda>u seen. if u \<in> set seen then seen else seen @ [u]) us seen) = set seen \<union> set us
   \<and> (distinct seen \<longrightarrow> distinct (fold (\<lambda>u seen. if u \<in> set seen then seen else seen @ [u]) us seen))"
  by (induction us arbitrary: seen) auto

lemma voters_fold:
  "distinct seen \<Longrightarrow>
   set (fold (\<lambda>(_, us) seen. fold (\<lambda>u seen. if u \<in> set seen then seen else seen @ [u]) us seen) vs seen)
     = set seen \<union> (\<Union>v\<in>set vs. set (snd v))
   \<and> distinct (fold (\<lambda>(_, us) seen. fold (\<lambda>u seen. if u \<in> set seen then seen else seen @ [u]) us seen) vs seen)"
proof (induction vs arbitrary: seen)
  case (Cons v vs)
  obtain a us where "v = (a, us)" by (cases v)
  with Cons in_voters_fold [of us seen] show ?case by auto
qed simp

lemma voters_set: "set (voters vs) = (\<Union>v\<in>set vs. set (snd v))" and voters_distinct: "distinct (voters vs)"
  using voters_fold [of "[]" vs] by (simp_all add: voters_def)

lemma length_voters: "length (voters vs) = card (\<Union>v\<in>set vs. set (snd v))"
  using distinct_card [OF voters_distinct [of vs]] voters_set [of vs] by simp

lemma users_of_eq: "users_of vs a = (case map_of vs a of Some us \<Rightarrow> us | None \<Rightarrow> [])"
  by (induction vs) (auto simp: users_of_def)

lemma users_of_absent: "a \<notin> fst ` set vs \<Longrightarrow> users_of vs a = []"
  by (simp add: users_of_eq map_of_eq_None_iff [THEN iffD2])

text \<open>Votes for the answers of the poll, one entry each at most: the counts add up to the total.\<close>

lemma counts_total:
  assumes "distinct (map fst vs)" and "distinct (map fst as)" and "fst ` set vs \<subseteq> fst ` set as"
  shows "sum_list (map (\<lambda>a. length (users_of vs (fst a))) as) = total_votes vs"
proof -
  let ?f = "\<lambda>a. length (users_of vs a)"
  have "sum_list (map (\<lambda>a. ?f (fst a)) as) = sum ?f (fst ` set as)"
    using sum_list_distinct_conv_sum_set [OF assms(2), of ?f] by (simp add: comp_def)
  also have "\<dots> = sum ?f (fst ` set vs)"
    using assms(3) by (intro sum.mono_neutral_right) (auto simp: users_of_absent)
  also have "\<dots> = sum_list (map (\<lambda>v. ?f (fst v)) vs)"
    using sum_list_distinct_conv_sum_set [OF assms(1), of ?f] by (simp add: comp_def)
  also have "\<dots> = total_votes vs"
    unfolding total_votes_def
    by (intro arg_cong [where f = sum_list] map_cong refl) (use assms(1) in \<open>auto simp: users_of_eq\<close>)
  finally show ?thesis .
qed

lemma bounded_text_length: "length (bounded_text t n) \<le> n + 1"
  unfolding bounded_text_def strip_bidi_eq Let_def
  by (rule le_trans [OF length_filter_le]) (simp add: min_def split: if_splits)

lemma bounded_text_clean: "\<not> list_ex is_bidi_control (bounded_text t n)"
  by (simp add: bounded_text_def strip_bidi_eq list_ex_iff Let_def)

section \<open>Properties\<close>

text \<open>C18: While an undisclosed poll runs, the interface learns nothing of how others voted: two polls that
  differ only in the votes, and in which the user has chosen the same answers, make the same payload.\<close>

theorem hidden_poll_leaks_nothing:
  assumes "v_undisclosed v" and "\<not> v_ended v"
    and "\<And>u a. own = Some u \<Longrightarrow> u \<in> set (users_of vs a) \<longleftrightarrow> u \<in> set (users_of (v_votes v) a)"
  shows "payload (v\<lparr>v_votes := vs, v_complete := b\<rparr>) own = payload v own"
  using assms by (auto simp: payload_def Let_def intro!: arg_cong [where f = "map fst"] filter_cong split: option.splits)

definition sample_view :: poll_view where
  "sample_view = \<lparr>v_question = [1], v_undisclosed = True, v_max = 1, v_ended = False, v_complete = True,
     v_answers = [([97], [97]), ([98], [98])], v_votes = [([97], [[1], [2]]), ([98], [[3]])]\<rparr>"

theorem hidden_poll_leaks_nothing_witness:
  "payload (sample_view\<lparr>v_votes := [([97], [[2], [4], [5]])], v_complete := False\<rparr>) (Some [2]) = payload sample_view (Some [2])"
  by (rule hidden_poll_leaks_nothing) (auto simp: sample_view_def users_of_eq)

text \<open>The counts shown add up: where the votes are for answers of the poll, once each, the counts of the
  answers sum up to the number of votes, the voters are as many as there are people who voted, and
  the user's own answers are those the user is counted under.\<close>

theorem counts_add_up:
  assumes "distinct (map fst (v_votes v))" and "distinct (map fst (v_answers v))"
    and "fst ` set (v_votes v) \<subseteq> fst ` set (v_answers v)" and "v_ended v"
  shows "p_votes (payload v (Some own)) = Some (sum_list (map (\<lambda>a. the (a_count a)) (p_answers (payload v (Some own)))))
    \<and> p_voters (payload v (Some own)) = Some (card (\<Union>x\<in>set (v_votes v). set (snd x)))
    \<and> p_mine (payload v (Some own)) = filter (\<lambda>a. own \<in> set (users_of (v_votes v) a)) (map fst (v_answers v))"
  using assms counts_total [OF assms(1-3)]
  by (simp add: payload_def Let_def length_voters comp_def case_prod_unfold filter_map)

theorem counts_add_up_witness:
  "p_votes (payload (sample_view\<lparr>v_ended := True\<rparr>) (Some [3]))
     = Some (sum_list (map (\<lambda>a. the (a_count a)) (p_answers (payload (sample_view\<lparr>v_ended := True\<rparr>) (Some [3])))))"
  by (rule counts_add_up [THEN conjunct1]) (simp_all add: sample_view_def)

text \<open>Whatever poll the app sends can be voted in: it has a question and at least two answers, none of
  them blank, ids that tell them apart, a number of selections between one and the number of answers,
  and any choice of that many of its answers is a vote the app accepts.\<close>

theorem started_poll_takes_votes:
  assumes "start_content takes q as und most = Inr (text, b)" and "length as \<le> uint_max"
    and "set chosen \<subseteq> set (map fst (b_answers b))" and "length chosen \<le> b_max b"
    and "\<not> ended_by_creator ks i" and "parses i"
    and "max_selections r = b_max b" and "answers r = b_answers b"
  shows "b_question b \<noteq> [] \<and> 2 \<le> length (b_answers b) \<and> distinct (map fst (b_answers b))
    \<and> [] \<notin> set (map snd (b_answers b)) \<and> 1 \<le> b_max b \<and> b_max b \<le> length (b_answers b)
    \<and> vote_allowed parses ks i (Some (PollRow (Some i) sender r)) chosen = Inr ()"
proof -
  define bs where "bs = filter (\<lambda>a. a \<noteq> []) (map trim as)"
  have len: "length bs \<le> length as" unfolding bs_def by (rule le_trans [OF length_filter_le]) simp
  have b: "trim q \<noteq> []" "2 \<le> length bs" "b = \<lparr>b_question = trim q, b_undisclosed = und,
      b_max = clamp 1 (length bs) most, b_answers = map (\<lambda>(n, a). (answer_id n, a)) (zip [0..<length bs] bs)\<rparr>"
    using assms(1,2) len
    by (auto simp: start_content_def Let_def build_block_def clamp_def bs_def [symmetric] split: if_splits option.splits)
  have ids: "map fst (b_answers b) = map answer_id [0..<length bs]"
  proof -
    have "map fst (map (\<lambda>(n, a). (answer_id n, a)) ps) = map answer_id (map fst ps)" for ps :: "(nat \<times> str) list"
      by (induction ps) auto
    then show ?thesis using b(3) by (simp del: map_map)
  qed
  have "map snd (map (\<lambda>(n, a). (answer_id n, a)) ps) = map snd ps" for ps :: "(nat \<times> str) list"
    by (induction ps) auto
  then have "map snd (b_answers b) = bs" using b(3) by (simp del: map_map)
  moreover have "[] \<notin> set bs" by (simp add: bs_def)
  moreover have "inj answer_id" by (rule injI) (simp add: answer_id_def show_nat_inj)
  then have "distinct (map fst (b_answers b))" unfolding ids by (simp add: distinct_map inj_on_def)
  moreover have "List.find (\<lambda>a. \<not> list_ex (\<lambda>k. fst k = a) (answers r)) chosen = None"
    using assms(3,8) by (auto simp: find_None_iff list_ex_iff)
  ultimately show ?thesis
    using b assms(4-8) by (simp add: vote_allowed_def loaded_poll_def clamp_def)
qed

theorem started_poll_takes_votes_witness:
  "vote_allowed (\<lambda>_. True) [] [5] (Some (PollRow (Some [5]) [2]
     \<lparr>question = [63], undisclosed = False, max_selections = 2,
      answers = [(lit ''a0'', [65]), (lit ''a1'', [66])], sdk_votes = [], end_time = None\<rparr>)) [lit ''a1'', lit ''a0''] = Inr ()"
proof -
  have "start_content (\<lambda>_. True) [63] [[65], [32], [66, 32]] False 9 =
      Inr (lit ''?'' @ [10] @ lit ''1. A'' @ [10] @ lit ''2. B'',
        \<lparr>b_question = [63], b_undisclosed = False, b_max = 2, b_answers = [(lit ''a0'', [65]), (lit ''a1'', [66])]\<rparr>)"
    by code_simp
  from started_poll_takes_votes [OF this, of "[lit ''a1'', lit ''a0'']" "[]" "[5]" "\<lambda>_. True"] show ?thesis
    by (simp add: ended_by_creator_def uint_max_def)
qed

end
