(* ===== verification/Store_Health.thy ===== *)
theory Store_Health
  imports Rust_Text "HOL-Library.AList"
begin

text \<open>
  \<open>src/core/src/storehealth.rs\<close> and the repair of \<open>runtime/storage.rs\<close>: the latch that a permanent store
  failure closes, and the scrub that takes undecodable rows out of the two stores after putting them
  aside.  Reading the rows and deleting them are two steps: in between the SDK may write, so the
  deletion works on the table as it stands then.

  Parameters: the SDK's cipher (whether a key opens it, what it makes of a value), the SDK's decoders,
  and the answers of the file system and of SQLite.  Texts in the tables are well-formed.
\<close>

section \<open>The latch\<close>

datatype scope = ScopeState | ScopeCrypto | ScopeBoth

definition scope_state :: "scope \<Rightarrow> bool" where
  "scope_state s \<longleftrightarrow> s = ScopeState \<or> s = ScopeBoth"

definition scope_crypto :: "scope \<Rightarrow> bool" where
  "scope_crypto s \<longleftrightarrow> s = ScopeCrypto \<or> s = ScopeBoth"

definition store_marks :: "str list" where
  "store_marks = [lit ''CryptoStoreError'', lit ''StateStoreError'', lit ''CryptoStore('', lit ''StateStore('']"

definition decode_marks :: "str list" where
  "decode_marks = [lit ''Decode('', lit ''Syntax('', lit ''missing field'', lit ''control character'']"

definition scope_of :: "str \<Rightarrow> scope" where
  "scope_of message =
     (case (contains (lit ''CryptoStore'') message, contains (lit ''StateStore'') message) of
        (True, False) \<Rightarrow> ScopeCrypto
      | (False, True) \<Rightarrow> ScopeState
      | _ \<Rightarrow> ScopeBoth)"

definition permanent_failure :: "str \<Rightarrow> str \<Rightarrow> bool" where
  "permanent_failure target message \<longleftrightarrow> starts_with (lit ''matrix_sdk'') target
     \<and> list_ex (\<lambda>m. contains m message) store_marks \<and> list_ex (\<lambda>m. contains m message) decode_marks"

definition note_sdk_failure :: "str \<Rightarrow> str \<Rightarrow> scope option \<Rightarrow> scope option \<times> bool" where
  "note_sdk_failure target message damage =
     (if \<not> permanent_failure target message then (damage, False)
      else if damage \<noteq> None then (damage, False)
      else (Some (scope_of message), True))"

definition damaged :: "scope option \<Rightarrow> bool" where
  "damaged damage \<longleftrightarrow> damage \<noteq> None"

definition damage_scope :: "scope option \<Rightarrow> scope" where
  "damage_scope damage = (case damage of Some s \<Rightarrow> s | None \<Rightarrow> ScopeBoth)"

section \<open>Rows\<close>

text \<open>A value of SQLite; a real is its 64 bits.\<close>

datatype sql = SNull | SInt int | SReal nat | SText str | SBlob "nat list"

type_synonym sql_row = "sql list"

record table =
  columns :: "str list"
  rows :: "sql_row list"

datatype json = JNull | JInt int | JReal nat | JText str | JObject "(str \<times> json) list"

text \<open>The exponent of a real that is infinite or no number is all ones; JSON has no such number.\<close>

definition finite_real :: "nat \<Rightarrow> bool" where
  "finite_real b \<longleftrightarrow> (b div 2 ^ 52) mod 2 ^ 11 \<noteq> 2047"

definition hex_digit :: "nat \<Rightarrow> nat" where
  "hex_digit d = (if d < 10 then 48 + d else 87 + d)"

definition hex :: "nat list \<Rightarrow> str" where
  "hex bs = concat (map (\<lambda>b. [hex_digit (b div 16), hex_digit (b mod 16)]) bs)"

definition encoded :: "sql \<Rightarrow> json" where
  "encoded v =
     (case v of
        SNull \<Rightarrow> JNull
      | SInt n \<Rightarrow> JInt n
      | SReal r \<Rightarrow> (if finite_real r then JReal r else JNull)
      | SText t \<Rightarrow> JText t
      | SBlob bs \<Rightarrow> JObject [(lit ''blob'', JText (hex bs))])"

definition whole_row :: "str list \<Rightarrow> sql_row \<Rightarrow> (str \<times> json) list" where
  "whole_row cols r = fold (\<lambda>(c, v) fields. AList.update c (encoded v) fields) (zip cols r) []"

record damaged_row =
  d_key :: "nat list"
  d_value :: "nat list"
  d_backed_up :: bool
  d_whole :: "(str \<times> json) list"

record outcome =
  checked :: nat
  dropped :: nat
  unsaved :: nat
  kept :: nat

definition no_outcome :: outcome where
  "no_outcome = \<lparr>checked = 0, dropped = 0, unsaved = 0, kept = 0\<rparr>"

definition most_ever_dropped :: nat where
  "most_ever_dropped = 5000"

definition tolerated :: "nat \<Rightarrow> nat" where
  "tolerated n = max (n div 4) 2"

section \<open>Reading\<close>

record table_spec =
  spec_table :: str
  spec_key :: str

text \<open>A store file: absent, not to be opened, or a database with the tables the scrub asks for, the
  cipher row if there is one, and the table.\<close>

record db =
  has_kv :: bool
  cipher_row :: "nat list option"
  spec_rows :: "table option"

datatype store_file = NoFile | Unopenable | Database db

definition position :: "str \<Rightarrow> str list \<Rightarrow> nat option" where
  "position c cols = (case filter (\<lambda>(n, d). d = c) (zip [0..<length cols] cols) of [] \<Rightarrow> None | (n, _) # _ \<Rightarrow> Some n)"

definition get_blob :: "sql_row \<Rightarrow> nat \<Rightarrow> nat list option" where
  "get_blob r n = (if n < length r then (case r ! n of SBlob bs \<Rightarrow> Some bs | _ \<Rightarrow> None) else None)"

definition get_flag :: "sql_row \<Rightarrow> nat \<Rightarrow> bool" where
  "get_flag r n = (if n < length r then (case r ! n of SInt i \<Rightarrow> i \<noteq> 0 | _ \<Rightarrow> False) else False)"

definition store_cipher :: "('k \<Rightarrow> nat list \<Rightarrow> 'c option) \<Rightarrow> nat list option \<Rightarrow> 'k option \<Rightarrow> str + 'c option" where
  "store_cipher import stored key =
     (case (stored, key) of
        (None, _) \<Rightarrow> Inr None
      | (Some _, None) \<Rightarrow> Inl (lit ''the store is encrypted and its key is not available'')
      | (Some s, Some k) \<Rightarrow>
          (case import k s of None \<Rightarrow> Inl (lit ''the store cipher did not open'') | Some c \<Rightarrow> Inr (Some c)))"

definition plaintext :: "('c \<Rightarrow> nat list \<Rightarrow> nat list option) \<Rightarrow> 'c option \<Rightarrow> nat list \<Rightarrow> nat list option" where
  "plaintext decrypt cipher value = (case cipher of None \<Rightarrow> Some value | Some c \<Rightarrow> decrypt c value)"

definition unreadable :: str where
  "unreadable = lit ''a row could not be read''"

definition too_many :: str where
  "too_many = lit ''more rows cannot be decoded than a damaged row accounts for''"

text \<open>The loop over the rows: the number checked and the damaged ones so far.\<close>

fun read_rows ::
  "(nat list \<Rightarrow> nat list option) \<Rightarrow> (nat list \<Rightarrow> bool) \<Rightarrow> str list \<Rightarrow> nat \<Rightarrow> nat \<Rightarrow> nat option \<Rightarrow> sql_row list
    \<Rightarrow> nat \<times> damaged_row list \<Rightarrow> str + (nat \<times> damaged_row list)" where
  "read_rows plain decodes cols key_at data_at backed_up_at [] acc = Inr acc"
| "read_rows plain decodes cols key_at data_at backed_up_at (r # rs) (n, bad) =
     (case (get_blob r key_at, get_blob r data_at) of
        (Some i, Some value) \<Rightarrow>
          (case plain value of
             None \<Rightarrow> Inl unreadable
           | Some p \<Rightarrow>
               if decodes p then read_rows plain decodes cols key_at data_at backed_up_at rs (n + 1, bad)
               else (let bad = bad @ [\<lparr>d_key = i, d_value = value,
                         d_backed_up = (case backed_up_at of Some a \<Rightarrow> get_flag r a | None \<Rightarrow> False),
                         d_whole = whole_row cols r\<rparr>]
                     in if length bad > most_ever_dropped then Inl too_many
                        else read_rows plain decodes cols key_at data_at backed_up_at rs (n + 1, bad)))
      | _ \<Rightarrow> Inl unreadable)"

text \<open>\<open>scrub_table\<close> up to the copy: nothing to look at, or the number checked and the damaged rows.\<close>

definition scrub_read ::
  "('k \<Rightarrow> nat list \<Rightarrow> 'c option) \<Rightarrow> ('c \<Rightarrow> nat list \<Rightarrow> nat list option) \<Rightarrow> (nat list \<Rightarrow> bool) \<Rightarrow> table_spec
    \<Rightarrow> 'k option \<Rightarrow> store_file \<Rightarrow> str + (nat \<times> damaged_row list)" where
  "scrub_read import decrypt decodes spec key file =
     (case file of
        NoFile \<Rightarrow> Inr (0, [])
      | Unopenable \<Rightarrow> Inl (lit ''could not be opened'')
      | Database d \<Rightarrow>
          if \<not> has_kv d then Inr (0, [])
          else (case spec_rows d of
            None \<Rightarrow> Inr (0, [])
          | Some t \<Rightarrow>
              (case store_cipher import (cipher_row d) key of
                 Inl e \<Rightarrow> Inl e
               | Inr cipher \<Rightarrow>
                   (case (position (spec_key spec) (columns t), position (lit ''data'') (columns t)) of
                      (Some key_at, Some data_at) \<Rightarrow>
                        (case read_rows (plaintext decrypt cipher) decodes (columns t) key_at data_at
                                (position (lit ''backed_up'') (columns t)) (rows t) (0, []) of
                           Inl e \<Rightarrow> Inl e
                         | Inr (n, bad) \<Rightarrow> if bad \<noteq> [] \<and> length bad > tolerated n then Inl too_many else Inr (n, bad))
                    | _ \<Rightarrow> Inl (lit ''a column is missing'')))))"

section \<open>Putting aside and deleting\<close>

type_synonym quarantined = "((str \<times> str \<times> nat list) \<times> (nat list \<times> (str \<times> json) list)) list"

text \<open>Opening the quarantine: it opens; it opens once the broken file was removed; or it does not, and the
  file is gone or still there.\<close>

datatype q_open = QOpens | QReplaced | QFails bool

definition open_quarantine :: "q_open \<Rightarrow> quarantined \<Rightarrow> quarantined \<times> bool" where
  "open_quarantine how q =
     (case how of QOpens \<Rightarrow> (q, True) | QReplaced \<Rightarrow> ([], True) | QFails removed \<Rightarrow> (if removed then [] else q, False))"

definition keep_aside ::
  "q_open \<Rightarrow> bool \<Rightarrow> str \<Rightarrow> str \<Rightarrow> damaged_row list \<Rightarrow> quarantined \<Rightarrow> (str + nat) \<times> quarantined" where
  "keep_aside opens written store table bad q =
     (case open_quarantine opens q of
        (q, False) \<Rightarrow> (Inl (lit ''the quarantine could not be opened''), q)
      | (q, True) \<Rightarrow>
          if \<not> written then (Inl (lit ''the quarantine could not be written''), q)
          else (Inr (length bad),
                fold (\<lambda>d. AList.update (store, table, d_key d) (d_value d, d_whole d)) bad q))"

text \<open>\<open>DELETE ... WHERE key = ? AND data = ?\<close>, and the transaction of all of them: the rows left and how
  many were hit.\<close>

definition hit :: "nat \<Rightarrow> nat \<Rightarrow> damaged_row \<Rightarrow> sql_row \<Rightarrow> bool" where
  "hit key_at data_at d r \<longleftrightarrow> get_blob r key_at = Some (d_key d) \<and> get_blob r data_at = Some (d_value d)"

definition delete_rows :: "nat \<Rightarrow> nat \<Rightarrow> damaged_row list \<Rightarrow> sql_row list \<Rightarrow> sql_row list \<times> nat" where
  "delete_rows key_at data_at bad rs =
     fold (\<lambda>d (rs, n). (filter (\<lambda>r. \<not> hit key_at data_at d r) rs, n + length (filter (hit key_at data_at d) rs)))
       bad (rs, 0)"

record sql_answers =
  a_opens :: q_open
  a_written :: bool
  a_executed :: bool
  a_committed :: bool

text \<open>\<open>scrub_table\<close> from the copy on, over the table as it stands by then.\<close>

definition scrub_write ::
  "str \<Rightarrow> table_spec \<Rightarrow> sql_answers \<Rightarrow> nat \<Rightarrow> damaged_row list \<Rightarrow> table \<Rightarrow> quarantined
    \<Rightarrow> (str + outcome) \<times> table \<times> quarantined" where
  "scrub_write name spec ans n bad t q =
     (if bad = [] then (Inr (no_outcome\<lparr>checked := n\<rparr>), t, q)
      else (case keep_aside (a_opens ans) (a_written ans) name (spec_table spec) bad q of
        (Inl e, q) \<Rightarrow> (Inl e, t, q)
      | (Inr k, q) \<Rightarrow>
          (case (position (spec_key spec) (columns t), position (lit ''data'') (columns t)) of
             (Some key_at, Some data_at) \<Rightarrow>
               if \<not> a_executed ans then (Inl (lit ''a row could not be deleted''), t, q)
               else (let (rs, removed) = delete_rows key_at data_at bad (rows t)
                     in if removed \<noteq> length bad then (Inl (lit ''unreadable rows were rewritten or gone while the repair ran''), t, q)
                        else if \<not> a_committed ans then (Inl (lit ''the deletion was not committed''), t, q)
                        else (Inr \<lparr>checked = n, dropped = removed,
                                unsaved = length (filter (\<lambda>d. \<not> d_backed_up d) bad), kept = k\<rparr>,
                              t\<lparr>rows := rs\<rparr>, q))
           | _ \<Rightarrow> (Inl (lit ''a row could not be deleted''), t, q))))"

text \<open>The scrub of one table: the file as it was read, the table as it stands when the rows are deleted.\<close>

record pass =
  read_from :: store_file
  at_deletion :: table
  environment :: sql_answers

definition scrub_table ::
  "('k \<Rightarrow> nat list \<Rightarrow> 'c option) \<Rightarrow> ('c \<Rightarrow> nat list \<Rightarrow> nat list option) \<Rightarrow> (nat list \<Rightarrow> bool) \<Rightarrow> str \<Rightarrow> table_spec
    \<Rightarrow> 'k option \<Rightarrow> pass \<Rightarrow> quarantined \<Rightarrow> (str + outcome) \<times> table \<times> quarantined" where
  "scrub_table import decrypt decodes name spec key p q =
     (case scrub_read import decrypt decodes spec key (read_from p) of
        Inl e \<Rightarrow> (Inl e, at_deletion p, q)
      | Inr (n, bad) \<Rightarrow> scrub_write name spec (environment p) n bad (at_deletion p) q)"

section \<open>The scrub and the repair\<close>

record report =
  r_checked :: nat
  r_rooms :: nat
  r_room_keys :: nat
  r_room_keys_unsaved :: nat
  r_kept :: nat

definition no_report :: report where
  "no_report = \<lparr>r_checked = 0, r_rooms = 0, r_room_keys = 0, r_room_keys_unsaved = 0, r_kept = 0\<rparr>"

definition report_dropped :: "report \<Rightarrow> nat" where
  "report_dropped r = r_rooms r + r_room_keys r"

definition room_info :: table_spec where
  "room_info = \<lparr>spec_table = lit ''room_info'', spec_key = lit ''room_id''\<rparr>"

definition inbound_group_session :: table_spec where
  "inbound_group_session = \<lparr>spec_table = lit ''inbound_group_session'', spec_key = lit ''session_id''\<rparr>"

text \<open>\<open>scrub\<close>: the report, the two tables and the quarantine afterwards.  The second store is looked at only
  if the first was done with.\<close>

definition scrub ::
  "('k \<Rightarrow> nat list \<Rightarrow> 'c option) \<Rightarrow> ('c \<Rightarrow> nat list \<Rightarrow> nat list option) \<Rightarrow> (nat list \<Rightarrow> bool) \<Rightarrow> (nat list \<Rightarrow> bool)
    \<Rightarrow> 'k option \<Rightarrow> scope \<Rightarrow> pass \<Rightarrow> pass \<Rightarrow> quarantined \<Rightarrow> (str + report) \<times> table \<times> table \<times> quarantined" where
  "scrub import decrypt is_room is_session key s p1 p2 q =
     (case (if scope_state s then scrub_table import decrypt is_room (lit ''matrix-sdk-state.sqlite3'') room_info key p1 q
            else (Inr no_outcome, at_deletion p1, q)) of
        (Inl e, t1, q) \<Rightarrow> (Inl e, t1, at_deletion p2, q)
      | (Inr o1, t1, q) \<Rightarrow>
          (case (if scope_crypto s
                 then scrub_table import decrypt is_session (lit ''matrix-sdk-crypto.sqlite3'') inbound_group_session key p2 q
                 else (Inr no_outcome, at_deletion p2, q)) of
             (Inl e, t2, q) \<Rightarrow> (Inl e, t1, t2, q)
           | (Inr o2, t2, q) \<Rightarrow>
               (Inr \<lparr>r_checked = checked o1 + checked o2, r_rooms = dropped o1, r_room_keys = dropped o2,
                     r_room_keys_unsaved = unsaved o2, r_kept = kept o1 + kept o2\<rparr>, t1, t2, q)))"

text \<open>\<open>repair_storage\<close>: the latch afterwards, and whether the sync is started.\<close>

definition repair :: "str + report \<Rightarrow> scope option \<Rightarrow> scope option \<times> bool" where
  "repair scrubbed damage =
     (case scrubbed of
        Inl e \<Rightarrow> (damage, False)
      | Inr r \<Rightarrow> if report_dropped r > 0 then (None, True) else (damage, False))"

end
