(* ===== verification/Store_Repair.thy ===== *)
theory Store_Repair
  imports Store_Health
begin

text \<open>
  What the repair of \<open>Store_Health\<close> promises: a row goes only if it was read, opened under the right key,
  failed to decode, stands unchanged, and lies in the quarantine with every column; every doubtful case
  deletes nothing; and what lies in the quarantine can be put back.
\<close>

section \<open>Reading\<close>

definition key_of :: "table_spec \<Rightarrow> str list \<Rightarrow> sql_row \<Rightarrow> nat list option" where
  "key_of spec cols r = Option.bind (position (spec_key spec) cols) (get_blob r)"

definition data_of :: "str list \<Rightarrow> sql_row \<Rightarrow> nat list option" where
  "data_of cols r = Option.bind (position (lit ''data'') cols) (get_blob r)"

definition described :: "str list \<Rightarrow> nat \<Rightarrow> nat \<Rightarrow> nat option \<Rightarrow> sql_row \<Rightarrow> damaged_row" where
  "described cols ka da ba r =
     \<lparr>d_key = the (get_blob r ka), d_value = the (get_blob r da),
      d_backed_up = (case ba of Some a \<Rightarrow> get_flag r a | None \<Rightarrow> False), d_whole = whole_row cols r\<rparr>"

definition legible :: "(nat list \<Rightarrow> nat list option) \<Rightarrow> nat \<Rightarrow> nat \<Rightarrow> sql_row \<Rightarrow> bool" where
  "legible plain ka da r \<longleftrightarrow> get_blob r ka \<noteq> None \<and> (case get_blob r da of Some v \<Rightarrow> plain v \<noteq> None | None \<Rightarrow> False)"

definition bad_row :: "(nat list \<Rightarrow> nat list option) \<Rightarrow> (nat list \<Rightarrow> bool) \<Rightarrow> nat \<Rightarrow> sql_row \<Rightarrow> bool" where
  "bad_row plain decodes da r \<longleftrightarrow>
     (case Option.bind (get_blob r da) plain of Some p \<Rightarrow> \<not> decodes p | None \<Rightarrow> False)"

lemma read_rows_Inr:
  "read_rows plain decodes cols ka da ba rs (n, bad) = Inr (m, bad') \<longleftrightarrow>
     m = n + length rs \<and> bad' = bad @ map (described cols ka da ba) (filter (bad_row plain decodes da) rs)
     \<and> list_all (legible plain ka da) rs \<and> (bad' = bad \<or> length bad' \<le> most_ever_dropped)"
proof (induction rs arbitrary: n bad)
  case Nil
  then show ?case by auto
next
  case (Cons r rs)
  show ?case
  proof (cases "legible plain ka da r")
    case False
    then show ?thesis by (auto simp: legible_def split: option.splits)
  next
    case True
    then obtain i v p where r: "get_blob r ka = Some i" "get_blob r da = Some v" "plain v = Some p"
      by (auto simp: legible_def split: option.splits)
    show ?thesis
    proof (cases "decodes p")
      case dec: True
      with r True show ?thesis by (auto simp: Cons.IH bad_row_def)
    next
      case False
      with r have b: "bad_row plain decodes da r" by (simp add: bad_row_def)
      let ?d = "described cols ka da ba r"
      have "read_rows plain decodes cols ka da ba (r # rs) (n, bad) =
        (if length (bad @ [?d]) > most_ever_dropped then Inl too_many
         else read_rows plain decodes cols ka da ba rs (n + 1, bad @ [?d]))"
        using r False by (simp add: described_def Let_def)
      with b True show ?thesis by (auto simp: Cons.IH)
    qed
  qed
qed

text \<open>What a scrub found, in terms of the table it read.\<close>

definition read_as ::
  "('k \<Rightarrow> nat list \<Rightarrow> 'c option) \<Rightarrow> ('c \<Rightarrow> nat list \<Rightarrow> nat list option) \<Rightarrow> table_spec \<Rightarrow> 'k option \<Rightarrow> store_file
    \<Rightarrow> table \<Rightarrow> (nat list \<Rightarrow> nat list option) \<Rightarrow> nat \<Rightarrow> nat \<Rightarrow> bool" where
  "read_as import decrypt spec key file t plain ka da \<longleftrightarrow>
     (\<exists>d cipher. file = Database d \<and> has_kv d \<and> spec_rows d = Some t
        \<and> store_cipher import (cipher_row d) key = Inr cipher \<and> plain = plaintext decrypt cipher
        \<and> position (spec_key spec) (columns t) = Some ka \<and> position (lit ''data'') (columns t) = Some da)"

lemma scrub_read_Inr:
  assumes "scrub_read import decrypt decodes spec key file = Inr (n, bad)" and "bad \<noteq> []"
  shows "\<exists>t plain ka da. read_as import decrypt spec key file t plain ka da \<and> n = length (rows t)
    \<and> list_all (legible plain ka da) (rows t) \<and> length bad \<le> tolerated n
    \<and> bad = map (described (columns t) ka da (position (lit ''backed_up'') (columns t))) (filter (bad_row plain decodes da) (rows t))"
proof -
  have "(0, []) \<noteq> (n, bad)" using assms(2) by simp
  then obtain d t cipher ka da where "file = Database d" "has_kv d" "spec_rows d = Some t"
      "store_cipher import (cipher_row d) key = Inr cipher"
      "position (spec_key spec) (columns t) = Some ka" "position (lit ''data'') (columns t) = Some da"
      "read_rows (plaintext decrypt cipher) decodes (columns t) ka da
         (position (lit ''backed_up'') (columns t)) (rows t) (0, []) = Inr (n, bad)" "length bad \<le> tolerated n"
    using assms unfolding scrub_read_def
    by (auto split: store_file.splits if_splits option.splits sum.splits)
  then show ?thesis unfolding read_rows_Inr read_as_def by fastforce
qed

lemma scrub_read_of:
  assumes "read_as import decrypt spec key file t plain ka da"
  shows "scrub_read import decrypt decodes spec key file =
    (case read_rows plain decodes (columns t) ka da (position (lit ''backed_up'') (columns t)) (rows t) (0, []) of
       Inl e \<Rightarrow> Inl e
     | Inr (n, bad) \<Rightarrow> if bad \<noteq> [] \<and> length bad > tolerated n then Inl too_many else Inr (n, bad))"
  using assms by (auto simp: read_as_def scrub_read_def)

section \<open>Deleting\<close>

lemma delete_rows_fold:
  "fold (\<lambda>d (rs, n). (filter (\<lambda>r. \<not> hit ka da d r) rs, n + length (filter (hit ka da d) rs))) bad (rs, n)
   = (filter (\<lambda>r. \<not> list_ex (\<lambda>d. hit ka da d r) bad) rs, n + length (filter (\<lambda>r. list_ex (\<lambda>d. hit ka da d r) bad) rs))"
proof (induction bad arbitrary: rs n)
  case (Cons d bad)
  have "length (filter (hit ka da d) rs) + length (filter (\<lambda>r. list_ex (\<lambda>d. hit ka da d r) bad) (filter (\<lambda>r. \<not> hit ka da d r) rs))
    = length (filter (\<lambda>r. list_ex (\<lambda>d. hit ka da d r) (d # bad)) rs)"
    by (induction rs) auto
  then show ?case by (simp add: Cons.IH conj_commute)
qed simp

lemma delete_rows_eq:
  "delete_rows ka da bad rs = (filter (\<lambda>r. \<not> list_ex (\<lambda>d. hit ka da d r) bad) rs,
     length (filter (\<lambda>r. list_ex (\<lambda>d. hit ka da d r) bad) rs))"
  by (simp add: delete_rows_def delete_rows_fold)

lemma fold_aside:
  "distinct (map d_key bad) \<Longrightarrow>
   map_of (fold (\<lambda>d. AList.update (name, tab, d_key d) (d_value d, d_whole d)) bad q) (name, tab, k) =
     (case List.find (\<lambda>d. d_key d = k) bad of Some d \<Rightarrow> Some (d_value d, d_whole d) | None \<Rightarrow> map_of q (name, tab, k))"
proof (induction bad arbitrary: q)
  case (Cons d bad)
  have "List.find (\<lambda>d'. d_key d' = d_key d) bad = None"
    using Cons.prems by (auto simp: find_None_iff) (metis imageI)
  with Cons show ?case by (auto simp: update_conv' split: option.split)
qed simp

lemma scrub_write_cases:
  assumes "scrub_write name spec ans n bad t q = (res, t', q')"
  shows "(t' = t \<and> ((\<exists>e. res = Inl e) \<or> (bad = [] \<and> res = Inr (no_outcome\<lparr>checked := n\<rparr>) \<and> q' = q)))
    \<or> (\<exists>ka da q0. position (spec_key spec) (columns t) = Some ka \<and> position (lit ''data'') (columns t) = Some da
        \<and> t' = t\<lparr>rows := filter (\<lambda>r. \<not> list_ex (\<lambda>d. hit ka da d r) bad) (rows t)\<rparr>
        \<and> bad \<noteq> [] \<and> length (filter (\<lambda>r. list_ex (\<lambda>d. hit ka da d r) bad) (rows t)) = length bad
        \<and> res = Inr \<lparr>checked = n, dropped = length bad, unsaved = length (filter (\<lambda>d. \<not> d_backed_up d) bad), kept = length bad\<rparr>
        \<and> q' = fold (\<lambda>d. AList.update (name, spec_table spec, d_key d) (d_value d, d_whole d)) bad q0)"
  using assms
  by (auto simp: scrub_write_def keep_aside_def delete_rows_eq Let_def
      split: if_splits prod.splits bool.splits sum.splits option.splits)

lemma scrub_table_Inr:
  assumes "scrub_table import decrypt decodes name spec key p q = (res, t', q')" and "t' \<noteq> at_deletion p \<or> (\<exists>e. res = Inr e \<and> dropped e > 0)"
  obtains t plain ka da kb db bad where "read_as import decrypt spec key (read_from p) t plain ka da"
    and "list_all (legible plain ka da) (rows t)"
    and "bad = map (described (columns t) ka da (position (lit ''backed_up'') (columns t))) (filter (bad_row plain decodes da) (rows t))"
    and "bad \<noteq> []" and "length bad \<le> tolerated (length (rows t))"
    and "position (spec_key spec) (columns (at_deletion p)) = Some kb" and "position (lit ''data'') (columns (at_deletion p)) = Some db"
    and "t' = at_deletion p\<lparr>rows := filter (\<lambda>r. \<not> list_ex (\<lambda>d. hit kb db d r) bad) (rows (at_deletion p))\<rparr>"
    and "length (filter (\<lambda>r. list_ex (\<lambda>d. hit kb db d r) bad) (rows (at_deletion p))) = length bad"
    and "res = Inr \<lparr>checked = length (rows t), dropped = length bad,
           unsaved = length (filter (\<lambda>d. \<not> d_backed_up d) bad), kept = length bad\<rparr>"
    and "\<exists>q0. q' = fold (\<lambda>d. AList.update (name, spec_table spec, d_key d) (d_value d, d_whole d)) bad q0"
proof -
  obtain n bad where r: "scrub_read import decrypt decodes spec key (read_from p) = Inr (n, bad)"
    using assms by (auto simp: scrub_table_def split: sum.splits)
  then have w: "scrub_write name spec (environment p) n bad (at_deletion p) q = (res, t', q')"
    using assms(1) by (simp add: scrub_table_def)
  note c = scrub_write_cases [OF w]
  from c assms(2) have "bad \<noteq> []" by (auto simp: no_outcome_def)
  from scrub_read_Inr [OF r this] c this assms(2) show thesis
    by (auto simp: no_outcome_def intro: that)
qed

lemma described_distinct:
  assumes "distinct (map (\<lambda>r. get_blob r ka) rs)" and "list_all (legible plain ka da) rs"
  shows "distinct (map d_key (map (described cols ka da ba) (filter P rs)))"
proof -
  have "inj_on (d_key \<circ> described cols ka da ba) (set (filter P rs))"
  proof (rule inj_onI)
    fix r s assume rs: "r \<in> set (filter P rs)" "s \<in> set (filter P rs)"
      and eq: "(d_key \<circ> described cols ka da ba) r = (d_key \<circ> described cols ka da ba) s"
    have "get_blob r ka \<noteq> None" "get_blob s ka \<noteq> None"
      using assms(2) rs by (auto simp: list_all_iff legible_def)
    with eq have "get_blob r ka = get_blob s ka" by (auto simp: described_def)
    with assms(1) rs show "r = s" by (auto simp: distinct_map dest: inj_onD)
  qed
  then show ?thesis using assms(1) by (simp add: distinct_map)
qed

section \<open>Properties\<close>

text \<open>C6: The repair deletes nothing that is not undecodable and put aside.  Whatever the SDK wrote between
  the reading and the deleting, a row that is gone afterwards carries the key and the value of a row
  that was read, opened under the store's key and did not decode; and the quarantine holds that value
  under that key, with every column of the row as it was read.\<close>

theorem only_what_is_put_aside_goes:
  assumes "scrub_table import decrypt decodes name spec key p q = (res, t', q')"
    and "x \<in> set (rows (at_deletion p)) - set (rows t')"
    and "\<And>t. (\<exists>d. read_from p = Database d \<and> spec_rows d = Some t) \<Longrightarrow> distinct (map (key_of spec (columns t)) (rows t))"
  shows "\<exists>t plain ka da y k v c. read_as import decrypt spec key (read_from p) t plain ka da \<and> y \<in> set (rows t)
    \<and> key_of spec (columns t) y = Some k \<and> data_of (columns t) y = Some v \<and> plain v = Some c \<and> \<not> decodes c
    \<and> key_of spec (columns (at_deletion p)) x = Some k \<and> data_of (columns (at_deletion p)) x = Some v
    \<and> map_of q' (name, spec_table spec, k) = Some (v, whole_row (columns t) y)"
proof -
  have "t' \<noteq> at_deletion p" using assms(2) by auto
  with assms(1) obtain t plain ka da kb db bad q0 where r: "read_as import decrypt spec key (read_from p) t plain ka da"
    and legible: "list_all (legible plain ka da) (rows t)"
    and bad: "bad = map (described (columns t) ka da (position (lit ''backed_up'') (columns t))) (filter (bad_row plain decodes da) (rows t))"
    and cols: "position (spec_key spec) (columns (at_deletion p)) = Some kb" "position (lit ''data'') (columns (at_deletion p)) = Some db"
    and t': "t' = at_deletion p\<lparr>rows := filter (\<lambda>r. \<not> list_ex (\<lambda>d. hit kb db d r) bad) (rows (at_deletion p))\<rparr>"
    and q': "q' = fold (\<lambda>d. AList.update (name, spec_table spec, d_key d) (d_value d, d_whole d)) bad q0"
    by (elim scrub_table_Inr) auto
  from assms(2) t' obtain d where d: "d \<in> set bad" "hit kb db d x" by (auto simp: list_ex_iff)
  then obtain y where y: "y \<in> set (rows t)" "bad_row plain decodes da y"
    "d = described (columns t) ka da (position (lit ''backed_up'') (columns t)) y" using bad by auto
  have pos: "position (spec_key spec) (columns t) = Some ka" "position (lit ''data'') (columns t) = Some da"
    using r by (auto simp: read_as_def)
  obtain k v c where kvc: "get_blob y ka = Some k" "get_blob y da = Some v" "plain v = Some c" "\<not> decodes c"
    using legible y(1,2) by (fastforce simp: list_all_iff legible_def bad_row_def split: option.splits)
  have d': "d_key d = k" "d_value d = v" "d_whole d = whole_row (columns t) y"
    using y(3) kvc by (simp_all add: described_def)
  have "key_of spec (columns t) = (\<lambda>r. get_blob r ka)" using pos(1) by (simp add: key_of_def fun_eq_iff)
  then have "distinct (map (\<lambda>r. get_blob r ka) (rows t))" using assms(3) [of t] r by (auto simp: read_as_def)
  then have "distinct (map d_key bad)" using described_distinct legible bad by simp
  moreover from this have "List.find (\<lambda>d'. d_key d' = k) bad = Some d"
    using d(1) d'(1) by (induction bad) auto
  ultimately have "map_of q' (name, spec_table spec, k) = Some (v, whole_row (columns t) y)"
    using fold_aside [of bad name "spec_table spec" q0 k] q' d' by simp
  moreover have "key_of spec (columns (at_deletion p)) x = Some k" "data_of (columns (at_deletion p)) x = Some v"
    using d(2) d' cols by (simp_all add: hit_def key_of_def data_of_def)
  moreover have "key_of spec (columns t) y = Some k" "data_of (columns t) y = Some v"
    using kvc pos by (simp_all add: key_of_def data_of_def)
  ultimately show ?thesis using r y(1) kvc(3,4) by blast
qed

text \<open>A store of three rows under no cipher; the second does not decode.\<close>

definition sample_table :: table where
  "sample_table = \<lparr>columns = [lit ''room_id'', lit ''data''],
     rows = [[SBlob [1], SBlob [10]], [SBlob [2], SBlob [0]], [SBlob [3], SBlob [11]]]\<rparr>"

definition sample_pass :: pass where
  "sample_pass = \<lparr>read_from = Database \<lparr>has_kv = True, cipher_row = None, spec_rows = Some sample_table\<rparr>,
     at_deletion = sample_table,
     environment = \<lparr>a_opens = QOpens, a_written = True, a_executed = True, a_committed = True\<rparr>\<rparr>"

definition no_cipher :: "nat \<Rightarrow> nat list \<Rightarrow> nat option" where
  "no_cipher k s = None"

abbreviation sample_scrub :: "pass \<Rightarrow> (str + outcome) \<times> table \<times> quarantined" where
  "sample_scrub p \<equiv> scrub_table no_cipher (\<lambda>_ v. Some v) (\<lambda>v. v \<noteq> [0]) [7] room_info (Some 5) p []"

lemma sample_scrub_eq:
  "sample_scrub sample_pass =
     (Inr \<lparr>checked = 3, dropped = 1, unsaved = 1, kept = 1\<rparr>,
      sample_table\<lparr>rows := [[SBlob [1], SBlob [10]], [SBlob [3], SBlob [11]]]\<rparr>,
      [(([7], lit ''room_info'', [2]), ([0], whole_row [lit ''room_id'', lit ''data''] [SBlob [2], SBlob [0]]))])"
  by code_simp

theorem only_what_is_put_aside_goes_witness:
  "\<exists>t plain ka da y k v c. read_as no_cipher (\<lambda>_ v. Some v) room_info (Some 5) (read_from sample_pass) t plain ka da
    \<and> y \<in> set (rows t) \<and> key_of room_info (columns t) y = Some k \<and> data_of (columns t) y = Some v
    \<and> plain v = Some c \<and> \<not> c \<noteq> [0]
    \<and> key_of room_info (columns (at_deletion sample_pass)) [SBlob [2], SBlob [0]] = Some k
    \<and> data_of (columns (at_deletion sample_pass)) [SBlob [2], SBlob [0]] = Some v
    \<and> map_of [(([7::nat], lit ''room_info'', [2]), ([0], whole_row [lit ''room_id'', lit ''data''] [SBlob [2], SBlob [0]]))]
        ([7::nat], spec_table room_info, k) = Some (v, whole_row (columns t) y)"
proof (rule only_what_is_put_aside_goes [OF sample_scrub_eq])
  show "[SBlob [2], SBlob [0]] \<in> set (rows (at_deletion sample_pass))
      - set (rows (sample_table\<lparr>rows := [[SBlob [1], SBlob [10]], [SBlob [3], SBlob [11]]]\<rparr>))"
    by (simp add: sample_pass_def sample_table_def)
  fix t assume "\<exists>d. read_from sample_pass = Database d \<and> spec_rows d = Some t"
  then have "t = sample_table" by (simp add: sample_pass_def)
  then show "distinct (map (key_of room_info (columns t)) (rows t))"
    by (simp add: sample_table_def) code_simp
qed

text \<open>C23: A doubtful case deletes nothing.  A scrub that ends in an error leaves the table as it was; and it
  does end in an error, with the quarantine untouched as well, where a value does not open under the
  key - which is what a wrong key looks like - or where more rows fail to decode than a quarter of the
  table, two always being allowed.\<close>

theorem doubtful_deletes_nothing:
  assumes "scrub_table import decrypt decodes name spec key p q = (res, t', q')"
  shows "(res = Inl e \<longrightarrow> t' = at_deletion p)
    \<and> (read_as import decrypt spec key (read_from p) t plain ka da
        \<and> (\<not> list_all (legible plain ka da) (rows t)
            \<or> length (filter (bad_row plain decodes da) (rows t)) > max (length (rows t) div 4) 2)
       \<longrightarrow> (\<exists>e. res = Inl e) \<and> t' = at_deletion p \<and> q' = q)"
proof (intro conjI impI)
  assume "res = Inl e"
  show "t' = at_deletion p"
  proof (rule ccontr)
    assume "t' \<noteq> at_deletion p"
    with assms \<open>res = Inl e\<close> show False by (elim scrub_table_Inr) auto
  qed
next
  assume a: "read_as import decrypt spec key (read_from p) t plain ka da
        \<and> (\<not> list_all (legible plain ka da) (rows t)
            \<or> length (filter (bad_row plain decodes da) (rows t)) > max (length (rows t) div 4) 2)"
  have "\<exists>e. scrub_read import decrypt decodes spec key (read_from p) = Inl e"
  proof (cases "read_rows plain decodes (columns t) ka da (position (lit ''backed_up'') (columns t)) (rows t) (0, [])")
    case (Inr nb)
    obtain n bad where nb: "nb = (n, bad)" by fastforce
    with Inr a have "n = length (rows t)" "length bad > tolerated n" by (auto simp: read_rows_Inr tolerated_def)
    with a Inr nb show ?thesis by (auto simp: scrub_read_of)
  qed (use a in \<open>auto simp: scrub_read_of\<close>)
  with assms show "\<exists>e. res = Inl e" "t' = at_deletion p" "q' = q" by (auto simp: scrub_table_def)
qed

theorem doubtful_deletes_nothing_witness:
  "let p = sample_pass\<lparr>read_from := Database \<lparr>has_kv = True, cipher_row = Some [9], spec_rows = Some sample_table\<rparr>\<rparr>;
       (res, t', q') = scrub_table (\<lambda>_ _. Some (0 :: nat)) (\<lambda>_ _. None) (\<lambda>_. True) [7] room_info (Some (5 :: nat)) p []
   in (\<exists>e. res = Inl e) \<and> t' = sample_table \<and> q' = []"
proof -
  define p where "p = sample_pass\<lparr>read_from := Database \<lparr>has_kv = True, cipher_row = Some [9], spec_rows = Some sample_table\<rparr>\<rparr>"
  obtain res t' q' where s: "scrub_table (\<lambda>_ _. Some (0 :: nat)) (\<lambda>_ _. None) (\<lambda>_. True) [7] room_info (Some (5 :: nat)) p [] = (res, t', q')"
    using prod_cases3 by blast
  have "position (spec_key room_info) (columns sample_table) = Some 0" "position (lit ''data'') (columns sample_table) = Some 1"
    by code_simp+
  then have "read_as (\<lambda>_ _. Some (0 :: nat)) (\<lambda>_ _. None) room_info (Some (5 :: nat)) (read_from p) sample_table (\<lambda>_. None) 0 1"
    by (simp add: read_as_def p_def store_cipher_def plaintext_def fun_eq_iff)
  moreover have "\<not> list_all (legible (\<lambda>_. None) 0 1) (rows sample_table)"
    by (simp add: sample_table_def legible_def get_blob_def)
  moreover have "at_deletion p = sample_table" by (simp add: p_def sample_pass_def)
  ultimately have "(\<exists>e. res = Inl e) \<and> t' = sample_table \<and> q' = []"
    using doubtful_deletes_nothing [OF s, THEN conjunct2] by fastforce
  with s show ?thesis by (simp add: p_def Let_def)
qed

text \<open>A scrub that nobody disturbs: what it deletes is exactly what does not decode.\<close>

definition undisturbed :: "pass \<Rightarrow> table \<Rightarrow> bool" where
  "undisturbed p t \<longleftrightarrow> at_deletion p = t \<and> a_opens (environment p) \<noteq> QFails True \<and> a_opens (environment p) \<noteq> QFails False
     \<and> a_written (environment p) \<and> a_executed (environment p) \<and> a_committed (environment p)"

lemma hit_described:
  assumes "list_all (legible plain ka da) rs" and "distinct (map (\<lambda>r. get_blob r ka) rs)" and "r \<in> set rs"
  shows "list_ex (\<lambda>d. hit ka da d r) (map (described cols ka da ba) (filter P rs)) \<longleftrightarrow> P r"
proof
  assume "list_ex (\<lambda>d. hit ka da d r) (map (described cols ka da ba) (filter P rs))"
  then obtain s where s: "s \<in> set rs" "P s" "hit ka da (described cols ka da ba s) r" by (auto simp: list_ex_iff)
  moreover have "get_blob s ka \<noteq> None" using assms(1) s(1) by (auto simp: list_all_iff legible_def)
  ultimately have "get_blob r ka = get_blob s ka" by (auto simp: hit_def described_def)
  with assms(2,3) s show "P r" by (metis distinct_map inj_onD)
next
  assume "P r"
  moreover have "hit ka da (described cols ka da ba r) r"
    using assms(1,3) by (auto simp: list_all_iff legible_def hit_def described_def split: option.splits)
  ultimately show "list_ex (\<lambda>d. hit ka da d r) (map (described cols ka da ba) (filter P rs))"
    using assms(3) by (auto simp: list_ex_iff)
qed

text \<open>A repair that runs undisturbed over a table with few enough damaged rows succeeds: it removes the
  rows that do not decode and no others, puts as many aside as it drops, and a second scrub of what
  is left finds nothing.\<close>

theorem undisturbed_repair:
  assumes "read_as import decrypt spec key (read_from p) t plain ka da" and "undisturbed p t"
    and "list_all (legible plain ka da) (rows t)" and "distinct (map (\<lambda>r. get_blob r ka) (rows t))"
    and "length (filter (bad_row plain decodes da) (rows t)) \<le> tolerated (length (rows t))"
    and "length (rows t) \<le> most_ever_dropped"
  shows "\<exists>u q'. scrub_table import decrypt decodes name spec key p q =
      (Inr \<lparr>checked = length (rows t), dropped = length (filter (bad_row plain decodes da) (rows t)), unsaved = u,
            kept = length (filter (bad_row plain decodes da) (rows t))\<rparr>,
       t\<lparr>rows := filter (\<lambda>r. \<not> bad_row plain decodes da r) (rows t)\<rparr>, q')
    \<and> read_rows plain decodes (columns t) ka da ba (filter (\<lambda>r. \<not> bad_row plain decodes da r) (rows t)) (0, [])
      = Inr (length (filter (\<lambda>r. \<not> bad_row plain decodes da r) (rows t)), [])"
proof -
  let ?bad = "bad_row plain decodes da" and ?ba = "position (lit ''backed_up'') (columns t)"
  define ds where "ds = map (described (columns t) ka da ?ba) (filter ?bad (rows t))"
  have len: "length ds = length (filter ?bad (rows t))" by (simp add: ds_def)
  have "length ds \<le> most_ever_dropped" unfolding len using assms(6) le_trans [OF length_filter_le] by blast
  then have "read_rows plain decodes (columns t) ka da ?ba (rows t) (0, []) = Inr (length (rows t), ds)"
    using assms(3) by (simp add: read_rows_Inr ds_def)
  then have r: "scrub_read import decrypt decodes spec key (read_from p) = Inr (length (rows t), ds)"
    using assms(5) len unfolding scrub_read_of [OF assms(1)] by simp
  have pos: "position (spec_key spec) (columns t) = Some ka" "position (lit ''data'') (columns t) = Some da"
    using assms(1) by (auto simp: read_as_def)
  have kept: "filter (\<lambda>r. \<not> list_ex (\<lambda>d. hit ka da d r) ds) (rows t) = filter (\<lambda>r. \<not> ?bad r) (rows t)"
    "filter (\<lambda>r. list_ex (\<lambda>d. hit ka da d r) ds) (rows t) = filter ?bad (rows t)"
    using hit_described [OF assms(3,4), of _ "columns t" ?ba ?bad] unfolding ds_def by (intro filter_cong; simp)+
  obtain q0 where o: "open_quarantine (a_opens (environment p)) q = (q0, True)"
    using assms(2) by (cases "a_opens (environment p)") (auto simp: undisturbed_def open_quarantine_def)
  have "\<exists>u q'. scrub_write name spec (environment p) (length (rows t)) ds t q =
      (Inr \<lparr>checked = length (rows t), dropped = length ds, unsaved = u, kept = length ds\<rparr>,
       t\<lparr>rows := filter (\<lambda>r. \<not> ?bad r) (rows t)\<rparr>, q')"
  proof (cases "ds = []")
    case True
    then have "filter (\<lambda>r. \<not> ?bad r) (rows t) = rows t" using len by (simp add: filter_empty_conv)
    with True show ?thesis by (simp add: scrub_write_def no_outcome_def)
  next
    case False
    then show ?thesis
      using assms(2) o pos len kept
      by (simp add: scrub_write_def keep_aside_def undisturbed_def delete_rows_eq)
  qed
  moreover have "at_deletion p = t" using assms(2) by (simp add: undisturbed_def)
  moreover have "list_all (legible plain ka da) (filter (\<lambda>r. \<not> ?bad r) (rows t))"
    using assms(3) by (auto simp: list_all_iff)
  ultimately show ?thesis using r len by (simp add: scrub_table_def read_rows_Inr)
qed

theorem undisturbed_repair_witness:
  "\<exists>u q'. sample_scrub sample_pass =
     (Inr \<lparr>checked = length (rows sample_table), dropped = 1, unsaved = u, kept = 1\<rparr>,
      sample_table\<lparr>rows := [[SBlob [1], SBlob [10]], [SBlob [3], SBlob [11]]]\<rparr>, q')"
proof -
  have "position (spec_key room_info) (columns sample_table) = Some 0" "position (lit ''data'') (columns sample_table) = Some 1"
    by code_simp+
  then have "read_as no_cipher (\<lambda>_ v. Some v) room_info (Some 5) (read_from sample_pass) sample_table (\<lambda>v. Some v) 0 1"
    by (simp add: read_as_def sample_pass_def store_cipher_def plaintext_def fun_eq_iff)
  from undisturbed_repair [OF this, of "\<lambda>v. v \<noteq> [0]" "[7]" "[]" None]
  show ?thesis
    by (simp add: undisturbed_def sample_pass_def sample_table_def legible_def bad_row_def get_blob_def
        tolerated_def most_ever_dropped_def)
qed

section \<open>Putting a row back\<close>

definition hex_value :: "nat \<Rightarrow> nat" where
  "hex_value c = (if c < 58 then c - 48 else c - 87)"

fun unhex :: "str \<Rightarrow> nat list" where
  "unhex (a # b # s) = (16 * hex_value a + hex_value b) # unhex s"
| "unhex _ = []"

fun decoded :: "json \<Rightarrow> sql" where
  "decoded (JInt n) = SInt n"
| "decoded (JReal r) = SReal r"
| "decoded (JText t) = SText t"
| "decoded (JObject [(_, JText h)]) = SBlob (unhex h)"
| "decoded _ = SNull"

definition row_from :: "str list \<Rightarrow> (str \<times> json) list \<Rightarrow> sql_row" where
  "row_from cols fs = map (\<lambda>c. case map_of fs c of Some j \<Rightarrow> decoded j | None \<Rightarrow> SNull) cols"

definition storable :: "sql \<Rightarrow> bool" where
  "storable v = (case v of SReal r \<Rightarrow> finite_real r | SBlob bs \<Rightarrow> list_all (\<lambda>b. b < 256) bs | _ \<Rightarrow> True)"

lemma hex_value_digit: "d < 16 \<Longrightarrow> hex_value (hex_digit d) = d"
  by (simp add: hex_value_def hex_digit_def)

lemma unhex_hex: "list_all (\<lambda>b. b < 256) bs \<Longrightarrow> unhex (hex bs) = bs"
  by (induction bs) (simp_all add: hex_def hex_value_digit less_mult_imp_div_less)

lemma decoded_encoded: "storable v \<Longrightarrow> decoded (encoded v) = v"
  by (cases v) (simp_all add: encoded_def storable_def unhex_hex)

lemma whole_row_fold:
  "map_of (fold (\<lambda>(c, v) fields. AList.update c (encoded v) fields) (zip cols r) acc) x =
     (if distinct cols \<and> length r = length cols \<and> x \<in> set cols
      then map_option encoded (map_of (zip cols r) x)
      else map_of (fold (\<lambda>(c, v) fields. AList.update c (encoded v) fields) (zip cols r) acc) x)"
proof (induction cols r arbitrary: acc rule: list_induct2')
  case (4 c cols v r)
  have skip: "x \<notin> set cols \<Longrightarrow> map_of (fold (\<lambda>(c, v) fields. AList.update c (encoded v) fields) (zip cols r) acc) x = map_of acc x" for acc
    by (induction cols r arbitrary: acc rule: list_induct2') (auto simp: update_conv')
  from 4 [of "AList.update c (encoded v) acc"] skip [of "AList.update c (encoded v) acc"] show ?case
    by (auto simp: update_conv')
qed auto

text \<open>What is put aside can be put back: from the JSON of the quarantine every column of the row comes
  back as it was - text, numbers and blobs - except for a real number JSON has no word for.\<close>

theorem row_comes_back:
  assumes "distinct cols" and "length r = length cols" and "list_all storable r"
  shows "row_from cols (whole_row cols r) = r"
proof (rule nth_equalityI)
  fix n assume "n < length (row_from cols (whole_row cols r))"
  then have n: "n < length cols" by (simp add: row_from_def)
  have "map_of (zip cols r) (cols ! n) = Some (r ! n)"
    using assms n by (metis map_of_zip_nth)
  then have "map_of (whole_row cols r) (cols ! n) = Some (encoded (r ! n))"
    unfolding whole_row_def using whole_row_fold [of cols r "[]" "cols ! n"] assms n by simp
  moreover have "storable (r ! n)" using assms n by (simp add: list_all_length)
  ultimately show "row_from cols (whole_row cols r) ! n = r ! n"
    using n by (simp add: row_from_def decoded_encoded)
qed (simp add: row_from_def assms)

theorem row_comes_back_witness:
  "row_from [[1], [2], [3]] (whole_row [[1], [2], [3]] [SBlob [0, 171, 255], SInt (-4), SText [955]])
    = [SBlob [0, 171, 255], SInt (-4), SText [955]]"
  by (rule row_comes_back) (simp_all add: storable_def)

section \<open>The latch\<close>

lemma filter_gone: "length (filter P rs) = length bad \<Longrightarrow> bad \<noteq> [] \<Longrightarrow> filter (\<lambda>r. \<not> P r) rs \<noteq> rs"
  by (metis filter_False filter_id_conv length_0_conv)

lemma scrub_table_ok:
  assumes "scrub_table import decrypt decodes name spec key p q = (Inr out, t', q')"
  shows "kept out = dropped out \<and> (dropped out > 0 \<longrightarrow> rows t' \<noteq> rows (at_deletion p))"
proof (cases "dropped out > 0")
  case True
  then have "t' \<noteq> at_deletion p \<or> (\<exists>e. (Inr out :: str + outcome) = Inr e \<and> dropped e > 0)" by auto
  then show ?thesis by (rule scrub_table_Inr [OF assms(1)]) (auto dest: filter_gone)
next
  case False
  with assms scrub_write_cases show ?thesis
    by (fastforce simp: scrub_table_def no_outcome_def split: sum.splits)
qed

text \<open>The sync goes on after a repair only if something was really removed: where the repair clears the
  latch and starts the sync, one of the two tables has lost a row, and the report counts as many rows
  put aside as rows dropped.\<close>

theorem sync_restarts_only_after_removal:
  assumes "scrub import decrypt is_room is_session key (damage_scope damage) p1 p2 q = (res, t1, t2, q')"
    and "snd (repair res damage)"
  shows "(rows t1 \<noteq> rows (at_deletion p1) \<or> rows t2 \<noteq> rows (at_deletion p2))
    \<and> (\<exists>r. res = Inr r \<and> r_kept r = report_dropped r)"
  using assms
  by (auto simp: scrub_def repair_def report_dropped_def no_outcome_def
      split: sum.splits prod.splits if_splits dest!: scrub_table_ok)

theorem sync_restarts_only_after_removal_witness:
  "\<exists>r t1 t2 q'. scrub no_cipher (\<lambda>_ v. Some v) (\<lambda>v. v \<noteq> [0]) (\<lambda>_. True) (Some 5) (damage_scope (Some ScopeState))
      sample_pass sample_pass [] = (Inr r, t1, t2, q') \<and> r_kept r = report_dropped r"
proof -
  obtain res t1 t2 q' where s: "scrub no_cipher (\<lambda>_ v. Some v) (\<lambda>v. v \<noteq> [0]) (\<lambda>_. True) (Some 5)
      (damage_scope (Some ScopeState)) sample_pass sample_pass [] = (res, t1, t2, q')"
    using prod_cases4 by blast
  have "snd (repair (fst (scrub no_cipher (\<lambda>_ v. Some v) (\<lambda>v. v \<noteq> [0]) (\<lambda>_. True) (Some 5)
      (damage_scope (Some ScopeState)) sample_pass sample_pass [])) (Some ScopeState))"
    by code_simp
  then have "snd (repair res (Some ScopeState))" by (simp only: s fst_conv)
  from sync_restarts_only_after_removal [OF s this] s show ?thesis by auto
qed

end
