(* ===== verification/Push_Record.thy ===== *)
theory Push_Record
  imports Store_Health
begin

text \<open>
  \<open>src/core/src/push.rs\<close>: the gateway a user picks, the record of the pushers this installation set, and
  the two operations that change the pushers of an account on the homeserver.  The hash of the marks
  is a parameter (the program uses SHA-256); so are the answers of the homeserver and the file system.
\<close>

section \<open>Gateways\<close>

definition app_id :: str where
  "app_id = lit ''org.xmatic.xmatic''"

definition gateway_is_sound :: "str \<Rightarrow> bool" where
  "gateway_is_sound gateway \<longleftrightarrow>
     utf8_len (trim gateway) > 8 \<and> map ascii_lower (take 8 (trim gateway)) = lit ''https://''"

definition push_host :: "str \<Rightarrow> str" where
  "push_host url =
     (let rest = (case index_of (lit ''://'') url of None \<Rightarrow> url | Some n \<Rightarrow> drop (n + 3) url);
          authority = hd (split_on (\<lambda>c. c = 47 \<or> c = 63 \<or> c = 35) rest);
          authority = last (split_on (\<lambda>c. c = 64) authority)
      in hd (split_on (\<lambda>c. c = 58) authority))"

definition public_gateway :: str where
  "public_gateway = lit ''https://matrix.gateway.unifiedpush.org/_matrix/push/v1/notify''"

datatype gateway = Unset | Server | Public | Other str

definition gateway_parse :: "str \<Rightarrow> str \<Rightarrow> str + gateway" where
  "gateway_parse mode url =
     (if mode = [] then Inr Unset
      else if mode = lit ''server'' then Inr Server
      else if mode = lit ''public'' then Inr Public
      else if mode = lit ''other'' \<and> gateway_is_sound url then Inr (Other (trim url))
      else if mode = lit ''other'' then Inl (lit ''the push gateway has to be an https address'')
      else Inl (lit ''unknown gateway choice''))"

fun gateway_mode :: "gateway \<Rightarrow> str" where
  "gateway_mode Unset = []"
| "gateway_mode Server = lit ''server''"
| "gateway_mode Public = lit ''public''"
| "gateway_mode (Other _) = lit ''other''"

fun resolve :: "gateway \<Rightarrow> str option \<Rightarrow> str option" where
  "resolve Unset _ = None"
| "resolve Server discovered =
     (case discovered of None \<Rightarrow> None | Some g \<Rightarrow> if gateway_is_sound g then Some g else None)"
| "resolve Public _ = Some public_gateway"
| "resolve (Other url) _ = Some url"

record push_facts =
  has_pusher :: bool
  is_registered :: bool
  has_gateway :: bool
  has_endpoint :: bool
  distributors :: "nat option"

definition derive_state :: "push_facts \<Rightarrow> str" where
  "derive_state f =
     (if distributors f = Some 0 then lit ''no-distributor''
      else if has_pusher f then
        (if is_registered f then lit ''on'' else if \<not> has_gateway f then lit ''needs-gateway'' else lit ''registering'')
      else if has_endpoint f then lit ''registering'' else lit ''off'')"

section \<open>The record of this installation's pushers\<close>

text \<open>Marks are hashes of the salt, a byte that tells the three kinds of mark apart, and the value.\<close>

type_synonym sha = "str \<Rightarrow> str"

record owned =
  salt :: str
  accounts :: "(str \<times> str list) list"
  legacy :: "str list"
  account :: str

definition pushkey_kind :: nat where "pushkey_kind = 0"
definition account_kind :: nat where "account_kind = 1"
definition legacy_kind :: nat where "legacy_kind = 2"

definition digest :: "sha \<Rightarrow> owned \<Rightarrow> nat \<Rightarrow> str \<Rightarrow> str" where
  "digest sha w kind v = sha (salt w @ [kind] @ v)"

definition with_salt :: "sha \<Rightarrow> str \<Rightarrow> str \<Rightarrow> owned" where
  "with_salt sha s user =
     (let w = \<lparr>salt = s, accounts = [], legacy = [], account = []\<rparr> in w\<lparr>account := digest sha w account_kind user\<rparr>)"

definition fresh_salt :: "nat list \<Rightarrow> str" where
  "fresh_salt bytes = hex bytes"

text \<open>The file: missing, there but not a record, or a record.  The account is not stored.\<close>

datatype record_file = Missing | Garbled | Kept owned

fun parsed :: "record_file \<Rightarrow> owned option" where
  "parsed (Kept w) = (if salt w \<noteq> [] then Some w else None)"
| "parsed _ = None"

definition load_record :: "sha \<Rightarrow> record_file \<Rightarrow> str \<Rightarrow> str \<Rightarrow> owned" where
  "load_record sha f s user =
     (case parsed f of
        Some w \<Rightarrow> w\<lparr>account := digest sha w account_kind user\<rparr>
      | None \<Rightarrow> with_salt sha s user)"

definition keeps_nothing :: "owned \<Rightarrow> bool" where
  "keeps_nothing w \<longleftrightarrow> list_all (\<lambda>(_, ms). ms = []) (accounts w) \<and> legacy w = []"

definition save_record :: "bool \<Rightarrow> owned \<Rightarrow> record_file \<Rightarrow> record_file" where
  "save_record works w f =
     (if \<not> works then f
      else if keeps_nothing w then Missing
      else Kept (w\<lparr>accounts := filter (\<lambda>(_, ms). ms \<noteq> []) (accounts w), account := []\<rparr>))"

definition own_marks :: "owned \<Rightarrow> str list" where
  "own_marks w = (case map_of (accounts w) (account w) of None \<Rightarrow> [] | Some ms \<Rightarrow> ms)"

definition pushkey_mark :: "sha \<Rightarrow> owned \<Rightarrow> str \<Rightarrow> str" where
  "pushkey_mark sha w key = digest sha w pushkey_kind key"

definition holds_key :: "sha \<Rightarrow> owned \<Rightarrow> str \<Rightarrow> bool" where
  "holds_key sha w key \<longleftrightarrow> pushkey_mark sha w key \<in> set (own_marks w)"

definition is_empty :: "owned \<Rightarrow> bool" where
  "is_empty w \<longleftrightarrow> own_marks w = [] \<and> legacy w = []"

definition note_key :: "sha \<Rightarrow> str \<Rightarrow> owned \<Rightarrow> owned" where
  "note_key sha key w =
     (if holds_key sha w key then w
      else w\<lparr>accounts := AList.update (account w) (own_marks w @ [pushkey_mark sha w key]) (accounts w)\<rparr>)"

definition settle :: "sha \<Rightarrow> str list \<Rightarrow> str list \<Rightarrow> owned \<Rightarrow> owned" where
  "settle sha present removed w =
     (let keep = map (pushkey_mark sha w) (filter (\<lambda>k. k \<notin> set removed) present)
      in w\<lparr>accounts := AList.map_entry (account w) (filter (\<lambda>m. m \<in> set keep)) (accounts w)\<rparr>)"

definition note_legacy :: "sha \<Rightarrow> str \<Rightarrow> owned \<Rightarrow> owned" where
  "note_legacy sha auth w =
     (let m = digest sha w legacy_kind auth
      in if m \<in> set (legacy w) then w else w\<lparr>legacy := legacy w @ [m]\<rparr>)"

definition claim_legacy :: "sha \<Rightarrow> (str \<times> str option) list \<Rightarrow> owned \<Rightarrow> owned" where
  "claim_legacy sha server w =
     (if legacy w = [] then w
      else (let found = map fst (filter (\<lambda>(_, auth). case auth of None \<Rightarrow> False
                                   | Some a \<Rightarrow> digest sha w legacy_kind a \<in> set (legacy w)) server)
            in (fold (note_key sha) found w)\<lparr>legacy := []\<rparr>))"

definition to_remove :: "sha \<Rightarrow> str list \<Rightarrow> owned \<Rightarrow> str list \<Rightarrow> str option \<Rightarrow> str list" where
  "to_remove sha server w named keep =
     filter (\<lambda>k. holds_key sha w k \<or> k \<in> set named) (filter (\<lambda>k. Some k \<noteq> keep) server)"

section \<open>The homeserver\<close>

text \<open>A pusher of an account.  \<open>sp_ours\<close> is no part of the program: it tells the pushers that a request of
  this installation put there.\<close>

record server_pusher =
  sp_key :: str
  sp_url :: "str option"
  sp_auth :: "str option"
  sp_app :: str
  sp_ours :: bool

definition server_pushers :: "server_pusher list \<Rightarrow> server_pusher list" where
  "server_pushers srv = filter (\<lambda>p. sp_app p = app_id) srv"

text \<open>A request was answered, or not; one that was not, or was refused with a status, may still have been
  carried out.\<close>

datatype request_outcome = Done | Lost bool "nat option"

fun lands :: "request_outcome \<Rightarrow> bool" where
  "lands Done = True"
| "lands (Lost landed _) = landed"

definition refusing_status :: "nat \<Rightarrow> bool" where
  "refusing_status s \<longleftrightarrow> 400 \<le> s \<and> s < 500 \<and> \<not> (s = 401 \<or> s = 408 \<or> s = 429)"

record pusher_error =
  message :: str
  rejected :: bool

definition http_error :: "str \<Rightarrow> request_outcome \<Rightarrow> pusher_error" where
  "http_error context r =
     \<lparr>message = context, rejected = (case r of Lost _ (Some s) \<Rightarrow> refusing_status s | _ \<Rightarrow> False)\<rparr>"

definition post_pusher :: "str \<Rightarrow> str \<Rightarrow> server_pusher list \<Rightarrow> server_pusher list" where
  "post_pusher key url srv =
     filter (\<lambda>p. \<not> (sp_key p = key \<and> sp_app p = app_id)) srv
       @ [\<lparr>sp_key = key, sp_url = Some url, sp_auth = None, sp_app = app_id, sp_ours = True\<rparr>]"

definition drop_pusher :: "str \<Rightarrow> server_pusher list \<Rightarrow> server_pusher list" where
  "drop_pusher key srv = filter (\<lambda>p. \<not> (sp_key p = key \<and> sp_app p = app_id)) srv"

text \<open>What an operation meets: whether the session is still the same and the file can be written at each of
  its updates of the record, the bytes of a fresh salt, and the outcomes of its requests.\<close>

record push_env =
  e_live :: "nat \<Rightarrow> bool"
  e_saved :: "nat \<Rightarrow> bool"
  e_bytes :: "nat \<Rightarrow> nat list"
  e_list :: request_outcome
  e_parses :: bool
  e_set :: request_outcome
  e_live_at :: "str \<Rightarrow> bool"
  e_del :: "str \<Rightarrow> request_outcome"

definition update_owned :: "sha \<Rightarrow> push_env \<Rightarrow> nat \<Rightarrow> str \<Rightarrow> (owned \<Rightarrow> owned) \<Rightarrow> record_file \<Rightarrow> record_file" where
  "update_owned sha e i user change f =
     (if \<not> e_live e i then f
      else save_record (e_saved e i) (change (load_record sha f (fresh_salt (e_bytes e i)) user)) f)"

definition owns_any :: "sha \<Rightarrow> record_file \<Rightarrow> str \<Rightarrow> str \<Rightarrow> bool" where
  "owns_any sha f s user \<longleftrightarrow> \<not> is_empty (load_record sha f s user)"

definition owns :: "sha \<Rightarrow> record_file \<Rightarrow> str \<Rightarrow> str \<Rightarrow> str \<Rightarrow> bool" where
  "owns sha f s user key \<longleftrightarrow> holds_key sha (load_record sha f s user) key"

definition claim_pushers :: "sha \<Rightarrow> push_env \<Rightarrow> str \<Rightarrow> server_pusher list \<Rightarrow> record_file \<Rightarrow> record_file" where
  "claim_pushers sha e user ours f =
     (if legacy (load_record sha f (fresh_salt (e_bytes e 0)) user) = [] then f
      else update_owned sha e 0 user (claim_legacy sha (map (\<lambda>p. (sp_key p, sp_auth p)) ours)) f)"

text \<open>Deleting one after the other: the requests sent, what was removed, the server afterwards, the last
  failure.\<close>

fun delete_all :: "push_env \<Rightarrow> str list \<Rightarrow> server_pusher list
    \<Rightarrow> str list \<times> str list \<times> server_pusher list \<times> pusher_error option" where
  "delete_all e [] srv = ([], [], srv, None)"
| "delete_all e (k # ks) srv =
     (if \<not> e_live_at e k then ([], [], srv, None)
      else (let r = e_del e k;
                (asked, removed, srv', failure) = delete_all e ks (if lands r then drop_pusher k srv else srv)
            in (k # asked, (if r = Done then k # removed else removed), srv',
                case failure of Some later \<Rightarrow> Some later
                | None \<Rightarrow> if r = Done then None else Some (http_error (lit ''could not remove the pusher'') r))))"

section \<open>The operations\<close>

text \<open>Each answers with its result, the file, the server's list and the deletions it asked for.\<close>

definition noted :: "sha \<Rightarrow> str \<Rightarrow> str option \<Rightarrow> owned \<Rightarrow> owned" where
  "noted sha key replaces w =
     (let w = note_key sha key w in case replaces of None \<Rightarrow> w | Some old \<Rightarrow> note_key sha old w)"

definition register ::
  "sha \<Rightarrow> push_env \<Rightarrow> str \<Rightarrow> str \<Rightarrow> str option \<Rightarrow> str \<Rightarrow> record_file \<Rightarrow> server_pusher list
    \<Rightarrow> (pusher_error + unit) \<times> record_file \<times> server_pusher list \<times> str list" where
  "register sha e user key replaces gateway f srv =
     (if \<not> gateway_is_sound gateway \<or> \<not> gateway_is_sound key
      then (Inl \<lparr>message = lit ''the push gateway and address have to be https'', rejected = True\<rparr>, f, srv, [])
      else if e_list e \<noteq> Done then (Inl (http_error (lit ''could not read the pushers'') (e_list e)), f, srv, [])
      else
        (let ours = server_pushers srv;
             f = claim_pushers sha e user ours f;
             in_place = list_ex (\<lambda>p. sp_key p = key \<and> sp_url p = Some gateway) ours;
             f = update_owned sha e 1 user (noted sha key replaces) f;
             posted = (if in_place \<or> \<not> lands (e_set e) then srv else post_pusher key gateway srv)
         in if \<not> in_place \<and> \<not> e_parses e
            then (Inl \<lparr>message = lit ''Leghorn's pusher did not parse'', rejected = False\<rparr>, f, srv, [])
            else if \<not> in_place \<and> e_set e \<noteq> Done
            then (Inl (http_error (lit ''could not register the pusher'') (e_set e)), f, posted, [])
            else
              (let present = map sp_key ours @ [key];
                   owned = load_record sha f (fresh_salt (e_bytes e 2)) user;
                   (asked, removed, srv, _) = delete_all e (to_remove sha present owned [] (Some key)) posted
               in (Inr (), update_owned sha e 2 user (settle sha present removed) f, srv, asked))))"

definition clear_own_pushers ::
  "sha \<Rightarrow> push_env \<Rightarrow> str \<Rightarrow> str list \<Rightarrow> record_file \<Rightarrow> server_pusher list
    \<Rightarrow> (pusher_error + unit) \<times> record_file \<times> server_pusher list \<times> str list" where
  "clear_own_pushers sha e user named f srv =
     (let f = update_owned sha e 1 user (fold (note_key sha) named) f
      in if e_list e \<noteq> Done then (Inl (http_error (lit ''could not read the pushers'') (e_list e)), f, srv, [])
         else
           (let ours = server_pushers srv;
                f = claim_pushers sha e user ours f;
                present = map sp_key ours;
                owned = load_record sha f (fresh_salt (e_bytes e 2)) user;
                (asked, removed, srv, failure) = delete_all e (to_remove sha present owned [] None) srv
            in (case failure of None \<Rightarrow> Inr () | Some err \<Rightarrow> Inl err,
                update_owned sha e 2 user (settle sha present removed) f, srv, asked)))"

definition note_legacy_pushers :: "sha \<Rightarrow> push_env \<Rightarrow> str list \<Rightarrow> record_file \<Rightarrow> record_file" where
  "note_legacy_pushers sha e auths f =
     (if auths = [] then f else update_owned sha (e\<lparr>e_live := \<lambda>_. True\<rparr>) 1 [] (fold (note_legacy sha) auths) f)"

end
