(* ===== verification/Push_Safety.thy ===== *)
theory Push_Safety
  imports Push_Record
begin

text \<open>
  What the record of pushers is worth: whatever happens to it and to the homeserver, this installation
  asks only for the deletion of its own pushers, and as long as it could write its record before it set a
  pusher, it knows every one it ever set.
\<close>

section \<open>Marks\<close>

definition marks :: "owned \<Rightarrow> str \<Rightarrow> str list" where
  "marks w a = (case map_of (accounts w) a of None \<Rightarrow> [] | Some ms \<Rightarrow> ms)"

definition sound_record :: "owned \<Rightarrow> bool" where
  "sound_record w \<longleftrightarrow> distinct (map fst (accounts w))"

lemma own_marks_eq: "own_marks w = marks w (account w)"
  by (simp add: own_marks_def marks_def)

lemma holds_key_marks: "holds_key sha w k \<longleftrightarrow> pushkey_mark sha w k \<in> set (marks w (account w))"
  by (simp add: holds_key_def own_marks_eq)

lemma note_key_frame [simp]:
  "salt (note_key sha k w) = salt w" "legacy (note_key sha k w) = legacy w" "account (note_key sha k w) = account w"
  by (simp_all add: note_key_def)

lemma digest_salt: "salt v = salt w \<Longrightarrow> digest sha v kind x = digest sha w kind x"
  by (simp add: digest_def)

lemma pushkey_mark_salt: "salt v = salt w \<Longrightarrow> pushkey_mark sha v x = pushkey_mark sha w x"
  by (simp add: pushkey_mark_def digest_def)

lemma marks_note_key:
  "set (marks (note_key sha k w) a) = set (marks w a) \<union> (if a = account w then {pushkey_mark sha w k} else {})"
  by (auto simp: note_key_def holds_key_def own_marks_def marks_def update_conv' split: option.splits)

lemma marks_settle:
  "set (marks (settle sha present removed w) a) =
     (if a = account w then set (marks w a) \<inter> pushkey_mark sha w ` (set present - set removed) else set (marks w a))"
  by (auto simp: settle_def Let_def marks_def AList.map_of_map_entry split: option.splits)

lemma settle_frame [simp]:
  "salt (settle sha p r w) = salt w" "legacy (settle sha p r w) = legacy w" "account (settle sha p r w) = account w"
  by (simp_all add: settle_def Let_def)

lemma sound_changes [simp]:
  "sound_record w \<Longrightarrow> sound_record (note_key sha k w)" "sound_record w \<Longrightarrow> sound_record (settle sha p r w)"
  by (auto simp: sound_record_def note_key_def settle_def Let_def distinct_update AList.distinct_map_entry)

lemma note_keys_frame [simp]:
  "salt (fold (note_key sha) ks w) = salt w" "legacy (fold (note_key sha) ks w) = legacy w"
  "account (fold (note_key sha) ks w) = account w" "sound_record w \<Longrightarrow> sound_record (fold (note_key sha) ks w)"
  by (induction ks arbitrary: w) simp_all

lemma marks_note_keys:
  "set (marks (fold (note_key sha) ks w) a) = set (marks w a) \<union> (if a = account w then pushkey_mark sha w ` set ks else {})"
proof (induction ks arbitrary: w)
  case (Cons k ks)
  then show ?case using pushkey_mark_salt [of "note_key sha k w" w sha] by (auto simp: marks_note_key)
qed simp

definition to_note :: "str \<Rightarrow> str option \<Rightarrow> str list" where
  "to_note key replaces = key # (case replaces of None \<Rightarrow> [] | Some old \<Rightarrow> [old])"

lemma noted_fold: "noted sha key replaces = fold (note_key sha) (to_note key replaces)"
  by (auto simp: noted_def to_note_def fun_eq_iff split: option.split)

definition claimable :: "sha \<Rightarrow> (str \<times> str option) list \<Rightarrow> owned \<Rightarrow> str set" where
  "claimable sha server w = {k. \<exists>a. (k, Some a) \<in> set server \<and> digest sha w legacy_kind a \<in> set (legacy w)}"

lemma claim_frame:
  assumes "sound_record w"
  shows "salt (claim_legacy sha server w) = salt w" and "legacy (claim_legacy sha server w) = []"
    and "account (claim_legacy sha server w) = account w" and "sound_record (claim_legacy sha server w)"
    and "set (marks (claim_legacy sha server w) a)
      = set (marks w a) \<union> (if a = account w then pushkey_mark sha w ` claimable sha server w else {})"
proof -
  define found where "found = map fst (filter (\<lambda>(_, auth). case auth of None \<Rightarrow> False
                                   | Some a \<Rightarrow> digest sha w legacy_kind a \<in> set (legacy w)) server)"
  have found: "set found = claimable sha server w"
    by (force simp: found_def claimable_def split: option.splits)
  have c: "claim_legacy sha server w = (if legacy w = [] then w else (fold (note_key sha) found w)\<lparr>legacy := []\<rparr>)"
    by (simp add: claim_legacy_def found_def Let_def)
  have m: "marks (v\<lparr>legacy := l\<rparr>) a = marks v a" "sound_record (v\<lparr>legacy := l\<rparr>) = sound_record v" for v l a
    by (simp_all add: marks_def sound_record_def)
  show "salt (claim_legacy sha server w) = salt w" "legacy (claim_legacy sha server w) = []"
    "account (claim_legacy sha server w) = account w" "sound_record (claim_legacy sha server w)"
    using assms by (simp_all add: c m)
  have "legacy w = [] \<Longrightarrow> claimable sha server w = {}" by (simp add: claimable_def)
  then show "set (marks (claim_legacy sha server w) a)
      = set (marks w a) \<union> (if a = account w then pushkey_mark sha w ` claimable sha server w else {})"
    using marks_note_keys [of sha found w a] found by (auto simp: c m)
qed

lemma note_legacy_frame [simp]:
  "salt (note_legacy sha a w) = salt w" "account (note_legacy sha a w) = account w"
  "sound_record (note_legacy sha a w) = sound_record w" "marks (note_legacy sha a w) x = marks w x"
  "set (legacy (note_legacy sha a w)) = insert (digest sha w legacy_kind a) (set (legacy w))"
  by (auto simp: note_legacy_def Let_def sound_record_def marks_def)

section \<open>The file\<close>

definition in_file :: "(owned \<Rightarrow> bool) \<Rightarrow> record_file \<Rightarrow> bool" where
  "in_file P f \<longleftrightarrow> (\<forall>w. f = Kept w \<longrightarrow> sound_record w \<and> P w)"

lemma marks_filter:
  assumes "sound_record w"
  shows "marks (w\<lparr>accounts := filter (\<lambda>(_, ms). ms \<noteq> []) (accounts w), account := x\<rparr>) a = marks w a"
proof -
  have "distinct (map fst al) \<Longrightarrow>
      (case map_of (filter (\<lambda>(_, ms). ms \<noteq> []) al) a of None \<Rightarrow> [] | Some ms \<Rightarrow> ms)
      = (case map_of al a of None \<Rightarrow> [] | Some ms \<Rightarrow> ms)" for al :: "(str \<times> str list) list"
  proof (induction al)
    case (Cons p al)
    moreover have "map_of (filter (\<lambda>(_, ms). ms \<noteq> []) al) a = None" if "a \<notin> fst ` set al"
      using that by (auto simp: map_of_eq_None_iff)
    ultimately show ?case by (cases p) (auto split: option.split)
  qed simp
  then show ?thesis using assms by (simp add: marks_def sound_record_def)
qed

lemma sound_filter: "sound_record w \<Longrightarrow> sound_record (w\<lparr>accounts := filter P (accounts w), account := x\<rparr>)"
  by (simp add: sound_record_def distinct_map_filter)

lemma load_record:
  assumes "in_file P f"
  shows "sound_record (load_record sha f s user)"
    and "account (load_record sha f s user) = digest sha (load_record sha f s user) account_kind user"
    and "(\<exists>w. f = Kept w \<and> P w \<and> load_record sha f s user = w\<lparr>account := account (load_record sha f s user)\<rparr>)
      \<or> load_record sha f s user = with_salt sha s user"
  using assms
  by (cases f; auto simp: load_record_def with_salt_def sound_record_def in_file_def digest_def)+

text \<open>A condition on records that a fresh one meets and that the account they are read for does not touch holds
  of the file whatever is done, if each change keeps it.\<close>

locale kept_record =
  fixes sha :: sha and P :: "owned \<Rightarrow> bool"
  assumes fresh: "P (with_salt sha s user)"
    and same: "salt v = salt w \<Longrightarrow> legacy v = legacy w \<Longrightarrow> (\<And>a. marks v a = marks w a) \<Longrightarrow> P w \<Longrightarrow> P v"
begin

lemma loaded:
  assumes "in_file P f"
  shows "P (load_record sha f s user)"
  using load_record(3) [OF assms, of sha s user]
proof (elim disjE exE conjE)
  fix w
  assume w: "P w" and e: "load_record sha f s user = w\<lparr>account := account (load_record sha f s user)\<rparr>"
  have "P (w\<lparr>account := x\<rparr>)" for x by (rule same [OF _ _ _ w]) (simp_all add: marks_def)
  then show ?thesis using e by metis
qed (simp add: fresh)

lemma saved:
  assumes "sound_record w" and "P w" and "in_file P f"
  shows "in_file P (save_record works w f)"
  using assms marks_filter [OF assms(1)] sound_filter [OF assms(1)]
  by (auto simp: save_record_def in_file_def intro: same)

lemma updated:
  assumes "in_file P f"
    and "\<And>w. sound_record w \<Longrightarrow> P w \<Longrightarrow> account w = digest sha w account_kind user \<Longrightarrow> sound_record (change w) \<and> P (change w)"
  shows "in_file P (update_owned sha e i user change f)"
  using assms(2) [OF load_record(1) [OF assms(1)] loaded [OF assms(1)] load_record(2) [OF assms(1)]] assms(1) saved
  by (simp add: update_owned_def)

lemma updated_change:
  assumes "in_file P f"
    and "\<And>w. sound_record w \<Longrightarrow> sound_record (change w)"
    and "\<And>w. sound_record w \<Longrightarrow> P w \<Longrightarrow> account w = digest sha w account_kind user \<Longrightarrow> P (change w)"
  shows "in_file P (update_owned sha e i user change f)"
  using assms by (intro updated) auto

lemma claimed:
  assumes "in_file P f"
    and "\<And>w. sound_record w \<Longrightarrow> P w \<Longrightarrow> account w = digest sha w account_kind user
      \<Longrightarrow> P (claim_legacy sha (map (\<lambda>p. (sp_key p, sp_auth p)) ours) w)"
  shows "in_file P (claim_pushers sha e user ours f)"
  using assms by (auto simp: claim_pushers_def intro!: updated_change claim_frame(4))

end

section \<open>The operations in parts\<close>

definition register_file :: "sha \<Rightarrow> push_env \<Rightarrow> str \<Rightarrow> str \<Rightarrow> str option \<Rightarrow> record_file \<Rightarrow> server_pusher list \<Rightarrow> record_file" where
  "register_file sha e user key replaces f srv =
     update_owned sha e 1 user (noted sha key replaces) (claim_pushers sha e user (server_pushers srv) f)"

definition posted :: "push_env \<Rightarrow> str \<Rightarrow> str \<Rightarrow> server_pusher list \<Rightarrow> server_pusher list" where
  "posted e key gateway srv =
     (if list_ex (\<lambda>p. sp_key p = key \<and> sp_url p = Some gateway) (server_pushers srv) \<or> \<not> lands (e_set e) then srv
      else post_pusher key gateway srv)"

lemma register_cases:
  assumes "register sha e user key replaces gateway f srv = (res, f', srv', asked)"
  obtains (refused) "res \<noteq> Inr ()" "asked = []" "f' = f" "srv' = srv"
  | (failed) "res \<noteq> Inr ()" "asked = []" "f' = register_file sha e user key replaces f srv"
      "srv' = srv \<or> srv' = posted e key gateway srv"
  | (made) removed failure where "res = Inr ()"
      "delete_all e (to_remove sha (map sp_key (server_pushers srv) @ [key])
         (load_record sha (register_file sha e user key replaces f srv) (fresh_salt (e_bytes e 2)) user) [] (Some key))
         (posted e key gateway srv) = (asked, removed, srv', failure)"
      "f' = update_owned sha e 2 user (settle sha (map sp_key (server_pushers srv) @ [key]) removed)
         (register_file sha e user key replaces f srv)"
      "list_ex (\<lambda>p. sp_key p = key \<and> sp_url p = Some gateway) (server_pushers srv) \<or> lands (e_set e)"
proof -
  define in_place where "in_place \<longleftrightarrow> list_ex (\<lambda>p. sp_key p = key \<and> sp_url p = Some gateway) (server_pushers srv)"
  define f2 where "f2 = register_file sha e user key replaces f srv"
  define present where "present = map sp_key (server_pushers srv) @ [key]"
  obtain a r s fl where d: "delete_all e (to_remove sha present (load_record sha f2 (fresh_salt (e_bytes e 2)) user) [] (Some key))
      (posted e key gateway srv) = (a, r, s, fl)" by (metis prod_cases4)
  have eq: "register sha e user key replaces gateway f srv =
      (if \<not> gateway_is_sound gateway \<or> \<not> gateway_is_sound key
       then (Inl \<lparr>message = lit ''the push gateway and address have to be https'', rejected = True\<rparr>, f, srv, [])
       else if e_list e \<noteq> Done then (Inl (http_error (lit ''could not read the pushers'') (e_list e)), f, srv, [])
       else if \<not> in_place \<and> \<not> e_parses e
       then (Inl \<lparr>message = lit ''Leghorn's pusher did not parse'', rejected = False\<rparr>, f2, srv, [])
       else if \<not> in_place \<and> e_set e \<noteq> Done
       then (Inl (http_error (lit ''could not register the pusher'') (e_set e)), f2, posted e key gateway srv, [])
       else (Inr (), update_owned sha e 2 user (settle sha present r) f2, s, a))"
    using d unfolding register_def Let_def in_place_def f2_def present_def register_file_def posted_def
    by (simp only: prod.case)
  consider (a) "\<not> gateway_is_sound gateway \<or> \<not> gateway_is_sound key \<or> e_list e \<noteq> Done"
    | (b) "gateway_is_sound gateway" "gateway_is_sound key" "e_list e = Done" "\<not> in_place" "\<not> e_parses e \<or> e_set e \<noteq> Done"
    | (c) "gateway_is_sound gateway" "gateway_is_sound key" "e_list e = Done" "in_place \<or> e_parses e \<and> e_set e = Done" by blast
  then show thesis
  proof cases
    case a
    with assms eq show thesis by (intro refused) (auto split: if_splits)
  next
    case b
    with assms eq show thesis unfolding f2_def by (intro failed) (auto split: if_splits)
  next
    case c
    with assms eq d show thesis unfolding f2_def present_def in_place_def by (intro made) (auto split: if_splits)
  qed
qed

definition clear_file :: "sha \<Rightarrow> push_env \<Rightarrow> str \<Rightarrow> str list \<Rightarrow> record_file \<Rightarrow> server_pusher list \<Rightarrow> record_file" where
  "clear_file sha e user named f srv =
     claim_pushers sha e user (server_pushers srv) (update_owned sha e 1 user (fold (note_key sha) named) f)"

lemma clear_cases:
  assumes "clear_own_pushers sha e user named f srv = (res, f', srv', asked)"
  obtains (failed) "res \<noteq> Inr ()" "asked = []" "f' = update_owned sha e 1 user (fold (note_key sha) named) f" "srv' = srv"
  | (made) removed failure where "res = Inr () \<longleftrightarrow> failure = None"
      "delete_all e (to_remove sha (map sp_key (server_pushers srv))
         (load_record sha (clear_file sha e user named f srv) (fresh_salt (e_bytes e 2)) user) [] None) srv
         = (asked, removed, srv', failure)"
      "f' = update_owned sha e 2 user (settle sha (map sp_key (server_pushers srv)) removed)
         (clear_file sha e user named f srv)"
proof -
  define f2 where "f2 = clear_file sha e user named f srv"
  define present where "present = map sp_key (server_pushers srv)"
  obtain a r s fl where d: "delete_all e (to_remove sha present (load_record sha f2 (fresh_salt (e_bytes e 2)) user) [] None)
      srv = (a, r, s, fl)" by (metis prod_cases4)
  have eq: "clear_own_pushers sha e user named f srv =
      (if e_list e \<noteq> Done then (Inl (http_error (lit ''could not read the pushers'') (e_list e)),
          update_owned sha e 1 user (fold (note_key sha) named) f, srv, [])
       else ((case fl of None \<Rightarrow> Inr () | Some err \<Rightarrow> Inl err), update_owned sha e 2 user (settle sha present r) f2, s, a))"
    using d unfolding clear_own_pushers_def Let_def f2_def present_def clear_file_def
    by (simp only: prod.case)
  show thesis
  proof (cases "e_list e = Done")
    case True
    with assms eq d show thesis unfolding f2_def present_def by (intro made [of fl r]) (auto split: option.splits)
  next
    case False
    with assms eq show thesis by (intro failed) (auto split: if_splits)
  qed
qed

lemma delete_all:
  "delete_all e ks srv = (asked, removed, srv', failure) \<Longrightarrow>
    set asked \<subseteq> set ks \<and> set srv' \<subseteq> set srv \<and> set removed \<subseteq> set ks
    \<and> (\<forall>p\<in>set srv'. sp_app p = app_id \<longrightarrow> sp_key p \<notin> set removed)
    \<and> (\<forall>p\<in>set srv. sp_key p \<notin> set ks \<longrightarrow> p \<in> set srv')
    \<and> (failure = None \<longrightarrow> (\<forall>k\<in>set ks. e_live_at e k) \<longrightarrow> set removed = set ks)
    \<and> ((\<forall>k\<in>set ks. e_live_at e k \<and> e_del e k = Done) \<longrightarrow> failure = None)"
proof (induction ks arbitrary: asked removed srv srv' failure)
  case (Cons k ks)
  show ?case
  proof (cases "e_live_at e k")
    case True
    define srv1 where "srv1 = (if lands (e_del e k) then drop_pusher k srv else srv)"
    obtain a r s fl where d: "delete_all e ks srv1 = (a, r, s, fl)" by (metis prod_cases4)
    have srv1: "set srv1 \<subseteq> set srv" "\<forall>p\<in>set srv. sp_key p \<noteq> k \<longrightarrow> p \<in> set srv1"
      "e_del e k = Done \<longrightarrow> (\<forall>p\<in>set srv1. sp_app p = app_id \<longrightarrow> sp_key p \<noteq> k)"
      by (auto simp: srv1_def drop_pusher_def)
    from Cons.prems True d have eq: "asked = k # a" "removed = (if e_del e k = Done then k # r else r)" "srv' = s"
      "failure = (case fl of Some later \<Rightarrow> Some later
         | None \<Rightarrow> if e_del e k = Done then None else Some (http_error (lit ''could not remove the pusher'') (e_del e k)))"
      by (auto simp: srv1_def Let_def)
    show ?thesis unfolding eq using Cons.IH [OF d] srv1 by (auto split: option.splits)
  qed (use Cons.prems in auto)
qed auto

end
