(* ===== verification/Push_Promises.thy ===== *)
theory Push_Promises
  imports Push_Safety
begin

text \<open>
  The life of the record: registrations, clearings and sign-ins of several accounts in any order, with
  any outcome, while other devices change the pushers on the homeserver too.
\<close>

section \<open>Runs\<close>

datatype push_event =
    Register str str "str option" str push_env
  | Clear str "str list" push_env
  | Note_Legacy "str list" push_env
  | Server_Gains str server_pusher
  | Server_Drops str str

record push_world =
  w_file :: record_file
  w_server :: "str \<Rightarrow> server_pusher list"

text \<open>The state after an event, and the deletions asked for, with the account they are asked for.\<close>

fun push_step :: "sha \<Rightarrow> push_event \<Rightarrow> push_world \<Rightarrow> push_world \<times> (str \<times> str) list" where
  "push_step sha (Register user key replaces gateway e) w =
     (let (_, f, srv, asked) = register sha e user key replaces gateway (w_file w) (w_server w user)
      in (\<lparr>w_file = f, w_server = (w_server w)(user := srv)\<rparr>, map (Pair user) asked))"
| "push_step sha (Clear user named e) w =
     (let (_, f, srv, asked) = clear_own_pushers sha e user named (w_file w) (w_server w user)
      in (\<lparr>w_file = f, w_server = (w_server w)(user := srv)\<rparr>, map (Pair user) asked))"
| "push_step sha (Note_Legacy auths e) w = (w\<lparr>w_file := note_legacy_pushers sha e auths (w_file w)\<rparr>, [])"
| "push_step sha (Server_Gains user p) w =
     (w\<lparr>w_server := (w_server w)(user := p\<lparr>sp_ours := False\<rparr>
        # filter (\<lambda>q. \<not> (sp_key q = sp_key p \<and> sp_app q = sp_app p)) (w_server w user))\<rparr>, [])"
| "push_step sha (Server_Drops user key) w =
     (w\<lparr>w_server := (w_server w)(user := filter (\<lambda>q. sp_key q \<noteq> key) (w_server w user))\<rparr>, [])"

text \<open>What an event makes this installation's own: the addresses it registers or names, and the pushers on
  the server that carry a secret the old version of the program left.\<close>

definition claims :: "str set \<Rightarrow> str \<Rightarrow> server_pusher list \<Rightarrow> (str \<times> str) set" where
  "claims A user srv = {(user, sp_key p) |p. p \<in> set srv \<and> (\<exists>a\<in>A. sp_auth p = Some a)}"

fun rights :: "str set \<Rightarrow> push_event \<Rightarrow> push_world \<Rightarrow> (str \<times> str) set" where
  "rights A (Register user key replaces gateway e) w =
     Pair user ` set (to_note key replaces) \<union> claims A user (w_server w user)"
| "rights A (Clear user named e) w = Pair user ` set named \<union> claims A user (w_server w user)"
| "rights A _ w = {}"

fun secrets :: "push_event \<Rightarrow> str set" where
  "secrets (Note_Legacy auths e) = set auths"
| "secrets _ = {}"

text \<open>Reachable states whose events meet a condition, with what is the installation's own by then.\<close>

inductive push_run :: "(push_event \<Rightarrow> bool) \<Rightarrow> sha \<Rightarrow> push_world \<Rightarrow> (str \<times> str) set \<Rightarrow> str set \<Rightarrow> bool" for ok sha where
  push_start: "(\<And>u p. p \<in> set (w_server w u) \<Longrightarrow> \<not> sp_ours p) \<Longrightarrow> w_file w = Missing \<Longrightarrow> push_run ok sha w {} {}"
| push_next: "push_run ok sha w R A \<Longrightarrow> ok ev
    \<Longrightarrow> push_run ok sha (fst (push_step sha ev w)) (R \<union> rights A ev w) (A \<union> secrets ev)"

text \<open>A registration that cannot note its address first - the session is over by then, the file cannot be
  written, or no random bytes are to be had - leaves the address it sets out of the record.\<close>

fun careful :: "push_event \<Rightarrow> bool" where
  "careful (Register user key replaces gateway e) \<longleftrightarrow> e_live e 1 \<and> e_saved e 1 \<and> e_bytes e 1 \<noteq> []"
| "careful _ \<longleftrightarrow> True"

fun unnoted :: "push_event \<Rightarrow> (str \<times> str) set" where
  "unnoted (Register user key replaces gateway e) = (if careful (Register user key replaces gateway e) then {} else {(user, key)})"
| "unnoted _ = {}"

section \<open>Only its own\<close>

definition rightful :: "sha \<Rightarrow> (str \<times> str) set \<Rightarrow> str set \<Rightarrow> owned \<Rightarrow> bool" where
  "rightful sha R A w \<longleftrightarrow>
     (\<forall>a. \<forall>m\<in>set (marks w a). \<exists>u k. a = digest sha w account_kind u \<and> m = pushkey_mark sha w k \<and> (u, k) \<in> R)
     \<and> (\<forall>m\<in>set (legacy w). \<exists>b\<in>A. m = digest sha w legacy_kind b)"

lemma rightful_mono: "rightful sha R A w \<Longrightarrow> R \<subseteq> R' \<Longrightarrow> A \<subseteq> A' \<Longrightarrow> rightful sha R' A' w"
  unfolding rightful_def by blast

interpretation rightful: kept_record sha "rightful sha R A" for sha R A
proof
  show "rightful sha R A (with_salt sha s user)" for s user
    by (simp add: rightful_def with_salt_def marks_def Let_def)
next
  fix v w :: owned
  assume "salt v = salt w" "legacy v = legacy w" "\<And>a. marks v a = marks w a" "rightful sha R A w"
  then show "rightful sha R A v"
    using digest_salt [of v w sha] pushkey_mark_salt [of v w sha] by (simp add: rightful_def)
qed

definition collision_free :: "sha \<Rightarrow> bool" where
  "collision_free sha \<longleftrightarrow> inj sha"

lemma digest_inj: "collision_free sha \<Longrightarrow> digest sha w kind x = digest sha w kind' y \<longleftrightarrow> kind = kind' \<and> x = y"
  by (auto simp: collision_free_def digest_def dest: injD)

lemma rightful_noted:
  assumes "rightful sha R A w" and "account w = digest sha w account_kind user" and "Pair user ` set ks \<subseteq> R"
  shows "rightful sha R A (fold (note_key sha) ks w)"
  using assms digest_salt [of "fold (note_key sha) ks w" w sha] pushkey_mark_salt [of "fold (note_key sha) ks w" w sha]
  unfolding rightful_def marks_note_keys by (auto split: if_splits)

lemma rightful_settled:
  assumes "rightful sha R A w"
  shows "rightful sha R A (settle sha present removed w)"
  using assms digest_salt [of "settle sha present removed w" w sha] pushkey_mark_salt [of "settle sha present removed w" w sha]
  unfolding rightful_def marks_settle by (auto split: if_splits)

lemma pair_in_map: "(x, y) \<in> set (map (\<lambda>p. (f p, g p)) ps) \<Longrightarrow> \<exists>p\<in>set ps. x = f p \<and> g p = y"
  by auto

lemma rightful_claimed:
  assumes "rightful sha R A w" and "sound_record w" and "account w = digest sha w account_kind user"
    and "collision_free sha" and "claims A user srv \<subseteq> R"
  shows "rightful sha R A (claim_legacy sha (map (\<lambda>p. (sp_key p, sp_auth p)) (server_pushers srv)) w)"
proof -
  let ?pairs = "map (\<lambda>p. (sp_key p, sp_auth p)) (server_pushers srv)"
  note c = claim_frame [OF assms(2), of sha ?pairs]
  have "(user, k) \<in> R" if "k \<in> claimable sha ?pairs w" for k
  proof -
    from that obtain a where a: "(k, Some a) \<in> set ?pairs" "digest sha w legacy_kind a \<in> set (legacy w)"
      unfolding claimable_def by blast
    obtain p where p: "p \<in> set srv" "k = sp_key p" "sp_auth p = Some a"
      using pair_in_map [OF a(1)] unfolding server_pushers_def by auto
    from assms(1) have "\<forall>m\<in>set (legacy w). \<exists>b\<in>A. m = digest sha w legacy_kind b" by (simp add: rightful_def)
    from bspec [OF this a(2)] obtain b where "b \<in> A" "digest sha w legacy_kind a = digest sha w legacy_kind b" by blast
    then have "a \<in> A" by (simp add: digest_inj [OF assms(4)])
    with p assms(5) show ?thesis unfolding claims_def by blast
  qed
  then show ?thesis
    using assms(1,3) digest_salt [OF c(1)] pushkey_mark_salt [OF c(1)] unfolding rightful_def c(2,5)
    by (auto split: if_splits)
qed

lemma rightful_legacy_noted:
  "rightful sha R A w \<Longrightarrow> set auths \<subseteq> A \<Longrightarrow> rightful sha R A (fold (note_legacy sha) auths w)"
proof (induction auths arbitrary: w)
  case (Cons a auths)
  have "rightful sha R A (note_legacy sha a w)"
    using Cons.prems digest_salt [of "note_legacy sha a w" w sha] pushkey_mark_salt [of "note_legacy sha a w" w sha]
    unfolding rightful_def by auto
  with Cons show ?case by simp
qed simp

lemma sound_legacy_noted: "sound_record w \<Longrightarrow> sound_record (fold (note_legacy sha) auths w)"
  by (induction auths arbitrary: w) simp_all

lemma rightful_register_file:
  assumes "in_file (rightful sha R A) f" and "collision_free sha"
    and "Pair user ` set (to_note key replaces) \<union> claims A user srv \<subseteq> R"
  shows "in_file (rightful sha R A) (register_file sha e user key replaces f srv)"
  unfolding register_file_def noted_fold using assms
  by (intro rightful.updated_change rightful.claimed rightful_noted rightful_claimed) auto

lemma rightful_clear_file:
  assumes "in_file (rightful sha R A) f" and "collision_free sha"
    and "Pair user ` set named \<union> claims A user srv \<subseteq> R"
  shows "in_file (rightful sha R A) (clear_file sha e user named f srv)"
  unfolding clear_file_def using assms
  by (intro rightful.updated_change rightful.claimed rightful_noted rightful_claimed) auto

lemma rightful_settle_file:
  "in_file (rightful sha R A) f \<Longrightarrow> in_file (rightful sha R A) (update_owned sha e i user (settle sha present removed) f)"
  by (intro rightful.updated_change rightful_settled) auto

lemma rightful_step:
  assumes "in_file (rightful sha R A) (w_file w)" and "collision_free sha"
  shows "in_file (rightful sha (R \<union> rights A ev w) (A \<union> secrets ev)) (w_file (fst (push_step sha ev w)))"
proof -
  have old: "in_file (rightful sha (R \<union> rights A ev w) (A \<union> secrets ev)) (w_file w)"
    using assms(1) rightful_mono [of sha R A] unfolding in_file_def by blast
  show ?thesis
  proof (cases ev)
    case (Register user key replaces gateway e)
    obtain res f srv asked where r: "register sha e user key replaces gateway (w_file w) (w_server w user) = (res, f, srv, asked)"
      by (metis prod_cases4)
    have "in_file (rightful sha (R \<union> rights A ev w) A) (register_file sha e user key replaces (w_file w) (w_server w user))"
      by (rule rightful_register_file) (use old assms Register in auto)
    with r Register old show ?thesis
      by (cases rule: register_cases [OF r]) (auto intro: rightful_settle_file)
  next
    case (Clear user named e)
    obtain res f srv asked where r: "clear_own_pushers sha e user named (w_file w) (w_server w user) = (res, f, srv, asked)"
      by (metis prod_cases4)
    have "in_file (rightful sha (R \<union> rights A ev w) A) (clear_file sha e user named (w_file w) (w_server w user))"
      by (rule rightful_clear_file) (use old assms Clear in auto)
    moreover have "in_file (rightful sha (R \<union> rights A ev w) A) (update_owned sha e 1 user (fold (note_key sha) named) (w_file w))"
      by (rule rightful.updated_change) (use old Clear in \<open>auto intro!: rightful_noted\<close>)
    ultimately show ?thesis using r Clear
      by (cases rule: clear_cases [OF r]) (auto intro: rightful_settle_file)
  next
    case (Note_Legacy auths e)
    with old show ?thesis
      by (auto simp: note_legacy_pushers_def intro!: rightful.updated_change rightful_legacy_noted sound_legacy_noted)
  qed (use old in auto)
qed

lemma run_rightful: "push_run ok sha w R A \<Longrightarrow> collision_free sha \<Longrightarrow> in_file (rightful sha R A) (w_file w)"
  by (induction rule: push_run.induct) (auto simp: in_file_def [of _ Missing] intro: rightful_step)

lemma held_rightful:
  assumes "in_file (rightful sha R A) f" and "collision_free sha" and "holds_key sha (load_record sha f s user) k"
  shows "(user, k) \<in> R"
proof -
  let ?w = "load_record sha f s user"
  have "rightful sha R A ?w" by (rule rightful.loaded [OF assms(1)])
  with assms(3) obtain u k' where u: "account ?w = digest sha ?w account_kind u" "pushkey_mark sha ?w k = pushkey_mark sha ?w k'" "(u, k') \<in> R"
    unfolding rightful_def holds_key_marks by blast
  with load_record(2) [OF assms(1), of sha s user] digest_inj [OF assms(2)] show ?thesis
    unfolding pushkey_mark_def by metis
qed

section \<open>An example\<close>

definition calm :: push_env where
  "calm = \<lparr>e_live = \<lambda>_. True, e_saved = \<lambda>_. True, e_bytes = \<lambda>i. [i + 1], e_list = Done, e_parses = True, e_set = Done,
     e_live_at = \<lambda>_. True, e_del = \<lambda>_. Done\<rparr>"

definition ann :: str where "ann = lit ''@ann:x.org''"
definition some_gateway :: str where "some_gateway = lit ''https://g.example/n''"
definition first_key :: str where "first_key = lit ''https://p.example/1''"
definition second_key :: str where "second_key = lit ''https://p.example/2''"

definition other_device :: server_pusher where
  "other_device = \<lparr>sp_key = lit ''https://p.example/other'', sp_url = None, sp_auth = None, sp_app = app_id, sp_ours = False\<rparr>"

definition before_all :: push_world where
  "before_all = \<lparr>w_file = Missing, w_server = \<lambda>_. [other_device]\<rparr>"

definition first_event :: push_event where
  "first_event = Register ann first_key None some_gateway calm"

definition one_set :: push_world where
  "one_set = fst (push_step id first_event before_all)"

lemma one_set_run: "push_run (\<lambda>ev. unnoted ev \<subseteq> {}) id one_set ({} \<union> rights {} first_event before_all) ({} \<union> secrets first_event)"
  unfolding one_set_def
  by (rule push_next, rule push_start) (auto simp: before_all_def other_device_def first_event_def calm_def)

lemma id_free: "collision_free id"
  by (simp add: collision_free_def)

section \<open>Deletions\<close>

lemma asked_held:
  assumes "in_file (rightful sha R A) f" and "collision_free sha"
    and "delete_all e (to_remove sha present (load_record sha f s user) [] keep) srv = (asked, removed, srv', failure)"
    and "k \<in> set asked"
  shows "(user, k) \<in> R"
  using delete_all [OF assms(3)] assms(4) held_rightful [OF assms(1,2), of s user k] by (auto simp: to_remove_def)

text \<open>C7: This installation asks the homeserver only for the deletion of its own pushers: whatever was
  registered, cleared and signed in before, in whatever order and with whatever failures, a deletion
  is asked for an address only if this installation registered it or named it for the very account whose
  homeserver is asked, or found there the secret that the old version of the program had left.  A
  pusher of another device, or of the same device for another account, is never touched.\<close>

theorem never_anothers_pusher:
  assumes "push_run ok sha w R A" and "collision_free sha" and "(user, k) \<in> set (snd (push_step sha ev w))"
  shows "(user, k) \<in> R \<union> rights A ev w"
proof -
  have old: "in_file (rightful sha (R \<union> rights A ev w) A) (w_file w)"
    using run_rightful [OF assms(1,2)] rightful_mono [of sha R A _ "R \<union> rights A ev w" A] unfolding in_file_def by blast
  show ?thesis
  proof (cases ev)
    case (Register u key replaces gateway e)
    obtain res f srv asked where r: "register sha e u key replaces gateway (w_file w) (w_server w u) = (res, f, srv, asked)"
      by (metis prod_cases4)
    with assms(3) Register have k: "u = user" "k \<in> set asked" by auto
    have "in_file (rightful sha (R \<union> rights A ev w) A) (register_file sha e u key replaces (w_file w) (w_server w u))"
      by (rule rightful_register_file) (use old assms(2) Register in auto)
    note noted_file = this
    from r show ?thesis
    proof (cases rule: register_cases)
      case (made removed failure)
      from asked_held [OF noted_file assms(2) made(2) k(2)] k(1) show ?thesis by simp
    qed (use k in auto)
  next
    case (Clear u named e)
    obtain res f srv asked where r: "clear_own_pushers sha e u named (w_file w) (w_server w u) = (res, f, srv, asked)"
      by (metis prod_cases4)
    with assms(3) Clear have k: "u = user" "k \<in> set asked" by auto
    have "in_file (rightful sha (R \<union> rights A ev w) A) (clear_file sha e u named (w_file w) (w_server w u))"
      by (rule rightful_clear_file) (use old assms(2) Clear in auto)
    note noted_file = this
    from r show ?thesis
    proof (cases rule: clear_cases)
      case (made removed failure)
      from asked_held [OF noted_file assms(2) made(2) k(2)] k(1) show ?thesis by simp
    qed (use k in auto)
  qed (use assms(3) in auto)
qed

lemma never_anothers_pusher_witness:
  "(ann, first_key) \<in> {} \<union> rights {} first_event before_all
     \<union> rights ({} \<union> secrets first_event) (Register ann second_key (Some first_key) some_gateway calm) one_set"
  by (rule never_anothers_pusher [OF one_set_run id_free]) code_simp

section \<open>Nothing forgotten\<close>

definition recorded :: "sha \<Rightarrow> record_file \<Rightarrow> str \<Rightarrow> str \<Rightarrow> bool" where
  "recorded sha f u k \<longleftrightarrow> (\<exists>w. f = Kept w \<and> salt w \<noteq> [] \<and> sound_record w
     \<and> pushkey_mark sha w k \<in> set (marks w (digest sha w account_kind u)))"

lemma recorded_holds: "recorded sha f u k \<Longrightarrow> holds_key sha (load_record sha f s u) k"
  by (auto simp: recorded_def load_record_def holds_key_marks marks_def pushkey_mark_def digest_def)

lemma recorded_saved:
  assumes "sound_record w" and "salt w \<noteq> []" and "pushkey_mark sha w k \<in> set (marks w (digest sha w account_kind u))"
  shows "recorded sha (save_record True w f) u k"
proof -
  let ?w = "w\<lparr>accounts := filter (\<lambda>(_, ms). ms \<noteq> []) (accounts w), account := []\<rparr>"
  have "\<not> keeps_nothing w"
  proof -
    from assms(3) obtain ms where "map_of (accounts w) (digest sha w account_kind u) = Some ms" "pushkey_mark sha w k \<in> set ms"
      by (cases "map_of (accounts w) (digest sha w account_kind u)") (auto simp: marks_def)
    from map_of_SomeD [OF this(1)] this(2) show ?thesis by (fastforce simp: keeps_nothing_def list_all_iff)
  qed
  then have "save_record True w f = Kept ?w" by (simp add: save_record_def)
  moreover have "marks ?w a = marks w a" for a by (rule marks_filter [OF assms(1)])
  ultimately show ?thesis
    using assms sound_filter [OF assms(1)] pushkey_mark_salt [of ?w w sha] digest_salt [of ?w w sha] by (simp add: recorded_def)
qed

lemma recorded_update:
  assumes "recorded sha f u k"
    and "\<And>w. sound_record w \<Longrightarrow> account w = digest sha w account_kind user
      \<Longrightarrow> pushkey_mark sha w k \<in> set (marks w (digest sha w account_kind u))
      \<Longrightarrow> salt (change w) = salt w \<and> sound_record (change w) \<and> pushkey_mark sha w k \<in> set (marks (change w) (digest sha w account_kind u))"
  shows "recorded sha (update_owned sha e i user change f) u k"
proof -
  let ?w = "load_record sha f (fresh_salt (e_bytes e i)) user"
  from assms(1) obtain w0 where w0: "f = Kept w0" "salt w0 \<noteq> []" "sound_record w0"
    "pushkey_mark sha w0 k \<in> set (marks w0 (digest sha w0 account_kind u))" by (auto simp: recorded_def)
  then have w: "?w = w0\<lparr>account := digest sha w0 account_kind user\<rparr>" by (simp add: load_record_def)
  have "salt (change ?w) = salt ?w \<and> sound_record (change ?w) \<and> pushkey_mark sha ?w k \<in> set (marks (change ?w) (digest sha ?w account_kind u))"
    by (rule assms(2)) (use w0 w in \<open>simp_all add: sound_record_def marks_def pushkey_mark_def digest_def\<close>)
  moreover from this have "recorded sha (save_record True (change ?w) f) u k"
    using w0 w pushkey_mark_salt [of "change ?w" ?w sha] digest_salt [of "change ?w" ?w sha] by (intro recorded_saved) simp_all
  ultimately show ?thesis using assms(1) by (cases "e_saved e i") (simp_all add: update_owned_def save_record_def)
qed

lemma recorded_note:
  assumes "in_file (\<lambda>_. True) f" and "e_live e i" and "e_saved e i" and "e_bytes e i \<noteq> []" and "k \<in> set ks"
  shows "recorded sha (update_owned sha e i user (fold (note_key sha) ks) f) user k"
proof -
  let ?w = "load_record sha f (fresh_salt (e_bytes e i)) user"
  have "salt ?w \<noteq> []"
    using assms(4) by (cases f) (auto simp: load_record_def with_salt_def fresh_salt_def hex_def neq_Nil_conv)
  moreover have "sound_record ?w" "account ?w = digest sha ?w account_kind user"
    using load_record(1,2) [OF assms(1)] by auto
  moreover have "pushkey_mark sha ?w k \<in> set (marks (fold (note_key sha) ks ?w) (account ?w))"
    using assms(5) by (simp add: marks_note_keys)
  moreover have "pushkey_mark sha (fold (note_key sha) ks ?w) k = pushkey_mark sha ?w k"
    "digest sha (fold (note_key sha) ks ?w) account_kind user = digest sha ?w account_kind user"
    by (auto intro: pushkey_mark_salt digest_salt)
  ultimately show ?thesis
    using assms(2,3) recorded_saved [of "fold (note_key sha) ks ?w" sha k user f] by (simp add: update_owned_def)
qed

lemma recorded_noted: "recorded sha f u k \<Longrightarrow> recorded sha (update_owned sha e i user (fold (note_key sha) ks) f) u k"
  by (rule recorded_update) (auto simp: marks_note_keys)

lemma recorded_claimed: "recorded sha f u k \<Longrightarrow> recorded sha (claim_pushers sha e user ours f) u k"
  unfolding claim_pushers_def by (auto simp: claim_frame intro!: recorded_update)

lemma recorded_settled:
  assumes "recorded sha f u k" and "collision_free sha" and "u = user \<Longrightarrow> k \<in> set present - set removed"
  shows "recorded sha (update_owned sha e i user (settle sha present removed) f) u k"
  by (rule recorded_update [OF assms(1)]) (use assms(2,3) digest_inj in \<open>auto simp: marks_settle\<close>)

lemma recorded_legacy: "recorded sha f u k \<Longrightarrow> recorded sha (note_legacy_pushers sha e auths f) u k"
proof -
  have "salt (fold (note_legacy sha) auths w) = salt w \<and> marks (fold (note_legacy sha) auths w) a = marks w a" for w a
    by (induction auths arbitrary: w) simp_all
  then show "recorded sha f u k \<Longrightarrow> ?thesis"
    by (auto simp: note_legacy_pushers_def sound_legacy_noted intro!: recorded_update)
qed

text \<open>Every pusher of this installation is in the record, but for the addresses of \<open>U\<close>.\<close>

definition all_recorded :: "sha \<Rightarrow> (str \<times> str) set \<Rightarrow> push_world \<Rightarrow> bool" where
  "all_recorded sha U w \<longleftrightarrow> (\<forall>u. \<forall>p\<in>set (w_server w u). sp_ours p \<longrightarrow>
     sp_app p = app_id \<and> ((u, sp_key p) \<in> U \<or> recorded sha (w_file w) u (sp_key p)))"

interpretation sound: kept_record sha "\<lambda>_. True" for sha
  by unfold_locales simp_all

lemma sound_any: "in_file P f \<Longrightarrow> in_file (\<lambda>_. True) f"
  by (simp add: in_file_def)

lemma posted_ours: "p \<in> set (posted e key gateway srv) \<Longrightarrow> p \<in> set srv \<or> sp_key p = key \<and> sp_app p = app_id"
  by (auto simp: posted_def post_pusher_def split: if_splits)

lemma recorded_register:
  assumes "all_recorded sha U w" and "in_file (\<lambda>_. True) (w_file w)"
  shows "p \<in> set (w_server w u) \<Longrightarrow> sp_ours p
      \<Longrightarrow> (u, sp_key p) \<in> U \<or> recorded sha (register_file sha e user key replaces (w_file w) srv) u (sp_key p)"
    and "unnoted (Register user key replaces gateway e) \<subseteq> U
      \<Longrightarrow> (user, key) \<in> U \<or> recorded sha (register_file sha e user key replaces (w_file w) srv) user key"
proof -
  show "p \<in> set (w_server w u) \<Longrightarrow> sp_ours p
      \<Longrightarrow> (u, sp_key p) \<in> U \<or> recorded sha (register_file sha e user key replaces (w_file w) srv) u (sp_key p)"
    using assms(1) unfolding register_file_def noted_fold
    by (auto simp: all_recorded_def intro!: recorded_noted recorded_claimed)
  have "key \<in> set (to_note key replaces)" by (simp add: to_note_def)
  moreover have "in_file (\<lambda>_. True) (claim_pushers sha e user (server_pushers srv) (w_file w))"
    using assms(2) by (intro sound.claimed) auto
  ultimately show "unnoted (Register user key replaces gateway e) \<subseteq> U
      \<Longrightarrow> (user, key) \<in> U \<or> recorded sha (register_file sha e user key replaces (w_file w) srv) user key"
    unfolding register_file_def noted_fold
    by (cases "careful (Register user key replaces gateway e)") (auto intro!: recorded_note)
qed

lemma all_recorded_step:
  assumes "all_recorded sha U w" and "in_file (\<lambda>_. True) (w_file w)" and "collision_free sha" and "unnoted ev \<subseteq> U"
  shows "all_recorded sha U (fst (push_step sha ev w))"
proof (cases ev)
  case (Register user key replaces gateway e)
  obtain res f srv asked where r: "register sha e user key replaces gateway (w_file w) (w_server w user) = (res, f, srv, asked)"
    by (metis prod_cases4)
  let ?f = "register_file sha e user key replaces (w_file w) (w_server w user)"
  note old = recorded_register(1) [OF assms(1,2), where srv = "w_server w user" and user = user and key = key and e = e and replaces = replaces]
  note new = recorded_register(2) [OF assms(1,2) assms(4) [unfolded Register], where srv = "w_server w user"]
  have posted: "sp_app p = app_id \<and> ((user, sp_key p) \<in> U \<or> recorded sha ?f user (sp_key p))"
    if "p \<in> set (posted e key gateway (w_server w user))" "sp_ours p" for p
    using posted_ours [OF that(1)] assms(1) old new that(2) unfolding all_recorded_def by auto
  have others: "sp_app p = app_id" if "p \<in> set (w_server w u)" "sp_ours p" for u p
    using that assms(1) by (auto simp: all_recorded_def)
  have "(\<forall>p\<in>set srv. sp_ours p \<longrightarrow> sp_app p = app_id \<and> ((user, sp_key p) \<in> U \<or> recorded sha f user (sp_key p)))
      \<and> (\<forall>u. u \<noteq> user \<longrightarrow> (\<forall>p\<in>set (w_server w u). sp_ours p \<longrightarrow> (u, sp_key p) \<in> U \<or> recorded sha f u (sp_key p)))"
    using r
  proof (cases rule: register_cases)
    case refused
    with assms(1) show ?thesis by (auto simp: all_recorded_def)
  next
    case failed
    with posted old assms(1) show ?thesis by (auto simp: all_recorded_def)
  next
    case (made removed failure)
    note d = delete_all [OF made(2)]
    have "((user, sp_key p) \<in> U \<or> recorded sha f user (sp_key p)) \<and> sp_app p = app_id" if p: "p \<in> set srv" "sp_ours p" for p
    proof -
      from d p(1) have before: "p \<in> set (posted e key gateway (w_server w user))" by blast
      with posted p(2) have app: "sp_app p = app_id" "(user, sp_key p) \<in> U \<or> recorded sha ?f user (sp_key p)" by auto
      have "sp_key p \<in> set (map sp_key (server_pushers (w_server w user)) @ [key])"
        using posted_ours [OF before] app(1) by (auto simp: server_pushers_def)
      with d p(1) app show ?thesis unfolding made(3) by (auto intro!: recorded_settled assms(3))
    qed
    moreover have "(u, sp_key p) \<in> U \<or> recorded sha f u (sp_key p)" if "u \<noteq> user" "p \<in> set (w_server w u)" "sp_ours p" for u p
      unfolding made(3) using old [OF that(2,3)] that(1) by (auto intro!: recorded_settled assms(3))
    ultimately show ?thesis by blast
  qed
  with r Register others show ?thesis by (auto simp: all_recorded_def)
next
  case (Clear user named e)
  obtain res f srv asked where r: "clear_own_pushers sha e user named (w_file w) (w_server w user) = (res, f, srv, asked)"
    by (metis prod_cases4)
  let ?f = "clear_file sha e user named (w_file w) (w_server w user)"
  have others: "sp_app p = app_id \<and> ((u, sp_key p) \<in> U \<or> recorded sha (w_file w) u (sp_key p))"
    if "p \<in> set (w_server w u)" "sp_ours p" for u p
    using that assms(1) by (auto simp: all_recorded_def)
  then have cleared: "(u, sp_key p) \<in> U \<or> recorded sha ?f u (sp_key p)" if "p \<in> set (w_server w u)" "sp_ours p" for u p
    using that unfolding clear_file_def by (auto intro!: recorded_noted recorded_claimed)
  have "(\<forall>p\<in>set srv. sp_ours p \<longrightarrow> sp_app p = app_id \<and> ((user, sp_key p) \<in> U \<or> recorded sha f user (sp_key p)))
      \<and> (\<forall>u. u \<noteq> user \<longrightarrow> (\<forall>p\<in>set (w_server w u). sp_ours p \<longrightarrow> (u, sp_key p) \<in> U \<or> recorded sha f u (sp_key p)))"
    using r
  proof (cases rule: clear_cases)
    case failed
    with others show ?thesis by (auto intro: recorded_noted)
  next
    case (made removed failure)
    note d = delete_all [OF made(2)]
    have "((user, sp_key p) \<in> U \<or> recorded sha f user (sp_key p)) \<and> sp_app p = app_id" if p: "p \<in> set srv" "sp_ours p" for p
    proof -
      from d p(1) have before: "p \<in> set (w_server w user)" by blast
      with others p(2) have "sp_app p = app_id" by blast
      with before d p cleared show ?thesis unfolding made(3) by (auto simp: server_pushers_def intro!: recorded_settled assms(3))
    qed
    moreover have "(u, sp_key p) \<in> U \<or> recorded sha f u (sp_key p)" if "u \<noteq> user" "p \<in> set (w_server w u)" "sp_ours p" for u p
      unfolding made(3) using cleared [OF that(2,3)] that(1) by (auto intro!: recorded_settled assms(3))
    ultimately show ?thesis by blast
  qed
  with r Clear others show ?thesis by (auto simp: all_recorded_def)
qed (use assms(1) in \<open>auto simp: all_recorded_def intro: recorded_legacy\<close>)

lemma run_recorded:
  assumes "push_run (\<lambda>ev. unnoted ev \<subseteq> U) sha w R A" and "collision_free sha"
  shows "all_recorded sha U w"
  using assms
proof (induction rule: push_run.induct)
  case (push_next w R A ev)
  then show ?case using sound_any [OF run_rightful] by (intro all_recorded_step) blast+
qed (simp add: all_recorded_def)

text \<open>C12: Signing out leaves none behind but what was never noted: after any history, with whatever failures, a clearing
  that is answered without a failure, and whose deletions all go out while the session is there, leaves
  on the account's homeserver no pusher of this installation - those set long ago, those whose registration was
  never answered and those an earlier clearing failed to remove included - except under an address that some
  earlier registration of the account sent without having noted it: because its session was over, its file could
  not be written, or it got no random bytes.  \<open>U\<close> is any set that holds the addresses of such registrations; where
  each one could write its record, it is empty, and none is left.\<close>

theorem clear_leaves_none:
  assumes "push_run (\<lambda>ev. unnoted ev \<subseteq> U) sha w R A" and "collision_free sha" and "\<forall>k. e_live_at e k"
    and "clear_own_pushers sha e user named (w_file w) (w_server w user) = (Inr (), f, srv, asked)"
  shows "\<forall>p\<in>set srv. sp_ours p \<longrightarrow> (user, sp_key p) \<in> U"
proof (intro ballI impI)
  fix p
  assume p: "p \<in> set srv" and ours: "sp_ours p"
  from assms(4) show "(user, sp_key p) \<in> U"
  proof (cases rule: clear_cases)
    case (made removed failure)
    note d = delete_all [OF made(2)]
    show ?thesis
    proof (rule ccontr)
      assume noted: "(user, sp_key p) \<notin> U"
      from d p have old: "p \<in> set (w_server w user)" by blast
      with ours noted run_recorded [OF assms(1,2)] have app: "sp_app p = app_id" "recorded sha (w_file w) user (sp_key p)"
        by (auto simp: all_recorded_def)
      then have "recorded sha (clear_file sha e user named (w_file w) (w_server w user)) user (sp_key p)"
        unfolding clear_file_def by (auto intro!: recorded_noted recorded_claimed)
      from recorded_holds [OF this] old app(1) have "sp_key p \<in> set (to_remove sha (map sp_key (server_pushers (w_server w user)))
         (load_record sha (clear_file sha e user named (w_file w) (w_server w user)) (fresh_salt (e_bytes e 2)) user) [] None)"
        by (auto simp: to_remove_def server_pushers_def)
      with d p app(1) assms(3) made(1) show False by auto
    qed
  qed simp
qed

lemma clear_leaves_none_witness:
  "\<exists>f srv asked. clear_own_pushers id calm ann [] (w_file one_set) (w_server one_set ann) = (Inr (), f, srv, asked)
     \<and> (\<forall>p\<in>set srv. \<not> sp_ours p)"
proof -
  let ?r = "clear_own_pushers id calm ann [] (w_file one_set) (w_server one_set ann)"
  have "fst ?r = Inr ()" by code_simp
  then obtain f srv asked where r: "?r = (Inr (), f, srv, asked)" by (metis prod_cases4 fst_conv)
  with clear_leaves_none [OF one_set_run id_free _ r] show ?thesis by (auto simp: calm_def)
qed

text \<open>C25: A registration that succeeds leaves this installation with one pusher on the account's homeserver, under the
  address and the gateway that were asked for: after any history, if its deletions all go out while the
  session is there and are all answered with success, every pusher of this installation is under that
  address - except under an address that some earlier registration of the account sent without having noted it (\<open>U\<close>,
  as for the clearing; none where each could write its record).\<close>

theorem register_leaves_one:
  assumes "push_run (\<lambda>ev. unnoted ev \<subseteq> U) sha w R A" and "collision_free sha"
    and "\<forall>k. e_live_at e k \<and> e_del e k = Done"
    and "register sha e user key replaces gateway (w_file w) (w_server w user) = (Inr (), f, srv, asked)"
  shows "(\<forall>p\<in>set srv. sp_ours p \<longrightarrow> sp_key p = key \<or> (user, sp_key p) \<in> U)
    \<and> (\<exists>p\<in>set srv. sp_app p = app_id \<and> sp_key p = key \<and> sp_url p = Some gateway)"
  using assms(4)
proof (cases rule: register_cases)
  case (made removed failure)
  let ?srv = "posted e key gateway (w_server w user)"
  let ?keys = "map sp_key (server_pushers (w_server w user)) @ [key]"
  let ?f = "register_file sha e user key replaces (w_file w) (w_server w user)"
  let ?ks = "to_remove sha ?keys (load_record sha ?f (fresh_salt (e_bytes e 2)) user) [] (Some key)"
  note d = delete_all [OF made(2)]
  have rec: "all_recorded sha U w" by (rule run_recorded [OF assms(1,2)])
  note reg = recorded_register(1) [OF rec sound_any [OF run_rightful [OF assms(1,2)]], where srv = "w_server w user"]
  have "sp_key p = key" if p: "p \<in> set srv" "sp_ours p" and noted: "(user, sp_key p) \<notin> U" for p
  proof (rule ccontr)
    assume other: "sp_key p \<noteq> key"
    from d p(1) have old: "p \<in> set ?srv" by blast
    with posted_ours [OF this] other have "p \<in> set (w_server w user)" by blast
    with rec p(2) noted reg [OF this p(2)] have app: "sp_app p = app_id" "recorded sha ?f user (sp_key p)"
      "sp_key p \<in> set ?keys" by (auto simp: all_recorded_def server_pushers_def)
    from recorded_holds [OF app(2)] app(3) other have "sp_key p \<in> set ?ks" by (simp add: to_remove_def)
    with d p(1) app(1) assms(3) show False by auto
  qed
  moreover have "\<exists>p\<in>set ?srv. sp_app p = app_id \<and> sp_key p = key \<and> sp_url p = Some gateway"
  proof (cases "list_ex (\<lambda>p. sp_key p = key \<and> sp_url p = Some gateway) (server_pushers (w_server w user))")
    case True
    then show ?thesis by (auto simp: posted_def list_ex_iff server_pushers_def)
  next
    case False
    with made(4) show ?thesis by (auto simp: posted_def post_pusher_def)
  qed
  then obtain p where p: "p \<in> set ?srv" "sp_app p = app_id" "sp_key p = key" "sp_url p = Some gateway" by blast
  moreover from p(3) have "sp_key p \<notin> set ?ks" by (simp add: to_remove_def)
  ultimately show ?thesis using d by blast
qed simp_all

lemma register_leaves_one_witness:
  "\<exists>f srv asked. register id calm ann second_key (Some first_key) some_gateway (w_file one_set) (w_server one_set ann) = (Inr (), f, srv, asked)
     \<and> (\<forall>p\<in>set srv. sp_ours p \<longrightarrow> sp_key p = second_key)"
proof -
  let ?r = "register id calm ann second_key (Some first_key) some_gateway (w_file one_set) (w_server one_set ann)"
  have "fst ?r = Inr ()" by code_simp
  then obtain f srv asked where r: "?r = (Inr (), f, srv, asked)" by (metis prod_cases4 fst_conv)
  with register_leaves_one [OF one_set_run id_free _ r] show ?thesis by (auto simp: calm_def)
qed

text \<open>A session that ends while a registration runs writes no record, but its request still goes out: the pusher
  stands on the homeserver and no clearing finds it by the record.  The exception of the two properties is needed.\<close>

theorem unrecorded_pusher:
  "(let w = fst (push_step id (Register ann first_key None some_gateway (calm\<lparr>e_live := \<lambda>_. False\<rparr>)) before_all);
        (res, _, srv, asked) = clear_own_pushers id calm ann [] (w_file w) (w_server w ann)
    in res = Inr () \<and> asked = [] \<and> list_ex sp_ours srv)"
  by code_simp

end
