(* ===== verification/Push_Sync.thy ===== *)
theory Push_Sync
  imports Push_Promises Text_Safety
begin

text \<open>
  \<open>push_sync\<close> of \<open>src/core/src/runtime/pushcmd.rs\<close>, the decision which pusher a session gets, over the operations
  of \<^theory_text>\<open>Push_Record\<close>; what the gateway a user picked comes to, and what of an address is shown.
\<close>

section \<open>The decision\<close>

record leghorn_pusher =
  l_key :: str
  l_gateway :: "str option"
  l_replaces :: "str option"

text \<open>The connector: whether it runs, the pusher of its endpoint, whether push is on in what it stored, the address
  of the last pusher it kept.\<close>

record connector =
  c_running :: bool
  c_endpoint :: "leghorn_pusher option"
  c_enabled :: bool
  c_last :: "str option"

record push_state =
  s_picked :: gateway
  s_registered :: "(str \<times> str) option"
  s_dirty :: bool
  s_file :: record_file
  s_server :: "server_pusher list"

text \<open>\<open>client\<close>: the signed-in client of this generation is there; \<open>live\<close>: it still is at the end; \<open>forgets\<close>: the connector
  could remove what it stored.\<close>

definition settled_debt :: "bool \<Rightarrow> push_state \<Rightarrow> push_state" where
  "settled_debt live s = (if live then s\<lparr>s_dirty := False\<rparr> else s)"

definition sync_leftovers :: "sha \<Rightarrow> push_env \<Rightarrow> str \<Rightarrow> connector \<Rightarrow> bool \<Rightarrow> bool \<Rightarrow> push_state \<Rightarrow> (pusher_error + bool) \<times> push_state" where
  "sync_leftovers sha e user c live forgets s =
     (if \<not> c_running c \<and> \<not> c_enabled c \<and> (c_last c \<noteq> None \<or> owns_any sha (s_file s) (fresh_salt (e_bytes e 3)) user)
      then (let named = (case c_last c of None \<Rightarrow> [] | Some k \<Rightarrow> [k]);
                (res, f, srv, _) = clear_own_pushers sha e user named (s_file s) (s_server s);
                s = s\<lparr>s_file := f, s_server := srv\<rparr>
            in case res of
                 Inl err \<Rightarrow> (Inl err, s)
               | Inr _ \<Rightarrow> if c_last c \<noteq> None \<and> live \<and> \<not> forgets
                   then (Inl \<lparr>message = lit ''the stored registration was not removed'', rejected = False\<rparr>, s)
                   else (Inr False, settled_debt live s))
      else (Inr False, settled_debt live s))"

definition sync_without_gateway :: "sha \<Rightarrow> push_env \<Rightarrow> str \<Rightarrow> str \<Rightarrow> bool \<Rightarrow> push_state \<Rightarrow> (pusher_error + bool) \<times> push_state" where
  "sync_without_gateway sha e user key live s =
     (let was_set = s_registered s \<noteq> None; s = s\<lparr>s_registered := None\<rparr> in
      if was_set \<or> owns sha (s_file s) (fresh_salt (e_bytes e 3)) user key
      then (let (res, f, srv, _) = clear_own_pushers sha e user [key] (s_file s) (s_server s);
                s = s\<lparr>s_file := f, s_server := srv\<rparr>
            in case res of Inl err \<Rightarrow> (Inl err, s) | Inr _ \<Rightarrow> (Inr False, settled_debt live s))
      else (Inr False, settled_debt live s))"

definition sync_register :: "sha \<Rightarrow> push_env \<Rightarrow> str \<Rightarrow> leghorn_pusher \<Rightarrow> str \<Rightarrow> bool \<Rightarrow> push_state \<Rightarrow> (pusher_error + bool) \<times> push_state" where
  "sync_register sha e user p gateway live s =
     (let (res, f, srv, _) = register sha e user (l_key p) (l_replaces p) gateway (s_file s) (s_server s);
          s = s\<lparr>s_file := f, s_server := srv\<rparr>
      in case res of
           Inl err \<Rightarrow> (Inl err, s)
         | Inr _ \<Rightarrow> if \<not> live then (Inr False, s)
             else (Inr True, s\<lparr>s_registered := Some (l_key p, gateway), s_dirty := False\<rparr>))"

definition push_sync ::
  "sha \<Rightarrow> push_env \<Rightarrow> bool \<Rightarrow> str \<Rightarrow> connector \<Rightarrow> leghorn_pusher option \<Rightarrow> bool \<Rightarrow> bool \<Rightarrow> push_state
    \<Rightarrow> (pusher_error + bool) \<times> push_state" where
  "push_sync sha e client user c given live forgets s =
     (if \<not> client then (Inr False, s)
      else case (case given of Some p \<Rightarrow> Some p | None \<Rightarrow> if c_running c then c_endpoint c else None) of
        None \<Rightarrow> sync_leftovers sha e user c live forgets s
      | Some p \<Rightarrow>
          (case resolve (s_picked s) (l_gateway p) of
             None \<Rightarrow> sync_without_gateway sha e user (l_key p) live s
           | Some gateway \<Rightarrow> sync_register sha e user p gateway live s))"

text \<open>What a switch-off does with the registration at the distributor.\<close>

datatype drop_step = Forget | Forget_Stored | Disable | Connect_And_Disable | Nothing

definition drop_step :: "bool \<Rightarrow> bool \<Rightarrow> bool \<Rightarrow> drop_step" where
  "drop_step cleared running stored_enabled =
     (if cleared then (if running then Forget else Forget_Stored)
      else if running then Disable else if stored_enabled then Connect_And_Disable else Nothing)"

section \<open>Gateways\<close>

lemma trim_trim [simp]: "trim (trim s) = trim s"
proof (cases "trim s = []")
  case True
  then show ?thesis by (simp only: True) (simp add: trim_def)
next
  case False
  from trim_ends [OF False] have "dropWhile rust_space (trim s) = trim s" "dropWhile rust_space (rev (trim s)) = rev (trim s)"
    using False by (auto simp: dropWhile_eq_self_iff hd_rev)
  then show ?thesis by (subst (1) trim_def) simp
qed

lemma public_sound: "gateway_is_sound public_gateway"
  by code_simp

lemma parsed_sound:
  assumes "gateway_parse mode url = Inr g" and "resolve g discovered = Some gateway"
  shows "gateway_is_sound gateway"
proof -
  have "gateway_is_sound (trim url) = gateway_is_sound url" by (simp add: gateway_is_sound_def)
  with assms public_sound show ?thesis
    by (cases g) (auto simp: gateway_parse_def split: if_splits option.splits)
qed

text \<open>Only deletions reach the homeserver from a clearing.\<close>

lemma clear_shrinks: "clear_own_pushers sha e user named f srv = (res, f', srv', asked) \<Longrightarrow> set srv' \<subseteq> set srv"
  by (erule clear_cases) (auto dest!: delete_all)

lemma register_made:
  assumes "register sha e user key replaces gateway f srv = (Inr (), f', srv', asked)"
  shows "gateway_is_sound gateway \<and> gateway_is_sound key
    \<and> (\<exists>p\<in>set srv'. sp_app p = app_id \<and> sp_key p = key \<and> sp_url p = Some gateway)"
proof -
  from assms have "gateway_is_sound gateway \<and> gateway_is_sound key" by (auto simp: register_def split: if_splits)
  moreover from assms have "\<exists>p\<in>set srv'. sp_app p = app_id \<and> sp_key p = key \<and> sp_url p = Some gateway"
  proof (cases rule: register_cases)
    case (made removed failure)
    have "\<exists>p\<in>set (posted e key gateway srv). sp_app p = app_id \<and> sp_key p = key \<and> sp_url p = Some gateway"
    proof (cases "list_ex (\<lambda>p. sp_key p = key \<and> sp_url p = Some gateway) (server_pushers srv)")
      case True
      then show ?thesis by (auto simp: posted_def list_ex_iff server_pushers_def)
    next
      case False
      with made(4) show ?thesis by (auto simp: posted_def post_pusher_def)
    qed
    then obtain p where p: "p \<in> set (posted e key gateway srv)" "sp_app p = app_id" "sp_key p = key" "sp_url p = Some gateway" by blast
    moreover have "sp_key p \<notin> set (to_remove sha (map sp_key (server_pushers srv) @ [key]) w [] (Some key))" for w
      using p(3) by (simp add: to_remove_def)
    ultimately show ?thesis using delete_all [OF made(2)] by blast
  qed simp_all
  ultimately show ?thesis by blast
qed

lemma register_new:
  assumes "register sha e user key replaces gateway f srv = (res, f', srv', asked)" and "q \<in> set srv'" and "q \<notin> set srv"
  shows "gateway_is_sound gateway \<and> gateway_is_sound key \<and> sp_app q = app_id \<and> sp_key q = key \<and> sp_url q = Some gateway"
proof -
  have "gateway_is_sound gateway \<and> gateway_is_sound key"
  proof (rule ccontr)
    assume "\<not> (gateway_is_sound gateway \<and> gateway_is_sound key)"
    with assms(1) have "srv' = srv" by (auto simp: register_def)
    with assms(2,3) show False by simp
  qed
  moreover have "q \<in> set (posted e key gateway srv)"
    using assms(1)
  proof (cases rule: register_cases)
    case (made removed failure)
    with delete_all [OF made(2)] assms(2) show ?thesis by blast
  qed (use assms in auto)
  ultimately show ?thesis using assms(3) by (auto simp: posted_def post_pusher_def split: if_splits)
qed

text \<open>The pusher a sync is about: the one it was given, or else the one of the connector's endpoint.  And the gateway
  a pick comes to, in the words of the choice.\<close>

definition endpoint_of :: "connector \<Rightarrow> leghorn_pusher option \<Rightarrow> leghorn_pusher option" where
  "endpoint_of c given = (if given = None \<and> c_running c then c_endpoint c else given)"

definition chosen_gateway :: "gateway \<Rightarrow> str option \<Rightarrow> str \<Rightarrow> bool" where
  "chosen_gateway g discovered u \<longleftrightarrow>
     g = Server \<and> discovered = Some u \<and> gateway_is_sound u \<or> g = Public \<and> u = public_gateway \<or> g = Other u"

lemma resolve_chosen: "resolve g discovered = Some u \<longleftrightarrow> chosen_gateway g discovered u"
  by (cases g) (auto simp: chosen_gateway_def split: option.split)

text \<open>C24: Push goes where the user chose and nowhere else.  Whatever pusher stands on the homeserver after a sync and
  did not before is that of the endpoint - the one the sync was given, or the connector's -, at the gateway of the
  pick: the one discovered on the user's own server if it is sound, the public one, or the one that was typed
  in; so nothing is set without a client, without an endpoint, while no gateway is picked, or while the picked
  one is not to be had.  A sync reports a pusher as set only if just this one stands there, and keeps it as
  the registered one; and its address and its gateway are https.\<close>

theorem pushes_as_picked:
  assumes "push_sync sha e client user c given live forgets s = (res, s')"
  shows "(\<forall>q\<in>set (s_server s'). q \<notin> set (s_server s) \<longrightarrow> client
        \<and> (\<exists>p gateway. endpoint_of c given = Some p \<and> chosen_gateway (s_picked s) (l_gateway p) gateway
          \<and> gateway_is_sound gateway \<and> gateway_is_sound (l_key p)
          \<and> sp_app q = app_id \<and> sp_key q = l_key p \<and> sp_url q = Some gateway))
    \<and> (res = Inr True \<longrightarrow> client
        \<and> (\<exists>p gateway. endpoint_of c given = Some p \<and> chosen_gateway (s_picked s) (l_gateway p) gateway
          \<and> gateway_is_sound gateway \<and> gateway_is_sound (l_key p) \<and> s_registered s' = Some (l_key p, gateway)
          \<and> (\<exists>q\<in>set (s_server s'). sp_app q = app_id \<and> sp_key q = l_key p \<and> sp_url q = Some gateway)))"
proof -
  have leftovers: "set (s_server s') \<subseteq> set (s_server s) \<and> res \<noteq> Inr True"
    if "sync_leftovers sha e user c live forgets s = (res, s')"
    using that unfolding sync_leftovers_def settled_debt_def Let_def
    by (auto split: if_splits prod.splits sum.splits dest!: clear_shrinks)
  have without: "set (s_server s') \<subseteq> set (s_server s) \<and> res \<noteq> Inr True"
    if "sync_without_gateway sha e user key live s = (res, s')" for key
    using that unfolding sync_without_gateway_def settled_debt_def Let_def
    by (auto split: if_splits prod.splits sum.splits dest!: clear_shrinks)
  have reg: "gateway_is_sound gateway \<and> gateway_is_sound (l_key p) \<and> s_registered s' = Some (l_key p, gateway)
      \<and> (\<exists>q\<in>set (s_server s'). sp_app q = app_id \<and> sp_key q = l_key p \<and> sp_url q = Some gateway)"
    if "sync_register sha e user p gateway live s = (Inr True, s')" for p gateway
    using that register_made unfolding sync_register_def Let_def
    by (auto split: if_splits prod.splits sum.splits)
  have new: "gateway_is_sound gateway \<and> gateway_is_sound (l_key p) \<and> sp_app q = app_id \<and> sp_key q = l_key p \<and> sp_url q = Some gateway"
    if "sync_register sha e user p gateway live s = (res, s')" "q \<in> set (s_server s')" "q \<notin> set (s_server s)" for p gateway q
  proof -
    obtain r f srv asked where "register sha e user (l_key p) (l_replaces p) gateway (s_file s) (s_server s) = (r, f, srv, asked)"
      by (metis prod_cases4)
    with that register_new [OF this] show ?thesis
      unfolding sync_register_def Let_def by (auto split: if_splits sum.splits)
  qed
  have endpoint: "(case given of Some p \<Rightarrow> Some p | None \<Rightarrow> if c_running c then c_endpoint c else None) = endpoint_of c given"
    by (simp add: endpoint_of_def split: option.split)
  show ?thesis
  proof (cases client)
    case False
    with assms show ?thesis by (auto simp: push_sync_def)
  next
    case True
    show ?thesis
    proof (cases "endpoint_of c given")
      case None
      with True assms leftovers show ?thesis by (auto simp: push_sync_def endpoint)
    next
      case (Some p)
      show ?thesis
      proof (cases "resolve (s_picked s) (l_gateway p)")
        case None
        with True Some assms without show ?thesis by (auto simp: push_sync_def endpoint)
      next
        case (Some gateway)
        with True assms \<open>_ = Some p\<close> have r: "sync_register sha e user p gateway live s = (res, s')"
          by (simp add: push_sync_def endpoint)
        from Some have "chosen_gateway (s_picked s) (l_gateway p) gateway" by (simp add: resolve_chosen)
        with True \<open>_ = Some p\<close> reg new r show ?thesis by auto
      qed
    qed
  qed
qed

lemma pushes_as_picked_witness:
  "\<exists>s'. push_sync id calm True ann \<lparr>c_running = True, c_endpoint = None, c_enabled = True, c_last = None\<rparr>
      (Some \<lparr>l_key = first_key, l_gateway = Some some_gateway, l_replaces = None\<rparr>) True True
      \<lparr>s_picked = Server, s_registered = None, s_dirty = True, s_file = Missing, s_server = [other_device]\<rparr> = (Inr True, s')
    \<and> s_registered s' \<noteq> None"
proof -
  let ?r = "push_sync id calm True ann \<lparr>c_running = True, c_endpoint = None, c_enabled = True, c_last = None\<rparr>
      (Some \<lparr>l_key = first_key, l_gateway = Some some_gateway, l_replaces = None\<rparr>) True True
      \<lparr>s_picked = Server, s_registered = None, s_dirty = True, s_file = Missing, s_server = [other_device]\<rparr>"
  have "fst ?r = Inr True" by code_simp
  then obtain s' where r: "?r = (Inr True, s')" by (metis prod.collapse)
  with pushes_as_picked [OF r] show ?thesis by auto
qed

section \<open>What is shown of an address\<close>

text \<open>Of a push service's address only the host is shown: whatever follows the first slash, question mark or hash after
  the scheme - the secret part - has no influence on it, and neither has a user name or a password.\<close>

theorem push_host_secret:
  assumes "58 \<notin> set scheme" and "set authority \<inter> {47, 63, 35, 64} = {}" and "c \<in> {47, 63, 35}" and "set user \<inter> {47, 63, 35} = {}"
  shows "push_host (scheme @ lit ''://'' @ user @ [64] @ authority @ c # secret) = hd (split_on (\<lambda>c. c = 58) authority)
    \<and> push_host (scheme @ lit ''://'' @ authority @ c # secret) = hd (split_on (\<lambda>c. c = 58) authority)"
proof -
  have found: "index_of (lit ''://'') (scheme @ lit ''://'' @ s) = Some (length scheme)" for s
    using assms(1) by (induction scheme) (auto simp: str_simps)
  have shown: "push_host (scheme @ lit ''://'' @ s)
      = hd (split_on (\<lambda>c. c = 58) (last (split_on (\<lambda>c. c = 64) (hd (split_on (\<lambda>c. c = 47 \<or> c = 63 \<or> c = 35) s)))))" for s
    using found [of s] by (simp add: push_host_def str_simps)
  have cut: "takeWhile (\<lambda>c. \<not> (c = 47 \<or> c = 63 \<or> c = 35)) (a @ c # secret) = a" if "set a \<inter> {47, 63, 35} = {}" for a
    using that assms(3) by (subst takeWhile_append2) auto
  have "last (split_on (\<lambda>c. c = 64) (a @ 64 # authority)) = authority \<and> last (split_on (\<lambda>c. c = 64) authority) = authority" for a :: str
  proof -
    have all: "takeWhile (\<lambda>c. c \<noteq> 64) (rev authority) = rev authority" using assms(2) by (auto simp: takeWhile_eq_all_conv)
    then have "takeWhile (\<lambda>c. c \<noteq> 64) (rev authority @ 64 # b) = rev authority" for b by (simp add: takeWhile_append takeWhile_eq_all_conv)
    then show ?thesis unfolding last_split_on
      by (simp only: rev_append rev.simps append_assoc append_Cons append_Nil all rev_rev_ident simp_thms)
  qed
  with cut [of "user @ 64 # authority"] cut [of authority] assms(2,4) show ?thesis
    unfolding shown by (auto simp: hd_split_on)
qed

lemma push_host_secret_witness:
  "push_host (lit ''https://me:pw@ntfy.example:8443/upAbc?up=1'') = lit ''ntfy.example''"
  using push_host_secret [of "lit ''https''" "lit ''ntfy.example:8443''" 47 "lit ''me:pw''" "lit ''upAbc?up=1''"]
  by (simp add: str_simps)

end
