(* ===== verification/Push_Retry.thy ===== *)
theory Push_Retry
  imports Main
begin

text \<open>
  The retry of a pusher that could not be set (\<open>sync_or_retry\<close>, \<open>retry_on_running\<close> and \<open>wait_for_running\<close> of
  \<open>src/core/src/runtime/pushcmd.rs\<close>, with \<open>stop_push_tasks\<close>).  Several tasks run at once and share two
  flags: \<open>push_dirty\<close>, a pusher is owed, and \<open>push_waiting\<close>, a task waits to try again.  A task is its next
  atomic operation; a step of the system is one operation of one task, in any order.
\<close>

section \<open>Tasks\<close>

text \<open>A caller of \<open>sync_or_retry\<close>, and the waiter, each with the generation of its session.\<close>

datatype task =
    Call_Sync nat
  | Call_Reject nat
  | Call_Check nat
  | Call_Dirty nat
  | Call_Swap nat
  | Call_Spawn nat
  | Call_Undo nat
  | Wait_Running nat
  | Wait_Dirty nat
  | Wait_Session nat
  | Wait_Sync nat
  | Wait_Synced nat
  | Wait_Reject nat
  | Wait_Release nat
  | Wait_Redirty nat
  | Wait_Resession nat
  | Wait_Reswap nat

text \<open>What \<open>push_sync\<close> comes to: done (the debt is clears_debt if the session is still there), no client to do it
  with, refused, failed.\<close>

datatype sync_result = Synced | No_Client | Refused | Failing

text \<open>The phases of a teardown: the session's generation is taken, then every task is aborted and gone, then
  the flags are reset, one after the other.\<close>

datatype teardown_phase = Active nat | Moved | Aborted | Waiting_Reset | Idle

record retry_state =
  push_dirty :: bool
  push_waiting :: bool
  teardown_phase :: teardown_phase
  next_generation :: nat
  tasks :: "nat \<Rightarrow> task option"

definition current :: "retry_state \<Rightarrow> nat option" where
  "current s = (case teardown_phase s of Active g \<Rightarrow> Some g | _ \<Rightarrow> None)"

section \<open>Operations\<close>

fun is_waiter :: "task \<Rightarrow> bool" where
  "is_waiter (Wait_Running _) \<longleftrightarrow> True" | "is_waiter (Wait_Dirty _) \<longleftrightarrow> True" | "is_waiter (Wait_Session _) \<longleftrightarrow> True"
| "is_waiter (Wait_Sync _) \<longleftrightarrow> True" | "is_waiter (Wait_Synced _) \<longleftrightarrow> True" | "is_waiter (Wait_Reject _) \<longleftrightarrow> True"
| "is_waiter (Wait_Release _) \<longleftrightarrow> True" | "is_waiter (Wait_Redirty _) \<longleftrightarrow> True" | "is_waiter (Wait_Resession _) \<longleftrightarrow> True"
| "is_waiter (Wait_Reswap _) \<longleftrightarrow> True" | "is_waiter _ \<longleftrightarrow> False"

definition goes :: "nat \<Rightarrow> task \<Rightarrow> retry_state \<Rightarrow> retry_state" where
  "goes i t s = s\<lparr>tasks := (tasks s)(i \<mapsto> t)\<rparr>"

definition ends :: "nat \<Rightarrow> retry_state \<Rightarrow> retry_state" where
  "ends i s = s\<lparr>tasks := (tasks s)(i := None)\<rparr>"

definition clears_debt :: "sync_result \<Rightarrow> nat \<Rightarrow> retry_state \<Rightarrow> retry_state" where
  "clears_debt r g s = (if r = Synced \<and> current s = Some g then s\<lparr>push_dirty := False\<rparr> else s)"

text \<open>One operation of task \<open>i\<close>; the result is used where the task asks the homeserver.\<close>

fun operate :: "nat \<Rightarrow> sync_result \<Rightarrow> task \<Rightarrow> retry_state \<Rightarrow> retry_state" where
  "operate i r (Call_Sync g) s =
     (case r of Refused \<Rightarrow> goes i (Call_Reject g) s | Failing \<Rightarrow> goes i (Call_Check g) s | _ \<Rightarrow> ends i (clears_debt r g s))"
| "operate i r (Call_Reject g) s = ends i (s\<lparr>push_dirty := False\<rparr>)"
| "operate i r (Call_Check g) s = (if current s \<noteq> Some g then ends i s else goes i (Call_Dirty g) s)"
| "operate i r (Call_Dirty g) s = goes i (Call_Swap g) (s\<lparr>push_dirty := True\<rparr>)"
| "operate i r (Call_Swap g) s = (if push_waiting s then ends i s else goes i (Call_Spawn g) (s\<lparr>push_waiting := True\<rparr>))"
| "operate i r (Call_Spawn g) s = (if current s \<noteq> Some g then goes i (Call_Undo g) s else goes i (Wait_Running g) s)"
| "operate i r (Call_Undo g) s = ends i (s\<lparr>push_waiting := False\<rparr>)"
| "operate i r (Wait_Running g) s = goes i (Wait_Dirty g) s"
| "operate i r (Wait_Dirty g) s = (if \<not> push_dirty s then goes i (Wait_Release g) s else goes i (Wait_Session g) s)"
| "operate i r (Wait_Session g) s = (if current s \<noteq> Some g then ends i s else goes i (Wait_Sync g) s)"
| "operate i r (Wait_Sync g) s =
     (case r of Refused \<Rightarrow> goes i (Wait_Reject g) s | Failing \<Rightarrow> goes i (Wait_Running g) s
      | _ \<Rightarrow> goes i (Wait_Synced g) (clears_debt r g s))"
| "operate i r (Wait_Synced g) s = (if push_dirty s then goes i (Wait_Running g) s else goes i (Wait_Release g) s)"
| "operate i r (Wait_Reject g) s = goes i (Wait_Release g) (s\<lparr>push_dirty := False\<rparr>)"
| "operate i r (Wait_Release g) s = goes i (Wait_Redirty g) (s\<lparr>push_waiting := False\<rparr>)"
| "operate i r (Wait_Redirty g) s = (if \<not> push_dirty s then ends i s else goes i (Wait_Resession g) s)"
| "operate i r (Wait_Resession g) s = (if current s \<noteq> Some g then ends i s else goes i (Wait_Reswap g) s)"
| "operate i r (Wait_Reswap g) s = (if push_waiting s then ends i s else goes i (Wait_Running g) (s\<lparr>push_waiting := True\<rparr>))"

text \<open>A session starts; a task of a session that was there calls \<open>sync_or_retry\<close>; a task operates; the
  teardown goes on.\<close>

datatype move = Session_Starts | Called nat nat | Operates nat sync_result | Tears_Down

fun moves :: "move \<Rightarrow> retry_state \<Rightarrow> retry_state" where
  "moves Session_Starts s =
     (if teardown_phase s = Idle then s\<lparr>teardown_phase := Active (next_generation s), next_generation := next_generation s + 1\<rparr> else s)"
| "moves (Called i g) s = (if tasks s i = None \<and> g < next_generation s then goes i (Call_Sync g) s else s)"
| "moves (Operates i r) s = (case tasks s i of None \<Rightarrow> s | Some t \<Rightarrow> operate i r t s)"
| "moves Tears_Down s =
     (case teardown_phase s of
        Active g \<Rightarrow> s\<lparr>teardown_phase := Moved\<rparr>
      | Moved \<Rightarrow> s\<lparr>teardown_phase := Aborted, tasks := (\<lambda>i. case tasks s i of None \<Rightarrow> None | Some t \<Rightarrow> if is_waiter t then None else Some t)\<rparr>
      | Aborted \<Rightarrow> s\<lparr>teardown_phase := Waiting_Reset, push_waiting := False\<rparr>
      | Waiting_Reset \<Rightarrow> s\<lparr>teardown_phase := Idle, push_dirty := False\<rparr>
      | Idle \<Rightarrow> s)"

definition at_rest :: retry_state where
  "at_rest = \<lparr>push_dirty = False, push_waiting = False, teardown_phase = Idle, next_generation = 0, tasks = Map.empty\<rparr>"

text \<open>A caller between its look at the generation and the end of \<open>retry_on_running\<close>, which waits for nothing.\<close>

fun midway :: "task \<Rightarrow> bool" where
  "midway (Call_Dirty _) \<longleftrightarrow> True" | "midway (Call_Swap _) \<longleftrightarrow> True" | "midway (Call_Spawn _) \<longleftrightarrow> True"
| "midway (Call_Undo _) \<longleftrightarrow> True" | "midway _ \<longleftrightarrow> False"

text \<open>A proviso of the property below, not a part of the program: no caller is midway when a teardown, which has taken the
  generation, aborted the tasks and waited for them, resets the flags.  Whoever was midway when the generation was
  taken has come to its end by then.\<close>

definition calm_move :: "move \<Rightarrow> retry_state \<Rightarrow> bool" where
  "calm_move m s \<longleftrightarrow> (m = Tears_Down \<and> teardown_phase s = Aborted \<longrightarrow> (\<forall>i t. tasks s i = Some t \<longrightarrow> \<not> midway t))"

inductive calm_run :: "retry_state \<Rightarrow> bool" where
  calm_start: "calm_run at_rest"
| calm_next: "calm_run s \<Longrightarrow> calm_move m s \<Longrightarrow> calm_run (moves m s)"

section \<open>The invariant\<close>

fun generation_of :: "task \<Rightarrow> nat" where
  "generation_of (Call_Sync g) = g" | "generation_of (Call_Reject g) = g" | "generation_of (Call_Check g) = g"
| "generation_of (Call_Dirty g) = g" | "generation_of (Call_Swap g) = g" | "generation_of (Call_Spawn g) = g"
| "generation_of (Call_Undo g) = g" | "generation_of (Wait_Running g) = g" | "generation_of (Wait_Dirty g) = g"
| "generation_of (Wait_Session g) = g" | "generation_of (Wait_Sync g) = g" | "generation_of (Wait_Synced g) = g"
| "generation_of (Wait_Reject g) = g" | "generation_of (Wait_Release g) = g" | "generation_of (Wait_Redirty g) = g"
| "generation_of (Wait_Resession g) = g" | "generation_of (Wait_Reswap g) = g"

text \<open>The task that holds the flag \<open>push_waiting\<close>.\<close>

fun holder :: "task \<Rightarrow> bool" where
  "holder (Call_Spawn _) \<longleftrightarrow> True" | "holder (Wait_Running _) \<longleftrightarrow> True" | "holder (Wait_Dirty _) \<longleftrightarrow> True"
| "holder (Wait_Session _) \<longleftrightarrow> True" | "holder (Wait_Sync _) \<longleftrightarrow> True" | "holder (Wait_Synced _) \<longleftrightarrow> True"
| "holder (Wait_Reject _) \<longleftrightarrow> True" | "holder (Wait_Release _) \<longleftrightarrow> True" | "holder _ \<longleftrightarrow> False"

text \<open>A task that will look at the debt again, or take the flag.\<close>

fun mindful :: "task \<Rightarrow> bool" where
  "mindful (Call_Swap _) \<longleftrightarrow> True" | "mindful (Wait_Redirty _) \<longleftrightarrow> True" | "mindful (Wait_Resession _) \<longleftrightarrow> True"
| "mindful (Wait_Reswap _) \<longleftrightarrow> True" | "mindful t \<longleftrightarrow> holder t"

definition among :: "(task \<Rightarrow> bool) \<Rightarrow> task option \<Rightarrow> bool" where
  "among P x \<longleftrightarrow> (case x of None \<Rightarrow> False | Some t \<Rightarrow> P t)"

definition those :: "(task \<Rightarrow> bool) \<Rightarrow> retry_state \<Rightarrow> nat set" where
  "those P s = {i. among P (tasks s i)}"

definition one_flag :: "retry_state \<Rightarrow> bool" where
  "one_flag s \<longleftrightarrow> (if push_waiting s then \<exists>i. those holder s = {i} else those holder s = {})"

definition debt_minded :: "retry_state \<Rightarrow> bool" where
  "debt_minded s \<longleftrightarrow> (push_dirty s \<longrightarrow> those mindful s \<noteq> {})"

definition of_session :: "nat \<Rightarrow> retry_state \<Rightarrow> bool" where
  "of_session g s \<longleftrightarrow> (\<forall>i t. tasks s i = Some t \<longrightarrow> (is_waiter t \<or> midway t \<longrightarrow> generation_of t = g) \<and> t \<noteq> Call_Undo g)"

definition no_task :: "(task \<Rightarrow> bool) \<Rightarrow> retry_state \<Rightarrow> bool" where
  "no_task P s \<longleftrightarrow> (\<forall>i t. tasks s i = Some t \<longrightarrow> \<not> P t)"

definition retry_ok :: "retry_state \<Rightarrow> bool" where
  "retry_ok s \<longleftrightarrow>
     (\<forall>i t. tasks s i = Some t \<longrightarrow> generation_of t < next_generation s)
     \<and> (case teardown_phase s of
          Active g \<Rightarrow> g < next_generation s \<and> of_session g s \<and> one_flag s \<and> debt_minded s
        | Moved \<Rightarrow> True
        | Aborted \<Rightarrow> no_task is_waiter s
        | Waiting_Reset \<Rightarrow> no_task midway s \<and> no_task is_waiter s \<and> \<not> push_waiting s
        | Idle \<Rightarrow> no_task midway s \<and> no_task is_waiter s \<and> \<not> push_waiting s \<and> \<not> push_dirty s)"

lemma goes_simps [simp]:
  "push_dirty (goes i t s) = push_dirty s" "push_waiting (goes i t s) = push_waiting s" "teardown_phase (goes i t s) = teardown_phase s"
  "next_generation (goes i t s) = next_generation s" "tasks (goes i t s) = (tasks s)(i \<mapsto> t)" "current (goes i t s) = current s"
  "push_dirty (ends i s) = push_dirty s" "push_waiting (ends i s) = push_waiting s" "teardown_phase (ends i s) = teardown_phase s"
  "next_generation (ends i s) = next_generation s" "tasks (ends i s) = (tasks s)(i := None)" "current (ends i s) = current s"
  by (simp_all add: goes_def ends_def current_def)

lemma clears_debt_simps [simp]:
  "push_waiting (clears_debt r g s) = push_waiting s" "teardown_phase (clears_debt r g s) = teardown_phase s"
  "next_generation (clears_debt r g s) = next_generation s" "tasks (clears_debt r g s) = tasks s"
  "push_dirty (clears_debt r g s) \<longleftrightarrow> push_dirty s \<and> \<not> (r = Synced \<and> current s = Some g)"
  by (simp_all add: clears_debt_def)

text \<open>What one task's operation does to the invariant: it is enough to look at the task before and after.\<close>

lemma those_change:
  "tasks s' = (tasks s)(i := x) \<Longrightarrow> those P s' = (if among P x then insert i (those P s) else those P s - {i})"
  by (auto simp: those_def)

lemma among_simps [simp]: "among P None \<longleftrightarrow> False" "among P (Some t) \<longleftrightarrow> P t"
  by (simp_all add: among_def)

lemma in_those: "tasks s i = Some t \<Longrightarrow> i \<in> those P s \<longleftrightarrow> P t"
  by (simp add: those_def)

lemma holder_mindful: "those holder s \<subseteq> those mindful s"
proof -
  have "holder t \<Longrightarrow> mindful t" for t by (cases t) simp_all
  then show ?thesis by (auto simp: those_def among_def split: option.splits)
qed

lemma one_flag_change:
  assumes "one_flag s" and "tasks s i = Some t" and "tasks s' = (tasks s)(i := x)"
    and "if among holder x then push_waiting s' \<and> (holder t \<or> \<not> push_waiting s)
      else push_waiting s' \<longleftrightarrow> push_waiting s \<and> \<not> holder t"
  shows "one_flag s'"
  using assms(1,4) in_those [OF assms(2), of holder] those_change [OF assms(3), of holder]
  unfolding one_flag_def by (auto split: if_splits)

lemma debt_change:
  assumes "debt_minded s" and "one_flag s" and "tasks s i = Some t" and "tasks s' = (tasks s)(i := x)"
    and "push_dirty s' \<Longrightarrow> among mindful x \<or> push_dirty s \<and> \<not> mindful t \<or> push_waiting s \<and> \<not> holder t"
  shows "debt_minded s'"
  unfolding debt_minded_def
proof
  assume "push_dirty s'"
  from assms(5) [OF this] have "among mindful x \<or> (\<exists>j\<in>those mindful s. j \<noteq> i)"
    using assms(1,2) holder_mindful [of s] in_those [OF assms(3), of holder] in_those [OF assms(3), of mindful] unfolding debt_minded_def one_flag_def by (auto split: if_splits)
  then show "those mindful s' \<noteq> {}" using those_change [OF assms(4), of mindful] by auto
qed

lemma of_session_change:
  assumes "of_session g s" and "tasks s' = (tasks s)(i := x)"
    and "\<And>t. x = Some t \<Longrightarrow> (is_waiter t \<or> midway t \<longrightarrow> generation_of t = g) \<and> t \<noteq> Call_Undo g"
  shows "of_session g s'"
  using assms unfolding of_session_def by (auto split: if_splits)

section \<open>Every step keeps it\<close>

lemma operate_tasks: "tasks (operate i r t s) = (tasks s)(i := tasks (operate i r t s) i)"
  by (cases t; cases r) auto

lemma operate_frame: "teardown_phase (operate i r t s) = teardown_phase s" "next_generation (operate i r t s) = next_generation s"
    "tasks (operate i r t s) i = Some t' \<Longrightarrow> generation_of t' = generation_of t"
  by (cases t; cases r; auto split: if_splits)+

lemma operate_session:
  assumes "of_session g s" and "current s = Some g" and "tasks s i = Some t"
  shows "of_session g (operate i r t s)"
proof (rule of_session_change [OF assms(1) operate_tasks])
  fix t'
  have t: "(is_waiter t \<or> midway t \<longrightarrow> generation_of t = g) \<and> t \<noteq> Call_Undo g" using assms(1,3) by (auto simp: of_session_def)
  assume "tasks (operate i r t s) i = Some t'"
  then show "(is_waiter t' \<or> midway t' \<longrightarrow> generation_of t' = g) \<and> t' \<noteq> Call_Undo g"
    using t assms(2) by (cases t; cases r) (auto split: if_splits)
qed

lemma operate_flag:
  assumes "one_flag s" and "of_session g s" and "current s = Some g" and "tasks s i = Some t"
  shows "one_flag (operate i r t s)"
proof (rule one_flag_change [OF assms(1,4) operate_tasks])
  have t: "(is_waiter t \<or> midway t \<longrightarrow> generation_of t = g) \<and> t \<noteq> Call_Undo g" using assms(2,4) by (auto simp: of_session_def)
  have w: "holder t \<Longrightarrow> push_waiting s" using assms(1,4) in_those [OF assms(4), of holder] by (auto simp: one_flag_def split: if_splits)
  show "if among holder (tasks (operate i r t s) i) then push_waiting (operate i r t s) \<and> (holder t \<or> \<not> push_waiting s)
      else push_waiting (operate i r t s) \<longleftrightarrow> push_waiting s \<and> \<not> holder t"
    using t w assms(3) by (cases t; cases r) (auto split: if_splits)
qed

lemma operate_debt:
  assumes "debt_minded s" and "one_flag s" and "of_session g s" and "current s = Some g" and "tasks s i = Some t"
  shows "debt_minded (operate i r t s)"
proof (rule debt_change [OF assms(1,2,5) operate_tasks])
  have t: "(is_waiter t \<or> midway t \<longrightarrow> generation_of t = g) \<and> t \<noteq> Call_Undo g" using assms(3,5) by (auto simp: of_session_def)
  assume "push_dirty (operate i r t s)"
  then show "among mindful (tasks (operate i r t s) i) \<or> push_dirty s \<and> \<not> mindful t \<or> push_waiting s \<and> \<not> holder t"
    using t assms(4) by (cases t; cases r) (auto split: if_splits)
qed

lemma operate_outside:
  assumes "\<And>g. teardown_phase s \<noteq> Active g" and "tasks s i = Some t" and "tasks (operate i r t s) i = Some t'"
  shows "\<not> midway t \<Longrightarrow> \<not> midway t'" and "\<not> is_waiter t \<Longrightarrow> \<not> is_waiter t'"
proof -
  have "current s = None" using assms(1) by (auto simp: current_def split: teardown_phase.split)
  then show "\<not> midway t \<Longrightarrow> \<not> midway t'" "\<not> is_waiter t \<Longrightarrow> \<not> is_waiter t'"
    using assms by (cases t; cases r; auto split: if_splits)+
qed

lemma operate_quiet:
  assumes "\<not> midway t" and "\<not> is_waiter t"
  shows "push_waiting (operate i r t s) = push_waiting s" and "push_dirty (operate i r t s) \<Longrightarrow> push_dirty s"
  using assms by (cases t; cases r; auto split: if_splits)+

lemma current_active: "current s = Some g \<longleftrightarrow> teardown_phase s = Active g"
  by (auto simp: current_def split: teardown_phase.split)

lemma no_task_operate:
  assumes "no_task P s" and "tasks s i = Some t" and "\<And>t'. tasks (operate i r t s) i = Some t' \<Longrightarrow> \<not> P t'"
  shows "no_task P (operate i r t s)"
  using assms unfolding no_task_def by (subst operate_tasks) auto

lemma retry_ok_operates:
  assumes "retry_ok s" and "tasks s i = Some t"
  shows "retry_ok (operate i r t s)"
proof -
  have t: "no_task midway s \<Longrightarrow> \<not> midway t" "no_task is_waiter s \<Longrightarrow> \<not> is_waiter t" using assms(2) by (auto simp: no_task_def)
  have gens: "\<forall>j u. tasks (operate i r t s) j = Some u \<longrightarrow> generation_of u < next_generation s"
    using assms operate_frame(3) [of i r t s] unfolding retry_ok_def by (subst operate_tasks) auto
  show ?thesis
  proof (cases "teardown_phase s")
    case (Active g)
    with assms(1) have ok: "g < next_generation s" "of_session g s" "one_flag s" "debt_minded s" by (simp_all add: retry_ok_def)
    from Active have "current s = Some g" by (simp add: current_active)
    with ok assms(2) operate_session operate_flag operate_debt show ?thesis
      using gens Active by (auto simp: retry_ok_def operate_frame)
  next
    case Moved
    with gens show ?thesis by (simp add: retry_ok_def operate_frame)
  next
    case Aborted
    with assms(1) have ok: "no_task is_waiter s" by (simp add: retry_ok_def)
    have "no_task is_waiter (operate i r t s)"
      by (rule no_task_operate [OF ok assms(2)]) (use operate_outside(2) [OF _ assms(2)] t(2) [OF ok] Aborted in auto)
    with Aborted gens show ?thesis by (simp add: retry_ok_def operate_frame)
  next
    case Waiting_Reset
    with assms(1) have ok: "no_task midway s" "no_task is_waiter s" "\<not> push_waiting s" by (simp_all add: retry_ok_def)
    note tt = t(1) [OF ok(1)] t(2) [OF ok(2)]
    have "no_task midway (operate i r t s)" "no_task is_waiter (operate i r t s)"
      by (rule no_task_operate [OF ok(1) assms(2)], use operate_outside(1) [OF _ assms(2)] tt Waiting_Reset in auto)
         (rule no_task_operate [OF ok(2) assms(2)], use operate_outside(2) [OF _ assms(2)] tt Waiting_Reset in auto)
    with Waiting_Reset gens ok(3) operate_quiet [OF tt] show ?thesis by (simp add: retry_ok_def operate_frame)
  next
    case Idle
    with assms(1) have ok: "no_task midway s" "no_task is_waiter s" "\<not> push_waiting s" "\<not> push_dirty s" by (simp_all add: retry_ok_def)
    note tt = t(1) [OF ok(1)] t(2) [OF ok(2)]
    have "no_task midway (operate i r t s)" "no_task is_waiter (operate i r t s)"
      by (rule no_task_operate [OF ok(1) assms(2)], use operate_outside(1) [OF _ assms(2)] tt Idle in auto)
         (rule no_task_operate [OF ok(2) assms(2)], use operate_outside(2) [OF _ assms(2)] tt Idle in auto)
    with Idle gens ok(3,4) operate_quiet [OF tt] show ?thesis by (auto simp: retry_ok_def operate_frame)
  qed
qed

lemma holder_kind: "holder t \<Longrightarrow> is_waiter t \<or> midway t" "mindful t \<Longrightarrow> is_waiter t \<or> midway t"
  by (cases t; simp)+

lemma no_holder: "no_task midway s \<Longrightarrow> no_task is_waiter s \<Longrightarrow> those holder s = {}"
  using holder_kind(1) unfolding those_def among_def no_task_def by (auto split: option.splits) blast

lemma no_undo: "no_task midway s \<Longrightarrow> tasks s i \<noteq> Some (Call_Undo g)"
  unfolding no_task_def by (metis midway.simps(4))

lemma retry_ok_step: "retry_ok s \<Longrightarrow> calm_move m s \<Longrightarrow> retry_ok (moves m s)"
proof (cases m)
  case Session_Starts
  moreover assume "retry_ok s"
  ultimately show ?thesis
    using no_holder [of s] no_undo [of s]
    by (auto simp: retry_ok_def of_session_def one_flag_def debt_minded_def no_task_def those_def less_SucI)
next
  case (Called i g)
  moreover assume ok: "retry_ok s"
  moreover have "those P (goes i (Call_Sync g) s) = those P s" if "tasks s i = None" "\<not> P (Call_Sync g)" for P
    using that by (auto simp: those_def)
  ultimately show ?thesis
    by (auto simp: retry_ok_def of_session_def one_flag_def debt_minded_def no_task_def split: teardown_phase.splits)
next
  case (Operates i r)
  moreover assume "retry_ok s"
  ultimately show ?thesis by (auto intro: retry_ok_operates split: option.split)
next
  case Tears_Down
  moreover assume "retry_ok s" "calm_move m s"
  ultimately show ?thesis
    by (cases "teardown_phase s") (auto simp: retry_ok_def calm_move_def no_task_def split: option.splits if_splits)
qed

lemma calm_ok: "calm_run s \<Longrightarrow> retry_ok s"
  by (induction rule: calm_run.induct) (auto simp: retry_ok_step, simp add: retry_ok_def at_rest_def no_task_def)

section \<open>No debt without a waiter\<close>

text \<open>C14: A pusher that could not be set is not forgotten: through sessions one after the other, with any number of callers and the waiting
  task interleaving operation by operation, while a session lasts there is at most one task that waits to try
  again, and whenever a debt is noted some task of this session waits, or looks at the debt once more before it ends,
  or is about to wait - so a debt noted while the waiting task was on its way out is taken up.  The
  proviso (\<open>calm_run\<close>): a caller that a teardown found between its look at the generation and the end of
  \<open>retry_on_running\<close>, a stretch of code that waits for nothing, has come to its end by the time the teardown
  resets the flags.  Without it the claim fails (\<open>stale_claim_hides_debt\<close>).\<close>

theorem no_debt_without_waiter:
  assumes "calm_run s" and "current s = Some g"
  shows "(push_dirty s \<longrightarrow> (\<exists>i t. tasks s i = Some t \<and> generation_of t = g
            \<and> (is_waiter t \<or> t = Call_Swap g \<or> t = Call_Spawn g)))
    \<and> (\<forall>i j t u. tasks s i = Some t \<and> holder t \<and> tasks s j = Some u \<and> holder u \<longrightarrow> i = j)"
proof -
  have ok: "of_session g s" "one_flag s" "debt_minded s"
    using calm_ok [OF assms(1)] assms(2) by (auto simp: retry_ok_def current_active)
  have "\<exists>i t. tasks s i = Some t \<and> generation_of t = g \<and> (is_waiter t \<or> t = Call_Swap g \<or> t = Call_Spawn g)" if dirty: "push_dirty s"
  proof -
    from ok(3) dirty obtain i t where t: "tasks s i = Some t" "mindful t"
      by (auto simp: debt_minded_def those_def among_def split: option.splits)
    with ok(1) holder_kind(2) have g: "generation_of t = g" "t \<noteq> Call_Undo g" by (auto simp: of_session_def)
    from t(2) g have "is_waiter t \<or> t = Call_Swap g \<or> t = Call_Spawn g" by (cases t) auto
    with t(1) g(1) show ?thesis by blast
  qed
  moreover have "i = j" if "tasks s i = Some t" "holder t" "tasks s j = Some u" "holder u" for i j t u
    using ok(2) that in_those [of s i t holder] in_those [of s j u holder] by (auto simp: one_flag_def split: if_splits)
  ultimately show ?thesis by blast
qed

fun plays :: "move list \<Rightarrow> retry_state \<Rightarrow> retry_state" where
  "plays [] s = s"
| "plays (m # ms) s = plays ms (moves m s)"

text \<open>Two callers fail; the first waits, the second finds it waiting.\<close>

definition two_failures :: "move list" where
  "two_failures = [Session_Starts, Called 0 0, Called 1 0, Operates 0 Failing, Operates 1 Failing, Operates 0 Failing,
     Operates 0 Failing, Operates 0 Failing, Operates 0 Failing, Operates 1 Failing, Operates 1 Failing, Operates 1 Failing]"

lemma calm_plays: "calm_run s \<Longrightarrow> Tears_Down \<notin> set ms \<Longrightarrow> calm_run (plays ms s)"
proof (induction ms arbitrary: s)
  case (Cons m ms)
  moreover have "calm_move m s" using Cons.prems(2) by (cases m) (auto simp: calm_move_def)
  ultimately show ?case using calm_next by simp
qed simp

lemma no_debt_without_waiter_witness:
  "\<exists>s :: retry_state. push_dirty s \<and> (\<exists>i t. tasks s i = Some t \<and> generation_of t = 0 \<and> (is_waiter t \<or> t = Call_Swap 0 \<or> t = Call_Spawn 0))"
proof -
  have "calm_run (plays two_failures at_rest)" by (rule calm_plays) (simp_all add: calm_start two_failures_def)
  moreover have "push_dirty (plays two_failures at_rest)" "current (plays two_failures at_rest) = Some 0"
    by (simp_all add: two_failures_def at_rest_def current_def goes_def ends_def)
  ultimately show ?thesis
    using no_debt_without_waiter [of "plays two_failures at_rest" 0] by (intro exI [of _ "plays two_failures at_rest"]) simp
qed

text \<open>A caller of a session that is gone, between its claim of the flag and the refusal of its task, hides the
  flag from the next session: that one's caller notes its debt, sees a task waiting, and leaves; then the flag
  is taken back, and nobody waits.\<close>

definition stale_claim :: "move list" where
  "stale_claim =
     [Session_Starts, Called 0 0, Operates 0 Failing, Operates 0 Failing,
      Tears_Down, Tears_Down, Tears_Down, Tears_Down, Session_Starts,
      Operates 0 Failing, Operates 0 Failing,
      Called 1 1, Operates 1 Failing, Operates 1 Failing, Operates 1 Failing, Operates 1 Failing,
      Operates 0 Failing, Operates 0 Failing]"

theorem stale_claim_hides_debt:
  "(let s = plays stale_claim at_rest in current s = Some 1 \<and> push_dirty s \<and> \<not> push_waiting s \<and> tasks s = Map.empty)"
  by (simp add: stale_claim_def at_rest_def current_def goes_def ends_def Let_def fun_eq_iff)

end
