(* ===== verification/Calls.thy ===== *)
theory Calls
  imports Rust_Text "HOL-Library.AList"
begin

text \<open>
  \<open>src/core/src/call.rs\<close>: who may make this phone ring, how often, what an offer offers, and whom a call of
  one's own is bound to.  Instants are nanoseconds of the monotonic clock, times of events milliseconds.
\<close>

section \<open>What an offer offers\<close>

text \<open>\<open>str::lines\<close>: the pieces between line feeds, without a carriage return before one; what follows the last line feed
  only if it is not empty, and as it is.\<close>

definition chomp :: "str \<Rightarrow> str" where
  "chomp l = (if l \<noteq> [] \<and> last l = 13 then butlast l else l)"

definition rust_lines :: "str \<Rightarrow> str list" where
  "rust_lines s = (let ps = split_on ((=) 10) s in map chomp (butlast ps) @ (if last ps = [] then [] else [last ps]))"

definition trim_returns :: "str \<Rightarrow> str" where
  "trim_returns l = rev (dropWhile ((=) 13) (rev l))"

definition port_zero :: "str \<Rightarrow> bool" where
  "port_zero l = (case split_whitespace l of _ # port # _ \<Rightarrow> port = lit ''0'' | _ \<Rightarrow> False)"

fun scan_offer :: "str list \<Rightarrow> bool \<Rightarrow> bool \<Rightarrow> bool" where
  "scan_offer [] in_video zero \<longleftrightarrow> in_video \<and> \<not> zero"
| "scan_offer (l # ls) in_video zero \<longleftrightarrow>
     (if starts_with (lit ''m='') l then
        (if in_video \<and> \<not> zero then True
         else scan_offer ls (starts_with (lit ''m=video'') l) (starts_with (lit ''m=video'') l \<and> port_zero l))
      else if in_video \<and> zero \<and> l = lit ''a=bundle-only'' then True
      else scan_offer ls in_video zero)"

definition offers_active_video :: "str \<Rightarrow> bool" where
  "offers_active_video sdp \<longleftrightarrow> scan_offer (map trim_returns (rust_lines sdp)) False False"

section \<open>The policy\<close>

record call_policy =
  who :: str
  groups :: bool
  video :: bool
  flood :: bool
  allowed :: "str list"

definition default_policy :: call_policy where
  "default_policy = \<lparr>who = lit ''direct'', groups = False, video = False, flood = False, allowed = []\<rparr>"

record call_state =
  policy_set :: "call_policy option"
  last_ring :: "(str \<times> (nat \<times> str)) list"

definition no_calls :: call_state where
  "no_calls = \<lparr>policy_set = None, last_ring = []\<rparr>"

definition forget_state :: "call_state \<Rightarrow> call_state" where
  "forget_state s = no_calls"

definition set_policy :: "call_policy \<Rightarrow> call_state \<Rightarrow> call_state" where
  "set_policy p s = s\<lparr>policy_set := Some p\<rparr>"

definition policy :: "call_state \<Rightarrow> call_policy" where
  "policy s = (case policy_set s of None \<Rightarrow> default_policy | Some p \<Rightarrow> p)"

definition ring_interval :: nat where
  "ring_interval = secs 10"

definition ring_is_due :: "nat \<Rightarrow> str \<Rightarrow> str \<Rightarrow> bool \<Rightarrow> call_state \<Rightarrow> bool \<times> call_state" where
  "ring_is_due now sender call_id brake s =
     (case map_of (last_ring s) sender of
        Some (last_at, last_call) \<Rightarrow>
          if last_call = call_id then (False, s)
          else if brake \<and> now - last_at < ring_interval then (False, s)
          else (True, s\<lparr>last_ring := AList.update sender (now, call_id) (last_ring s)\<rparr>)
      | None \<Rightarrow> (True, s\<lparr>last_ring := AList.update sender (now, call_id) (last_ring s)\<rparr>))"

record call_room =
  room_id :: str
  active_members :: nat
  direct_targets :: "str list"

definition may_ring :: "call_policy \<Rightarrow> str \<Rightarrow> call_room \<Rightarrow> bool" where
  "may_ring p sender room \<longleftrightarrow>
     (if \<not> groups p \<and> active_members room > 2 then False
      else if sender \<in> set (allowed p) then True
      else if who p = lit ''all'' then True
      else if who p = lit ''list'' then False
      else direct_targets room \<noteq> [])"

section \<open>An invitation arrives\<close>

record invitation =
  inv_sender :: str
  inv_sent :: nat
  inv_lifetime :: nat
  inv_call :: str
  inv_sdp :: str

definition clock_skew_ms :: nat where
  "clock_skew_ms = 5 * 60 * 1000"

datatype emitted =
    Call_Blocked str str
  | Media_Lines "str list"
  | Call_Invite str str str bool bool nat

definition on_invite :: "str \<Rightarrow> nat \<Rightarrow> nat \<Rightarrow> call_room \<Rightarrow> invitation \<Rightarrow> call_state \<Rightarrow> emitted list \<times> call_state" where
  "on_invite own now_ms now room ev s =
     (if inv_sender ev = own then ([], s)
      else if now_ms - inv_sent ev > inv_lifetime ev + clock_skew_ms then ([], s)
      else if \<not> may_ring (policy s) (inv_sender ev) room then ([Call_Blocked (lit ''policy'') (room_id room)], s)
      else
        (let (due, s) = ring_is_due now (inv_sender ev) (inv_call ev) (flood (policy s)) s
         in if \<not> due then ([Call_Blocked (lit ''repeat'') (room_id room)], s)
            else
              (let offers = offers_active_video (inv_sdp ev)
               in ([Media_Lines (filter (starts_with (lit ''m='')) (rust_lines (inv_sdp ev))),
                    Call_Invite (room_id room) (inv_sender ev) (inv_call ev) (offers \<and> video (policy s)) offers
                      (now_ms - inv_sent ev)], s))))"

section \<open>A call of one's own\<close>

definition place_call :: "call_policy \<Rightarrow> call_room \<Rightarrow> bool \<Rightarrow> str list option \<Rightarrow> str \<Rightarrow> str + str option" where
  "place_call p room sent joined own =
     (if \<not> groups p \<and> active_members room > 2 then Inl (lit ''calls in group rooms are switched off'')
      else if \<not> sent then Inl (lit ''could not place the call'')
      else Inr (case joined of
                  None \<Rightarrow> None
                | Some members \<Rightarrow>
                    (case filter (\<lambda>u. u \<noteq> own) members of [other] \<Rightarrow> Some other | _ \<Rightarrow> None)))"

text \<open>What the events of a running call become; one's own are another device's.\<close>

datatype signal = Answer | Candidates | Hangup | Reject | Select_Answer

datatype signalled = Answered_Elsewhere bool | Is_Answer | Are_Candidates | Is_Hangup bool | Is_Selection

definition on_signal :: "bool \<Rightarrow> signal \<Rightarrow> signalled option" where
  "on_signal own sg =
     (case sg of
        Answer \<Rightarrow> if own then Some (Answered_Elsewhere False) else Some Is_Answer
      | Candidates \<Rightarrow> if own then None else Some Are_Candidates
      | Hangup \<Rightarrow> if own then None else Some (Is_Hangup False)
      | Reject \<Rightarrow> if own then Some (Answered_Elsewhere True) else Some (Is_Hangup True)
      | Select_Answer \<Rightarrow> if own then None else Some Is_Selection)"

section \<open>Who rings\<close>

definition rings :: "emitted list \<Rightarrow> bool" where
  "rings out \<longleftrightarrow> list_ex (\<lambda>e. case e of Call_Invite _ _ _ _ _ _ \<Rightarrow> True | _ \<Rightarrow> False) out"

definition admitted :: "call_policy \<Rightarrow> str \<Rightarrow> call_room \<Rightarrow> bool" where
  "admitted p sender room \<longleftrightarrow> (groups p \<or> active_members room \<le> 2)
     \<and> (sender \<in> set (allowed p) \<or> who p = lit ''all'' \<or> who p \<noteq> lit ''list'' \<and> direct_targets room \<noteq> [])"

lemma may_ring_iff: "may_ring p sender room \<longleftrightarrow> admitted p sender room"
  by (auto simp: may_ring_def admitted_def str_simps)

definition due :: "nat \<Rightarrow> str \<Rightarrow> str \<Rightarrow> bool \<Rightarrow> call_state \<Rightarrow> bool" where
  "due now sender call_id brake s \<longleftrightarrow>
     (\<forall>at last_call. map_of (last_ring s) sender = Some (at, last_call) \<longrightarrow> last_call \<noteq> call_id \<and> \<not> (brake \<and> now - at < ring_interval))"

lemma ring_is_due_iff: "fst (ring_is_due now sender call_id brake s) \<longleftrightarrow> due now sender call_id brake s"
  by (auto simp: ring_is_due_def due_def split: option.split)

lemma ring_is_due_state:
  "snd (ring_is_due now sender call_id brake s) =
     (if due now sender call_id brake s then s\<lparr>last_ring := AList.update sender (now, call_id) (last_ring s)\<rparr> else s)"
  by (auto simp: ring_is_due_def due_def split: option.split)

lemma invite_rings:
  "rings (fst (on_invite own now_ms now room ev s)) \<longleftrightarrow>
     inv_sender ev \<noteq> own \<and> now_ms - inv_sent ev \<le> inv_lifetime ev + clock_skew_ms
     \<and> admitted (policy s) (inv_sender ev) room \<and> due now (inv_sender ev) (inv_call ev) (flood (policy s)) s"
  using ring_is_due_iff [of now "inv_sender ev" "inv_call ev" "flood (policy s)" s] may_ring_iff [of "policy s" "inv_sender ev" room]
  by (auto simp: on_invite_def rings_def policy_def Let_def split: prod.split if_splits)

lemma invite_ring_of:
  "Call_Invite r u c v off a \<in> set (fst (on_invite own now_ms now room ev s)) \<Longrightarrow>
     u = inv_sender ev \<and> c = inv_call ev \<and> off = offers_active_video (inv_sdp ev) \<and> (v \<longrightarrow> off \<and> video (policy s))"
  using ring_is_due_state [of now "inv_sender ev" "inv_call ev" "flood (policy s)" s]
  by (auto simp: on_invite_def policy_def Let_def split: prod.splits if_splits)

text \<open>C38: The phone rings for an invitation exactly if it is another's, young enough by its own lifetime and
  five minutes of a wrong clock, from a caller the policy admits from that room, and due;
  in a room of more than two people it never rings unless calls there were allowed, not even for a caller on the list;
  and the camera is offered only if the offer has live video and the user wants video calls.\<close>

theorem rings_iff_admitted:
  "(rings (fst (on_invite own now_ms now room ev s)) \<longleftrightarrow>
      inv_sender ev \<noteq> own \<and> now_ms - inv_sent ev \<le> inv_lifetime ev + clock_skew_ms
      \<and> admitted (policy s) (inv_sender ev) room \<and> due now (inv_sender ev) (inv_call ev) (flood (policy s)) s)
   \<and> (\<forall>r u c v off a. Call_Invite r u c v off a \<in> set (fst (on_invite own now_ms now room ev s)) \<longrightarrow>
        u = inv_sender ev \<and> c = inv_call ev \<and> off = offers_active_video (inv_sdp ev) \<and> (v \<longrightarrow> off \<and> video (policy s)))"
  by (rule conjI, rule invite_rings, intro allI impI, rule invite_ring_of)

lemma rings_iff_admitted_witness:
  "rings (fst (on_invite (lit ''@me:x'') 1000 0 \<lparr>room_id = lit ''!r:x'', active_members = 2, direct_targets = [lit ''@b:x'']\<rparr>
     \<lparr>inv_sender = lit ''@b:x'', inv_sent = 1000, inv_lifetime = 60000, inv_call = lit ''1'', inv_sdp = []\<rparr> no_calls))"
  by (simp add: rings_iff_admitted [THEN conjunct1] due_def admitted_def policy_def no_calls_def default_policy_def clock_skew_ms_def lit_def)

section \<open>How often\<close>

datatype call_event = Invited nat nat call_room invitation | Policy_Set call_policy

text \<open>The rings of a history: caller, call and instant.\<close>

fun rung :: "str \<Rightarrow> call_event list \<Rightarrow> call_state \<Rightarrow> (str \<times> str \<times> nat) list" where
  "rung own [] s = []"
| "rung own (Invited now_ms now room ev # evs) s =
     (let (out, s') = on_invite own now_ms now room ev s
      in (if rings out then [(inv_sender ev, inv_call ev, now)] else []) @ rung own evs s')"
| "rung own (Policy_Set p # evs) s = rung own evs (set_policy p s)"

definition rings_of :: "str \<Rightarrow> (str \<times> str \<times> nat) list \<Rightarrow> (str \<times> nat) list" where
  "rings_of u rs = map snd (filter (\<lambda>r. fst r = u) rs)"

definition apart :: "bool \<Rightarrow> str \<times> nat \<Rightarrow> str \<times> nat \<Rightarrow> bool" where
  "apart brake r r' \<longleftrightarrow> fst r \<noteq> fst r' \<and> (brake \<longrightarrow> snd r + ring_interval \<le> snd r')"

definition braked :: "call_event list \<Rightarrow> call_state \<Rightarrow> bool" where
  "braked evs s \<longleftrightarrow> flood (policy s) \<and> list_all (\<lambda>e. case e of Policy_Set p \<Rightarrow> flood p | _ \<Rightarrow> True) evs"

lemma on_invite_state:
  "snd (on_invite own now_ms now room ev s) =
     (if rings (fst (on_invite own now_ms now room ev s))
      then s\<lparr>last_ring := AList.update (inv_sender ev) (now, inv_call ev) (last_ring s)\<rparr> else s)"
  using ring_is_due_iff [of now "inv_sender ev" "inv_call ev" "flood (policy s)" s]
    ring_is_due_state [of now "inv_sender ev" "inv_call ev" "flood (policy s)" s]
  by (auto simp: on_invite_def rings_def Let_def split: prod.split if_splits)

lemma due_apart:
  assumes "due now u c (flood (policy s)) s" and "map_of (last_ring s) u = Some (at, c')" and "brake \<Longrightarrow> flood (policy s)"
  shows "apart brake (c', at) (c, now)"
  using assms by (auto simp: due_def apart_def ring_interval_def secs_def)

lemma braked_policy: "braked (Policy_Set p # evs) s \<Longrightarrow> braked evs (set_policy p s)"
  unfolding braked_def policy_def set_policy_def by simp

lemma braked_invited: "braked (Invited now_ms now room i # evs) s \<Longrightarrow> policy_set s' = policy_set s \<Longrightarrow> braked evs s'"
  unfolding braked_def policy_def by simp

lemma rings_apart:
  assumes "brake \<Longrightarrow> braked evs s"
  shows "successively (apart brake)
    ((case map_of (last_ring s) u of None \<Rightarrow> [] | Some (at, c) \<Rightarrow> [(c, at)]) @ rings_of u (rung own evs s))"
  using assms
proof (induction evs arbitrary: s)
  case Nil
  then show ?case by (simp add: rings_of_def split: option.split)
next
  case (Cons ev evs)
  show ?case
  proof (cases ev)
    case (Policy_Set p)
    have "braked evs (set_policy p s)" if "brake"
      using Cons.prems [OF that] unfolding Policy_Set by (rule braked_policy)
    from Cons.IH [OF this] Policy_Set show ?thesis by (simp add: set_policy_def)
  next
    case (Invited now_ms now room i)
    define s' where "s' = snd (on_invite own now_ms now room i s)"
    have s': "s' = (if rings (fst (on_invite own now_ms now room i s))
      then s\<lparr>last_ring := AList.update (inv_sender i) (now, inv_call i) (last_ring s)\<rparr> else s)"
      unfolding s'_def by (rule on_invite_state)
    have "policy_set s' = policy_set s" by (simp add: s')
    then have b: "brake \<Longrightarrow> braked evs s'" using Cons.prems braked_invited unfolding Invited by blast
    have lr: "map_of (last_ring s') u = (if rings (fst (on_invite own now_ms now room i s)) \<and> inv_sender i = u
        then Some (now, inv_call i) else map_of (last_ring s) u)"
      by (simp add: s' update_conv')
    note IH = Cons.IH [OF b, unfolded lr]
    have eq: "rung own (ev # evs) s = (if rings (fst (on_invite own now_ms now room i s)) then [(inv_sender i, inv_call i, now)] else [])
        @ rung own evs s'"
      by (simp add: Invited s'_def split: prod.split)
    show ?thesis
    proof (cases "rings (fst (on_invite own now_ms now room i s)) \<and> inv_sender i = u")
      case True
      with invite_rings [of own now_ms now room i s] have due: "due now u (inv_call i) (flood (policy s)) s" by simp
      from True IH have "successively (apart brake) ((inv_call i, now) # rings_of u (rung own evs s'))"
        by simp
      moreover have "apart brake (c', at) (inv_call i, now)" if "map_of (last_ring s) u = Some (at, c')" for at c'
        by (rule due_apart [OF due that]) (use Cons.prems in \<open>simp add: braked_def\<close>)
      ultimately show ?thesis using True by (simp add: eq rings_of_def split: option.split)
    next
      case False
      with IH have "successively (apart brake)
        ((case map_of (last_ring s) u of None \<Rightarrow> [] | Some (at, c) \<Rightarrow> [(c, at)]) @ rings_of u (rung own evs s'))"
        by (simp only: if_False)
      with False show ?thesis by (auto simp: eq rings_of_def)
    qed
  qed
qed

text \<open>C39: No caller rings this phone again with the invitation it has just rung with, however often it arrives; and while the brake
  is wanted, two rings of one caller are at least ten seconds apart, whatever calls and rooms they come from.\<close>

theorem callers_wait:
  assumes "brake \<Longrightarrow> braked evs (no_calls\<lparr>policy_set := p\<rparr>)"
  shows "successively (apart brake) (rings_of u (rung own evs (no_calls\<lparr>policy_set := p\<rparr>)))"
  using rings_apart [of brake evs "no_calls\<lparr>policy_set := p\<rparr>" u own] assms by (simp add: no_calls_def)

definition direct_room :: call_room where
  "direct_room = \<lparr>room_id = lit ''!r:x'', active_members = 2, direct_targets = [lit ''@b:x'']\<rparr>"

definition call_from :: "str \<Rightarrow> str \<Rightarrow> nat \<Rightarrow> call_event" where
  "call_from u c at = Invited 1000 at direct_room \<lparr>inv_sender = u, inv_sent = 1000, inv_lifetime = 60000, inv_call = c, inv_sdp = []\<rparr>"

lemma callers_wait_witness:
  "successively (apart True) (rings_of (lit ''@b:x'') (rung (lit ''@me:x'')
     [Policy_Set (default_policy\<lparr>flood := True\<rparr>), call_from (lit ''@b:x'') (lit ''1'') 0, call_from (lit ''@b:x'') (lit ''2'') (secs 3),
      call_from (lit ''@b:x'') (lit ''2'') (secs 11)] (no_calls\<lparr>policy_set := Some (default_policy\<lparr>flood := True\<rparr>)\<rparr>)))"
  by (rule callers_wait) (simp add: braked_def policy_def call_from_def)

text \<open>The history remembers one call of each caller: an invitation that is repeated after another call of the
  same caller rings a second time.\<close>

lemma repeated_call_rings_again:
  "rings_of (lit ''@b:x'') (rung (lit ''@me:x'')
     [call_from (lit ''@b:x'') (lit ''1'') 0, call_from (lit ''@b:x'') (lit ''2'') 1, call_from (lit ''@b:x'') (lit ''1'') 2] no_calls)
   = [(lit ''1'', 0), (lit ''2'', 1), (lit ''1'', 2)]"
  by code_simp

section \<open>Live video\<close>

definition is_media :: "str \<Rightarrow> bool" where
  "is_media l \<longleftrightarrow> starts_with (lit ''m='') l"

definition is_video :: "str \<Rightarrow> bool" where
  "is_video l \<longleftrightarrow> starts_with (lit ''m=video'') l"

text \<open>A video section that is live: its port is not zero, or the lines up to the next section say that
  it shares the transport of another.\<close>

definition live_section :: "str list \<Rightarrow> bool" where
  "live_section ls \<longleftrightarrow> (\<exists>pre v sec post. ls = pre @ v # sec @ post \<and> is_video v \<and> (\<forall>l\<in>set sec. \<not> is_media l)
     \<and> (post = [] \<or> is_media (hd post)) \<and> (\<not> port_zero v \<or> lit ''a=bundle-only'' \<in> set sec))"

lemma video_media: "is_video l \<Longrightarrow> is_media l"
  by (auto simp: is_video_def is_media_def starts_with_iff str_simps)

lemma bundle_not_media: "\<not> is_media (lit ''a=bundle-only'')"
  by (simp add: is_media_def str_simps)

definition section_of :: "str list \<Rightarrow> str list" where
  "section_of ls = takeWhile (\<lambda>l. \<not> is_media l) ls"

lemma live_section_Cons:
  "live_section (l # ls) \<longleftrightarrow> is_video l \<and> (\<not> port_zero l \<or> lit ''a=bundle-only'' \<in> set (section_of ls)) \<or> live_section ls"
proof
  assume "live_section (l # ls)"
  then obtain pre v sec post where s: "l # ls = pre @ v # sec @ post" "is_video v" "\<forall>l\<in>set sec. \<not> is_media l"
    "post = [] \<or> is_media (hd post)" "\<not> port_zero v \<or> lit ''a=bundle-only'' \<in> set sec" by (auto simp: live_section_def)
  show "is_video l \<and> (\<not> port_zero l \<or> lit ''a=bundle-only'' \<in> set (section_of ls)) \<or> live_section ls"
  proof (cases pre)
    case Nil
    with s have "section_of ls = sec" by (cases post) (auto simp: section_of_def takeWhile_append takeWhile_eq_all_conv)
    with Nil s show ?thesis by auto
  next
    case (Cons x pre')
    with s show ?thesis unfolding live_section_def by (intro disjI2) auto
  qed
next
  have cut: "post = [] \<or> is_media (hd post)" if "post = dropWhile (\<lambda>l. \<not> is_media l) ls" for post
    using that hd_dropWhile [of "\<lambda>l. \<not> is_media l" ls] by auto
  assume "is_video l \<and> (\<not> port_zero l \<or> lit ''a=bundle-only'' \<in> set (section_of ls)) \<or> live_section ls"
  then show "live_section (l # ls)"
  proof
    assume v: "is_video l \<and> (\<not> port_zero l \<or> lit ''a=bundle-only'' \<in> set (section_of ls))"
    show ?thesis
      unfolding live_section_def
      by (intro exI [of _ "[]"] exI [of _ l] exI [of _ "section_of ls"] exI [of _ "dropWhile (\<lambda>l. \<not> is_media l) ls"])
         (use v cut in \<open>auto simp: section_of_def dest: set_takeWhileD\<close>)
  next
    assume "live_section ls"
    then obtain pre v sec post where "ls = pre @ v # sec @ post" "is_video v" "\<forall>l\<in>set sec. \<not> is_media l"
      "post = [] \<or> is_media (hd post)" "\<not> port_zero v \<or> lit ''a=bundle-only'' \<in> set sec" by (auto simp: live_section_def)
    then show ?thesis unfolding live_section_def by (intro exI [of _ "l # pre"]) auto
  qed
qed

lemma scan_offer_eq:
  "scan_offer ls in_video zero \<longleftrightarrow> in_video \<and> (\<not> zero \<or> lit ''a=bundle-only'' \<in> set (section_of ls)) \<or> live_section ls"
proof (induction ls arbitrary: in_video zero)
  case Nil
  show ?case by (auto simp: live_section_def section_of_def)
next
  case (Cons l ls)
  show ?case
  proof (cases "is_media l")
    case True
    then have m: "starts_with (lit ''m='') l" "section_of (l # ls) = []" by (simp_all add: is_media_def section_of_def)
    have v: "starts_with (lit ''m=video'') l \<longleftrightarrow> is_video l" by (simp add: is_video_def)
    show ?thesis unfolding scan_offer.simps live_section_Cons v using m Cons.IH by auto
  next
    case False
    then have m: "\<not> starts_with (lit ''m='') l" "section_of (l # ls) = l # section_of ls" "\<not> is_video l"
      using video_media by (auto simp: is_media_def section_of_def)
    show ?thesis unfolding scan_offer.simps live_section_Cons using m Cons.IH by auto
  qed
qed

text \<open>An offer is taken to offer video exactly if it has a video section that is live.\<close>

theorem offers_iff_live: "offers_active_video sdp \<longleftrightarrow> live_section (map trim_returns (rust_lines sdp))"
  by (simp add: offers_active_video_def scan_offer_eq)

text \<open>A call of one's own goes out to a room of more than two people only if group calls were allowed, and
  may be answered by one named person only if that person is the one other who has joined.\<close>

theorem own_call_bound:
  assumes "place_call p room sent joined own = Inr who_answers"
  shows "(groups p \<or> active_members room \<le> 2) \<and> sent
    \<and> (\<forall>u. who_answers = Some u \<longrightarrow> (\<exists>members. joined = Some members \<and> u \<in> set members \<and> u \<noteq> own
          \<and> (\<forall>v\<in>set members. v = own \<or> v = u)))"
proof -
  have sole: "\<exists>members. joined = Some members \<and> u \<in> set members \<and> u \<noteq> own \<and> (\<forall>v\<in>set members. v = own \<or> v = u)"
    if "who_answers = Some u" for u
  proof -
    from assms that obtain members where m: "joined = Some members" "filter (\<lambda>v. v \<noteq> own) members = [u]"
      unfolding place_call_def by (auto split: if_splits option.splits list.splits)
    from m(2) have "set (filter (\<lambda>v. v \<noteq> own) members) = {u}" by simp
    with m(1) show ?thesis by auto
  qed
  from assms have "(groups p \<or> active_members room \<le> 2) \<and> sent" by (auto simp: place_call_def split: if_splits)
  with sole show ?thesis by blast
qed

lemma own_call_bound_witness:
  "place_call default_policy direct_room True (Some [lit ''@me:x'', lit ''@b:x'']) (lit ''@me:x'') = Inr (Some (lit ''@b:x''))
   \<and> (lit ''@b:x'') \<noteq> (lit ''@me:x'')"
proof -
  have p: "place_call default_policy direct_room True (Some [lit ''@me:x'', lit ''@b:x'']) (lit ''@me:x'') = Inr (Some (lit ''@b:x''))"
    by code_simp
  from own_call_bound [OF p] p show ?thesis by auto
qed

end
