(* ===== verification/Compose.thy ===== *)
theory Compose
  imports Markup_Grammar
begin

text \<open>
  \<open>src/core/src/compose.rs\<close> and the pills of \<open>src/core/src/mention.rs\<close>: how a message on its way out gets
  its formatted copy.  Markers become tags, everything else is escaped, and the names of those who are
  mentioned are wrapped in links.  The program walks a slice of characters by position; so does the
  model.  The number of characters of a delimiter is the length of its list.
\<close>

section \<open>Escaping\<close>

definition compose_limit :: nat where
  "compose_limit = 32 * 1024"

definition compose_depth :: nat where
  "compose_depth = 8"

definition escape :: "str \<Rightarrow> str" where
  "escape cs = concat (map (\<lambda>c.
     if c = 38 then lit ''&amp;'' else if c = 60 then lit ''&lt;'' else if c = 62 then lit ''&gt;''
     else if c = 10 then lit ''<br>'' else [c]) cs)"

definition escape_text :: "str \<Rightarrow> str" where
  "escape_text text = escape text"

section \<open>Markers\<close>

record delimiter =
  delim :: str
  tag :: str

definition delimiters :: "delimiter list" where
  "delimiters =
     [\<lparr>delim = lit ''**'', tag = lit ''strong''\<rparr>, \<lparr>delim = lit ''~~'', tag = lit ''del''\<rparr>,
      \<lparr>delim = lit ''++'', tag = lit ''u''\<rparr>, \<lparr>delim = lit ''*'', tag = lit ''em''\<rparr>]"

definition m_open :: "delimiter \<Rightarrow> str" where
  "m_open m = [60] @ tag m @ [62]"

definition m_close :: "delimiter \<Rightarrow> str" where
  "m_close m = [60, 47] @ tag m @ [62]"

definition get :: "str \<Rightarrow> nat \<Rightarrow> nat option" where
  "get cs i = (if i < length cs then Some (cs ! i) else None)"

definition starts_at :: "str \<Rightarrow> nat \<Rightarrow> str \<Rightarrow> bool" where
  "starts_at cs i needle = starts_with needle (drop i cs)"

definition digit_at :: "str \<Rightarrow> nat \<Rightarrow> bool \<Rightarrow> bool" where
  "digit_at cs i valid \<longleftrightarrow> valid \<and> (case get cs i of None \<Rightarrow> False | Some c \<Rightarrow> is_digit c)"

text \<open>The end of a code span, for the position after its backtick.\<close>

definition closing_backtick :: "str \<Rightarrow> nat \<Rightarrow> nat option" where
  "closing_backtick cs begin_at =
     (let span = takeWhile (\<lambda>c. c \<noteq> 10 \<and> c \<noteq> 96) (drop begin_at cs)
      in if span \<noteq> [] \<and> get cs (begin_at + length span) = Some 96 then Some (begin_at + length span) else None)"

text \<open>Where the partner of a delimiter starts.  A longer run of its character serves two delimiters: the wide
  one takes the tail of it.\<close>

definition run_at :: "str \<Rightarrow> nat \<Rightarrow> str \<Rightarrow> nat" where
  "run_at cs i d = length (takeWhile ((=) (hd d)) (drop i cs))"

definition run_tail :: "str \<Rightarrow> nat \<Rightarrow> str \<Rightarrow> nat" where
  "run_tail cs i d = (if run_at cs i d > length d then i + run_at cs i d - length d else i)"

definition closes_at :: "str \<Rightarrow> nat \<Rightarrow> nat \<Rightarrow> str \<Rightarrow> bool" where
  "closes_at cs begin_at start d \<longleftrightarrow>
     start > begin_at \<and> \<not> rust_space (cs ! (start - 1))
     \<and> \<not> (length d = 1 \<and> digit_at cs (start - 1) True \<and> digit_at cs (start + 1) True)"

function partner_at :: "str \<Rightarrow> nat \<Rightarrow> nat \<Rightarrow> str \<Rightarrow> nat option" where
  "partner_at cs begin_at i d =
     (if d = [] \<or> i \<ge> length cs then None
      else if starts_at cs i d then
        (if closes_at cs begin_at (run_tail cs i d) d then Some (run_tail cs i d)
         else partner_at cs begin_at (i + max (run_at cs i d) (length d)) d)
      else partner_at cs begin_at (i + 1) d)"
  by pat_completeness auto
termination
  by (relation "measure (\<lambda>(cs, begin_at, i, d). length cs - i)")
     (auto simp: less_max_iff_disj length_greater_0_conv [symmetric] simp del: length_greater_0_conv intro!: diff_less_mono2)

declare partner_at.simps [simp del]

text \<open>Whether this delimiter opens at \<open>i\<close>, and where its partner starts; the first of the delimiters that does.\<close>

definition opens :: "str \<Rightarrow> nat \<Rightarrow> delimiter \<Rightarrow> nat option" where
  "opens cs i m =
     (let width = length (delim m); inner = i + width in
      if \<not> starts_at cs i (delim m) then None
      else case get cs inner of
        None \<Rightarrow> None
      | Some c \<Rightarrow>
          if rust_space c then None
          else if width = 1 \<and> c = 42 then None
          else if width = 1 \<and> digit_at cs (i - 1) (i > 0) \<and> digit_at cs inner True then None
          else partner_at cs inner inner (delim m))"

definition opening_at :: "str \<Rightarrow> nat \<Rightarrow> (delimiter \<times> nat) option" where
  "opening_at cs i =
     (case List.find (\<lambda>m. opens cs i m \<noteq> None) delimiters of
        None \<Rightarrow> None
      | Some m \<Rightarrow> map_option (Pair m) (opens cs i m))"

lemma partner_after: "partner_at cs begin_at i d = Some e \<Longrightarrow> begin_at < e"
proof (induction cs begin_at i d rule: partner_at.induct)
  case (1 cs begin_at i d)
  from 1(3) show ?case
    by (subst (asm) partner_at.simps) (auto simp: closes_at_def split: if_splits intro: 1(1,2))
qed

lemma opening_after: "opening_at cs i = Some (m, e) \<Longrightarrow> i + length (delim m) < e"
  by (auto simp: opening_at_def opens_def Let_def split: option.splits if_splits dest: partner_after)

definition slice :: "str \<Rightarrow> nat \<Rightarrow> nat \<Rightarrow> str" where
  "slice cs i j = take (j - i) (drop i cs)"

section \<open>The formatter\<close>

text \<open>What is written from position \<open>i\<close> on, and whether a delimiter was met.\<close>

definition code_span :: "str \<Rightarrow> nat \<Rightarrow> nat option" where
  "code_span cs i = (if cs ! i = 96 then closing_backtick cs (i + 1) else None)"

lemma code_span_after: "code_span cs i = Some e \<Longrightarrow> i < e"
  by (auto simp: code_span_def closing_backtick_def Let_def split: if_splits)

function emit_from :: "str \<Rightarrow> nat \<Rightarrow> nat \<Rightarrow> str \<times> bool" where
  "emit_from cs i lvl =
     (if i \<ge> length cs then ([], False)
      else case code_span cs i of
        Some e \<Rightarrow> (lit ''<code>'' @ escape (slice cs (i + 1) e) @ lit ''</code>'' @ fst (emit_from cs (e + 1) lvl), True)
      | None \<Rightarrow>
          (case (if lvl < compose_depth then opening_at cs i else None) of
             Some (m, e) \<Rightarrow>
               (m_open m @ fst (emit_from (slice cs (i + length (delim m)) e) 0 (lvl + 1)) @ m_close m
                  @ fst (emit_from cs (e + length (delim m)) lvl), True)
           | None \<Rightarrow>
               (let rest = emit_from cs (i + 1) lvl
                in ((if cs ! i = 10 then lit ''<br>'' else escape [cs ! i]) @ fst rest, snd rest))))"
  by pat_completeness auto
termination
  by (relation "measures [\<lambda>(cs, i, lvl). compose_depth - lvl, \<lambda>(cs, i, lvl). length cs - i]")
     (auto split: if_splits dest: code_span_after opening_after)

declare emit_from.simps [simp del]

definition to_formatted_body :: "str \<Rightarrow> str option" where
  "to_formatted_body text =
     (if utf8_len text > compose_limit then None
      else (case emit_from text 0 0 of (html, marked) \<Rightarrow> if marked then Some html else None))"

section \<open>Pills\<close>

type_synonym pill = "str \<times> str"

definition href_text :: "str \<Rightarrow> str" where
  "href_text h = replace_str [34] (lit ''&quot;'') (escape_text h)"

definition pill_link :: "pill \<Rightarrow> str" where
  "pill_link p = lit ''<a href='' @ [34] @ href_text (snd p) @ [34] @ lit ''>'' @ escape_text (fst p) @ lit ''</a>''"

definition pill_at :: "pill list \<Rightarrow> str \<Rightarrow> pill option" where
  "pill_at ps rest = List.find (\<lambda>p. escape_text (fst p) \<noteq> [] \<and> starts_with (escape_text (fst p)) rest) ps"

text \<open>How much of the markup is copied whole at a \<open><\<close>: a tag, or a code element with its content.\<close>

definition copied :: "str \<Rightarrow> nat" where
  "copied rest =
     (if starts_with (lit ''<code>'') rest
      then (case index_of (lit ''</code>'') rest of None \<Rightarrow> length rest | Some n \<Rightarrow> n + 7)
      else (case index_of [62] rest of None \<Rightarrow> length rest | Some n \<Rightarrow> n + 1))"

function insert_pills :: "pill list \<Rightarrow> str \<Rightarrow> str \<times> bool" where
  "insert_pills ps [] = ([], False)"
| "insert_pills ps (c # s) =
     (if c = 60 then
        (let n = copied (c # s); rest = insert_pills ps (drop n (c # s))
         in (take n (c # s) @ fst rest, snd rest))
      else case pill_at ps (c # s) of
        Some p \<Rightarrow> (pill_link p @ fst (insert_pills ps (drop (length (escape_text (fst p))) (c # s))), True)
      | None \<Rightarrow> (let rest = insert_pills ps s in (c # fst rest, snd rest)))"
  by pat_completeness auto
termination
  by (relation "measure (\<lambda>(ps, s). length s)")
     (auto simp: copied_def pill_at_def find_Some_iff split: option.splits if_splits)

declare insert_pills.simps(2) [simp del]

text \<open>The formatted copy of a message with mentions (\<open>resolve\<close>), for the pills its ids stand as.\<close>

definition formatted_copy :: "pill list \<Rightarrow> bool \<Rightarrow> str \<Rightarrow> str option" where
  "formatted_copy ps room body =
     (let base = to_formatted_body body in
      if ps = [] \<and> \<not> room then base
      else (let source = (case base of None \<Rightarrow> escape_text body | Some b \<Rightarrow> b);
                (linked, hit) = insert_pills ps source
            in if hit then Some linked else base))"

end
