(* ===== verification/Compose_Safety.thy ===== *)
theory Compose_Safety
  imports Compose
begin

text \<open>
  What goes out is well formed and says what was typed: the formatted copy is a sequence of text and
  properly nested tags whatever the message, only markers are taken out of the text a reader sees, and
  a pill wraps a name in a link without touching anything else.
\<close>

section \<open>Escaping\<close>

definition text_toks :: "str \<Rightarrow> tok list" where
  "text_toks cs = map (\<lambda>c. if c = 10 then G (lit ''br'') else T (esc_char c)) cs"

lemma text_toks_simps [simp]:
  "text_toks [] = []" "text_toks (c # cs) = (if c = 10 then G (lit ''br'') else T (esc_char c)) # text_toks cs"
  "text_toks (cs @ ds) = text_toks cs @ text_toks ds"
  by (simp_all add: text_toks_def)

lemma escape_render: "escape cs = render (text_toks cs)"
  by (induction cs) (simp_all add: escape_def esc_char_def str_simps)

lemma escape_append: "escape (cs @ ds) = escape cs @ escape ds"
  by (simp add: escape_def)

lemma br_tok: "tok_ok (G (lit ''br''))" "\<not> starts_with a_open (lit ''br'')"
  by (simp_all add: a_open_eq no_angle_def str_simps)

lemma text_toks_ok: "toks_ok (text_toks cs)"
  using text_escape.clean br_tok by (induction cs) auto

lemma text_toks_texts: "unescape (tok_texts (text_toks cs) @ t) = filter (\<lambda>c. c \<noteq> 10) cs @ unescape t"
  by (induction cs) (simp_all add: text_escape.decoded)

section \<open>What the formatter writes\<close>

definition span_tags :: "str list" where
  "span_tags = [lit ''strong'', lit ''del'', lit ''u'', lit ''em'']"

text \<open>Text, line breaks, code elements with nothing but text in them, and the four markers' tags, nested
  at most \<open>d\<close> deep.\<close>

inductive composed :: "nat \<Rightarrow> tok list \<Rightarrow> bool" where
  composed_nil: "composed d []"
| composed_text: "composed d us \<Longrightarrow> composed d (text_toks cs @ us)"
| composed_code: "composed d us \<Longrightarrow> 10 \<notin> set cs \<Longrightarrow> composed d (G (lit ''code'') # text_toks cs @ G (lit ''/code'') # us)"
| composed_span: "composed d vs \<Longrightarrow> composed (Suc d) us \<Longrightarrow> t \<in> set span_tags
    \<Longrightarrow> composed (Suc d) (G t # vs @ G (47 # t) # us)"

lemma delimiters_tags: "m \<in> set delimiters \<Longrightarrow> tag m \<in> set span_tags"
  by (auto simp: delimiters_def span_tags_def)

lemma m_render: "m_open m @ s = render1 (G (tag m)) @ s" "m_close m @ s = render1 (G (47 # tag m)) @ s"
  by (simp_all add: m_open_def m_close_def)

lemma opening_delimiter: "opening_at cs i = Some (m, e) \<Longrightarrow> m \<in> set delimiters"
  by (auto simp: opening_at_def find_Some_iff split: option.splits)

lemma code_span_slice:
  assumes "code_span cs i = Some e"
  shows "slice cs (i + 1) e = takeWhile (\<lambda>c. c \<noteq> 10 \<and> c \<noteq> 96) (drop (i + 1) cs)"
    and "10 \<notin> set (slice cs (i + 1) e)"
proof -
  let ?s = "takeWhile (\<lambda>c. c \<noteq> 10 \<and> c \<noteq> 96) (drop (i + 1) cs)"
  from assms have "e = i + 1 + length ?s"
    by (auto simp: code_span_def closing_backtick_def Let_def split: if_splits)
  then show "slice cs (i + 1) e = ?s" by (simp add: slice_def flip: takeWhile_eq_take)
  then show "10 \<notin> set (slice cs (i + 1) e)" by (auto dest: set_takeWhileD)
qed

section \<open>What a reader sees of it\<close>

text \<open>The letters: what is neither a character of a marker nor a line break.\<close>

definition letter :: "nat \<Rightarrow> bool" where
  "letter c \<longleftrightarrow> c \<notin> {42, 126, 43, 96, 10}"

definition says :: "tok list \<Rightarrow> str \<Rightarrow> bool" where
  "says us text \<longleftrightarrow> (\<exists>s. (\<forall>t. unescape (tok_texts us @ t) = s @ unescape t) \<and> subseq s text
     \<and> filter letter s = filter letter text)"

lemma says_nil: "says [] []"
  by (simp add: says_def)

lemma says_append: "says us a \<Longrightarrow> says vs b \<Longrightarrow> says (us @ vs) (a @ b)"
  unfolding says_def
proof (elim exE conjE)
  fix s s'
  assume "\<forall>t. unescape (tok_texts us @ t) = s @ unescape t" "subseq s a" "filter letter s = filter letter a"
    "\<forall>t. unescape (tok_texts vs @ t) = s' @ unescape t" "subseq s' b" "filter letter s' = filter letter b"
  then show "\<exists>s. (\<forall>t. unescape (tok_texts (us @ vs) @ t) = s @ unescape t) \<and> subseq s (a @ b)
      \<and> filter letter s = filter letter (a @ b)"
    by (intro exI [of _ "s @ s'"]) (auto intro: list_emb_append_mono)
qed

lemma says_tag: "says us a \<Longrightarrow> says (G g # us) a"
  by (simp add: says_def)

lemma says_text: "says (text_toks cs) cs"
  unfolding says_def
proof (intro exI [of _ "filter (\<lambda>c. c \<noteq> 10) cs"] conjI allI)
  show "subseq (filter (\<lambda>c. c \<noteq> 10) cs) cs" by (rule subseq_filter_left)
  show "filter letter (filter (\<lambda>c. c \<noteq> 10) cs) = filter letter cs"
    by (auto simp: letter_def intro: filter_cong)
qed (rule text_toks_texts)

lemma says_marks: "list_all (\<lambda>c. \<not> letter c) p \<Longrightarrow> says [] p"
  by (auto simp: says_def list_all_iff filter_empty_conv)

lemma says_skip: "list_all (\<lambda>c. \<not> letter c) p \<Longrightarrow> says us a \<Longrightarrow> says us (p @ a)"
  using says_append [OF says_marks] by fastforce

section \<open>Where markers start and end\<close>

lemma run_tail_starts:
  assumes "d = replicate w c" and "0 < w" and "starts_at cs i d"
  shows "starts_at cs (run_tail cs i d) d"
proof (cases "run_at cs i d > w")
  case True
  have "takeWhile ((=) c) xs = replicate (length (takeWhile ((=) c) xs)) c" for xs :: str
    by (induction xs) auto
  then have "takeWhile ((=) c) (drop i cs) = replicate (run_at cs i d) c"
    using assms(1,2) by (simp add: run_at_def)
  then obtain r where r: "drop i cs = replicate (run_at cs i d) c @ r" by (metis takeWhile_dropWhile_id)
  have "drop (run_at cs i d - w) (drop i cs) = replicate w c @ r" unfolding r using True by simp
  moreover have "run_tail cs i d = i + (run_at cs i d - w)" using True assms(1) by (simp add: run_tail_def)
  ultimately show ?thesis using assms(1) by (simp add: starts_at_def add.commute)
next
  case False
  with assms show ?thesis by (simp add: run_tail_def)
qed

lemma partner_starts:
  "partner_at cs b i d = Some e \<Longrightarrow> d = replicate w c \<Longrightarrow> 0 < w \<Longrightarrow> starts_at cs e d"
proof (induction cs b i d rule: partner_at.induct)
  case (1 cs b i d)
  from 1(3) show ?case
    by (subst (asm) partner_at.simps) (auto split: if_splits intro: 1(2) [OF _ _ _ 1(4,5)] 1(1) [OF _ _ _ _ 1(4,5)] run_tail_starts [OF 1(4,5)])
qed

lemma delimiter_replicate:
  assumes "m \<in> set delimiters"
  shows "\<exists>w c. delim m = replicate w c \<and> 0 < w \<and> \<not> letter c"
proof -
  have "lit ''**'' = replicate 2 42" "lit ''~~'' = replicate 2 126" "lit ''++'' = replicate 2 43" "lit ''*'' = replicate 1 42"
    by (simp_all add: str_simps numeral_2_eq_2)
  then show ?thesis using assms by (force simp: delimiters_def letter_def)
qed

lemma starts_at_drop: "starts_at cs i d \<Longrightarrow> drop i cs = d @ drop (i + length d) cs"
  by (auto simp: starts_at_def starts_with_iff) (metis add.commute append_eq_conv_conj drop_drop)

lemma slice_drop: "i \<le> j \<Longrightarrow> drop i cs = slice cs i j @ drop j cs"
  by (metis append_take_drop_id drop_drop le_add_diff_inverse2 slice_def)

text \<open>What an opened marker spans.\<close>

lemma opening_span:
  assumes "opening_at cs i = Some (m, e)"
  shows "drop i cs = delim m @ slice cs (i + length (delim m)) e @ delim m @ drop (e + length (delim m)) cs"
    and "list_all (\<lambda>c. \<not> letter c) (delim m)"
proof -
  from assms have m: "m \<in> set delimiters" by (rule opening_delimiter)
  then obtain w c where d: "delim m = replicate w c" "0 < w" "\<not> letter c" using delimiter_replicate by blast
  from assms have o: "starts_at cs i (delim m)" "partner_at cs (i + length (delim m)) (i + length (delim m)) (delim m) = Some e"
    by (auto simp: opening_at_def opens_def Let_def find_Some_iff split: option.splits if_splits)
  from partner_starts [OF o(2) d(1,2)] have "drop e cs = delim m @ drop (e + length (delim m)) cs" by (rule starts_at_drop)
  moreover have "drop (i + length (delim m)) cs = slice cs (i + length (delim m)) e @ drop e cs"
    using opening_after [OF assms] by (intro slice_drop) simp
  ultimately show "drop i cs = delim m @ slice cs (i + length (delim m)) e @ delim m @ drop (e + length (delim m)) cs"
    using starts_at_drop [OF o(1)] by simp
  show "list_all (\<lambda>c. \<not> letter c) (delim m)" using d by (simp add: list_all_iff)
qed

text \<open>What a code span spans.\<close>

lemma code_span_span:
  assumes "code_span cs i = Some e" and "i < length cs"
  shows "drop i cs = [96] @ slice cs (i + 1) e @ [96] @ drop (e + 1) cs"
proof -
  from assms have "cs ! i = 96" "e < length cs" "cs ! e = 96" "i < e"
    using code_span_after [OF assms(1)]
    by (auto simp: code_span_def closing_backtick_def get_def Let_def split: if_splits)
  with assms(2) have "drop i cs = [96] @ drop (i + 1) cs" "drop e cs = [96] @ drop (e + 1) cs"
    by (simp_all add: Cons_nth_drop_Suc [symmetric])
  with slice_drop [of "i + 1" e cs] \<open>i < e\<close> show ?thesis by simp
qed

section \<open>The formatter, position by position\<close>

definition writes_from :: "str \<Rightarrow> nat \<Rightarrow> nat \<Rightarrow> tok list \<Rightarrow> bool" where
  "writes_from cs i d us \<longleftrightarrow> fst (emit_from cs i d) = render us \<and> composed (compose_depth - d) us \<and> says us (drop i cs)"

lemma writes_code:
  assumes "i < length cs" and "code_span cs i = Some e" and "writes_from cs (e + 1) d us"
  shows "writes_from cs i d (G (lit ''code'') # text_toks (slice cs (i + 1) e) @ G (lit ''/code'') # us)"
proof -
  have "says ([] @ text_toks (slice cs (i + 1) e) @ [] @ us) ([96] @ slice cs (i + 1) e @ [96] @ drop (e + 1) cs)"
    using assms(3) unfolding writes_from_def
    by (intro says_append says_text says_marks) (simp_all add: letter_def)
  then have "says (G (lit ''code'') # text_toks (slice cs (i + 1) e) @ G (lit ''/code'') # us) (drop i cs)"
    unfolding code_span_span [OF assms(2,1)] by (simp add: says_def)
  then show ?thesis
    using assms composed_code [OF _ code_span_slice(2) [OF assms(2)]] unfolding writes_from_def
    by (subst emit_from.simps) (simp add: escape_render str_simps)
qed

lemma writes_span:
  assumes "i < length cs" and "code_span cs i = None" and "d < compose_depth" and "opening_at cs i = Some (m, e)"
    and "writes_from (slice cs (i + length (delim m)) e) 0 (d + 1) vs" and "writes_from cs (e + length (delim m)) d us"
  shows "writes_from cs i d (G (tag m) # vs @ G (47 # tag m) # us)"
proof -
  have "says ([] @ vs @ [] @ us) (delim m @ slice cs (i + length (delim m)) e @ delim m @ drop (e + length (delim m)) cs)"
    using assms(5,6) opening_span(2) [OF assms(4)] unfolding writes_from_def
    by (intro says_append says_marks) simp_all
  then have "says (G (tag m) # vs @ G (47 # tag m) # us) (drop i cs)"
    unfolding opening_span(1) [OF assms(4), symmetric] by (simp add: says_def)
  moreover obtain k where "compose_depth - d = Suc k" "compose_depth - (d + 1) = k"
    using assms(3) by (metis Suc_diff_Suc Suc_eq_plus1)
  ultimately show ?thesis
    using assms composed_span [OF _ _ delimiters_tags [OF opening_delimiter [OF assms(4)]]] unfolding writes_from_def
    by (subst emit_from.simps) (simp add: m_open_def m_close_def)
qed

lemma one_char: "render (text_toks [c]) = (if c = 10 then lit ''<br>'' else escape [c])"
  by (simp add: escape_render str_simps)

lemma writes_plain:
  assumes "i < length cs" and "code_span cs i = None" and "(if d < compose_depth then opening_at cs i else None) = None"
    and "writes_from cs (i + 1) d us"
  shows "writes_from cs i d (text_toks [cs ! i] @ us)"
proof -
  have "says (text_toks [cs ! i] @ us) ([cs ! i] @ drop (i + 1) cs)"
    using assms(4) says_text [of "[cs ! i]"] unfolding writes_from_def by (intro says_append) simp_all
  then have "says (text_toks [cs ! i] @ us) (drop i cs)"
    using assms(1) by (simp add: Cons_nth_drop_Suc)
  then show ?thesis
    using assms composed_text [of "compose_depth - d" us "[cs ! i]"] unfolding writes_from_def
    by (subst emit_from.simps) (simp add: one_char Let_def del: text_toks_simps)
qed

lemma emit_writes: "\<exists>us. writes_from cs i d us"
proof (induction cs i d rule: emit_from.induct)
  case (1 cs i d)
  show ?case
  proof (cases "i < length cs")
    case False
    then have "writes_from cs i d []"
      unfolding writes_from_def by (subst emit_from.simps) (simp add: composed_nil says_nil)
    then show ?thesis ..
  next
    case i: True
    show ?thesis
    proof (cases "code_span cs i")
      case (Some e)
      with 1(4) i writes_code [OF i Some] show ?thesis by fastforce
    next
      case None
      show ?thesis
      proof (cases "if d < compose_depth then opening_at cs i else None")
        case (Some me)
        obtain m e where me: "me = (m, e)" by fastforce
        with Some have d: "d < compose_depth" and o: "opening_at cs i = Some (m, e)" by (auto split: if_splits)
        from 1(2) [OF _ None Some me [symmetric]] 1(3) [OF _ None Some me [symmetric]] i
        show ?thesis using writes_span [OF i None d o] by fastforce
      next
        case no: None
        from 1(1) [OF _ None no] i show ?thesis using writes_plain [OF i None no] by fastforce
      qed
    qed
  qed
qed

section \<open>What the grammar gives\<close>

lemma span_tag_facts:
  assumes "t \<in> set span_tags"
  shows "tok_ok (G t)" and "tok_ok (G (47 # t))" and "\<not> starts_with a_open t" and "\<not> starts_with a_open (47 # t)"
    and "t \<noteq> lit ''code''" and "47 # t \<noteq> lit ''br''" and "t \<noteq> lit ''br''" and "tag_name t = t" and "\<exists>c n. t = c # n \<and> c \<noteq> 47"
  using assms by (auto simp: span_tags_def a_open_eq no_angle_def tag_name_def str_simps)

lemma code_tag_facts:
  "tok_ok (G (lit ''code''))" "tok_ok (G (lit ''/code''))" "\<not> starts_with a_open (lit ''code'')" "\<not> starts_with a_open (lit ''/code'')"
  by (simp_all add: a_open_eq no_angle_def str_simps)

lemma composed_toks_ok: "composed d us \<Longrightarrow> toks_ok us"
  by (induction rule: composed.induct) (simp_all add: text_toks_ok span_tag_facts code_tag_facts del: tok_ok.simps)

lemma composed_hrefs: "composed d us \<Longrightarrow> tok_hrefs us = []"
proof (induction rule: composed.induct)
  have "tok_hrefs (text_toks cs) = []" for cs using br_tok by (induction cs) auto
  then show "tok_hrefs us = [] \<Longrightarrow> tok_hrefs (text_toks cs @ us) = []"
    and "tok_hrefs us = [] \<Longrightarrow> tok_hrefs (G (lit ''code'') # text_toks cs @ G (lit ''/code'') # us) = []" for cs us
    using code_tag_facts by auto
qed (simp_all add: span_tag_facts)

lemma nested_text: "nested st (text_toks cs @ vs) = nested st vs"
  by (induction cs) auto

lemma nested_code: "nested st (G (lit ''code'') # vs) = nested (lit ''code'' # st) vs"
  "nested (lit ''code'' # st) (G (lit ''/code'') # vs) = nested st vs"
  by (simp_all add: tag_name_def str_simps)

lemma composed_nested: "composed d us \<Longrightarrow> nested st (us @ vs) = nested st vs"
proof (induction arbitrary: st vs rule: composed.induct)
  case (composed_code d us cs)
  then show ?case using nested_code nested_text by simp
next
  case (composed_span d us ws t)
  with span_tag_facts [OF composed_span(3)] show ?case by auto
qed (simp_all add: nested_text)

section \<open>Text without markers\<close>

definition unmarked :: "str \<Rightarrow> bool" where
  "unmarked cs \<longleftrightarrow> list_all (\<lambda>c. c \<notin> {42, 126, 43, 96}) cs"

lemma delimiter_head: "m \<in> set delimiters \<Longrightarrow> \<exists>c d. delim m = c # d \<and> c \<in> {42, 126, 43} \<and> set d \<subseteq> {c}"
  by (auto simp: delimiters_def str_simps)

lemma unmarked_opening: "unmarked cs \<Longrightarrow> opening_at cs i = None"
proof -
  assume u: "unmarked cs"
  have "opens cs i m = None" if m: "m \<in> set delimiters" for m
  proof -
    from delimiter_head [OF m] obtain c d where d: "delim m = c # d" "c \<in> {42, 126, 43}" by blast
    have "\<not> starts_at cs i (delim m)"
    proof
      assume "starts_at cs i (delim m)"
      then have "c \<in> set (drop i cs)" using d(1) by (auto simp: starts_at_def starts_with_iff)
      then have "c \<in> set cs" by (rule in_set_dropD)
      with u d(2) show False by (auto simp: unmarked_def list_all_iff)
    qed
    then show ?thesis by (simp add: opens_def)
  qed
  then show ?thesis by (auto simp: opening_at_def find_Some_iff split: option.split)
qed

lemma emit_unmarked: "unmarked cs \<Longrightarrow> emit_from cs i d = (escape (drop i cs), False)"
proof (induction "length cs - i" arbitrary: i)
  case 0
  then show ?case by (subst emit_from.simps) (simp add: escape_def)
next
  case (Suc n)
  then have i: "i < length cs" by simp
  with Suc.prems have "cs ! i \<noteq> 96" by (auto simp: unmarked_def list_all_length)
  then have "code_span cs i = None" by (simp add: code_span_def)
  moreover have "drop i cs = cs ! i # drop (i + 1) cs" using i by (simp add: Cons_nth_drop_Suc)
  moreover have "emit_from cs (i + 1) d = (escape (drop (i + 1) cs), False)" using Suc by (intro Suc.hyps(1)) simp_all
  ultimately show ?case
    using i unmarked_opening [OF Suc.prems]
    by (subst emit_from.simps) (simp add: escape_def Let_def)
qed

section \<open>A marked word\<close>

lemma partner_found:
  assumes "m \<in> set delimiters" and "unmarked s" and "s \<noteq> []" and "\<not> rust_space (last s)"
    and cs: "cs = delim m @ s @ delim m" and "length (delim m) \<le> i" and "i \<le> length (delim m) + length s"
  shows "partner_at cs (length (delim m)) i (delim m) = Some (length (delim m) + length s)"
  using assms(6,7)
proof (induction "length (delim m) + length s - i" arbitrary: i)
  case 0
  let ?d = "delim m"
  from 0 have i: "i = length ?d + length s" by simp
  obtain c d where d: "?d = c # d" "set d \<subseteq> {c}" using delimiter_head [OF assms(1)] by blast
  have drop: "drop i cs = ?d" by (simp add: cs i)
  moreover have "takeWhile ((=) (hd ?d)) ?d = ?d" using d unfolding takeWhile_eq_all_conv by auto
  ultimately have "run_at cs i ?d = length ?d" by (simp only: run_at_def)
  then have "run_tail cs i ?d = i" by (simp add: run_tail_def)
  moreover have "starts_at cs i ?d" by (simp add: starts_at_def drop)
  moreover have "cs ! (i - 1) = last s"
    using assms(3) by (cases s rule: rev_cases) (auto simp: cs i nth_append)
  moreover have "\<not> digit_at cs (i + 1) True" if "length ?d = 1"
    using that by (simp add: digit_at_def get_def cs i)
  ultimately show ?case
    using assms(3,4) d i by (subst partner_at.simps) (auto simp: closes_at_def cs)
next
  case (Suc n)
  let ?d = "delim m"
  from Suc have i: "i < length ?d + length s" "length ?d \<le> i" by simp_all
  obtain c d where d: "?d = c # d" "c \<in> {42, 126, 43}" using delimiter_head [OF assms(1)] by blast
  have "drop i cs = drop (i - length ?d) s @ ?d" using i by (simp add: cs)
  moreover have "drop (i - length ?d) s = s ! (i - length ?d) # drop (i - length ?d + 1) s"
    using i by (simp add: Cons_nth_drop_Suc)
  moreover have "s ! (i - length ?d) \<noteq> c"
    using assms(2) d(2) i by (auto simp: unmarked_def list_all_length)
  ultimately have "\<not> starts_at cs i ?d" using d(1) by (simp add: starts_at_def)
  with Suc i d show ?case by (subst partner_at.simps) (simp add: cs)
qed

lemma delimiters_split:
  assumes "m \<in> set delimiters"
  shows "\<exists>pre post. delimiters = pre @ m # post
    \<and> (\<forall>m'\<in>set pre. m' \<in> set delimiters \<and> m' \<noteq> m \<and> length (delim m') \<noteq> 1)"
proof -
  from assms obtain pre post where s: "delimiters = pre @ m # post" "m \<notin> set pre"
    using in_set_conv_decomp_first by metis
  have "length (delim m') \<noteq> 1" if "m' \<in> set (butlast delimiters)" for m'
    using that by (auto simp: delimiters_def)
  moreover have "set pre \<subseteq> set (butlast delimiters)" unfolding s(1) by (simp add: butlast_append)
  moreover have "set pre \<subseteq> set delimiters" unfolding s(1) by auto
  ultimately show ?thesis using s by blast
qed

lemma find_append: "P x \<Longrightarrow> (\<And>y. y \<in> set xs \<Longrightarrow> \<not> P y) \<Longrightarrow> List.find P (xs @ x # ys) = Some x"
  by (induction xs) auto

lemma opening_found:
  assumes "m \<in> set delimiters" and "unmarked s" and "s \<noteq> []" and "\<not> rust_space (hd s)" and "\<not> rust_space (last s)"
    and cs: "cs = delim m @ s @ delim m"
  shows "opening_at cs 0 = Some (m, length (delim m) + length s)"
proof -
  from assms(2,3) have hd: "hd s \<notin> {42, 126, 43, 96}" by (cases s) (auto simp: unmarked_def)
  have "get cs (length (delim m)) = Some (hd s)" using assms(3) by (cases s) (simp_all add: get_def cs nth_append)
  with assms partner_found [OF assms(1-3,5) cs] hd
  have o: "opens cs 0 m = Some (length (delim m) + length s)"
    by (auto simp: opens_def starts_at_def Let_def digit_at_def)
  have "opens cs 0 m' = None" if "m' \<in> set delimiters" "m' \<noteq> m" "length (delim m) = 1 \<or> length (delim m') \<noteq> 1" for m'
  proof -
    have "\<not> starts_at cs 0 (delim m')"
      using that assms(1,3) hd by (cases s) (auto simp: delimiters_def starts_at_def cs str_simps)
    then show ?thesis by (simp add: opens_def)
  qed
  note others = this
  obtain pre post where split: "delimiters = pre @ m # post"
    "\<forall>m'\<in>set pre. m' \<in> set delimiters \<and> m' \<noteq> m \<and> length (delim m') \<noteq> 1"
    using delimiters_split [OF assms(1)] by blast
  have "List.find (\<lambda>m. opens cs 0 m \<noteq> None) delimiters = Some m"
    unfolding split(1) by (rule find_append) (use o split(2) others in auto)
  then show ?thesis using o by (simp add: opening_at_def)
qed

end
