(* ===== verification/Compose_Pills.thy ===== *)
theory Compose_Pills
  imports Compose_Safety
begin

text \<open>
  The pills put into a formatted copy, and the properties of what goes out: the markup stays well formed,
  the text a reader sees stays what was typed, and the only addresses in it are those of the pills.
\<close>

section \<open>Walking over text\<close>

text \<open>The first character of a text taken off the tokens.\<close>

lemma chop1:
  assumes "toks_ok us" and "render us = c # s" and "c \<noteq> 60"
  shows "c \<noteq> 62 \<and> (\<exists>us'. toks_ok us' \<and> render us' = s \<and> (\<forall>st. nested st us' = nested st us)
    \<and> tok_texts us = c # tok_texts us' \<and> tok_hrefs us' = tok_hrefs us)"
  using assms
proof (induction us)
  case (Cons t us)
  show ?case
  proof (cases t)
    case (G g)
    with Cons.prems show ?thesis by simp
  next
    case (T w)
    show ?thesis
    proof (cases w)
      case Nil
      with Cons T show ?thesis by simp
    next
      case (Cons c' w')
      with \<open>render (t # us) = c # s\<close> T \<open>toks_ok (t # us)\<close> show ?thesis
        by (auto intro!: exI [of _ "T w' # us"])
    qed
  qed
qed simp

lemma chop:
  assumes "toks_ok us" and "render us = p @ s" and "60 \<notin> set p"
  shows "no_angle p \<and> (\<exists>us'. toks_ok us' \<and> render us' = s \<and> (\<forall>st. nested st us' = nested st us)
    \<and> tok_texts us = p @ tok_texts us' \<and> tok_hrefs us' = tok_hrefs us)"
  using assms
proof (induction p arbitrary: us)
  case (Cons c p)
  from chop1 [OF Cons.prems(1)] Cons.prems obtain us' where us': "c \<noteq> 62" "toks_ok us'" "render us' = p @ s"
    "\<forall>st. nested st us' = nested st us" "tok_texts us = c # tok_texts us'" "tok_hrefs us' = tok_hrefs us" by auto
  with Cons.IH [OF us'(2,3)] Cons.prems(3) show ?case by auto
qed auto

text \<open>A text that begins with an angle bracket begins with a tag.\<close>

lemma first_tag:
  assumes "toks_ok us" and "render us = 60 # s"
  obtains g us' where "no_angle g" "s = g @ 62 # render us'" "toks_ok us'" "tok_ok (G g)"
    "\<And>st. nested st us = nested st (G g # us')" "tok_texts us = tok_texts us'" "tok_hrefs us = tok_hrefs (G g # us')"
  using assms
proof (induction us)
  case (Cons t us)
  show ?case
  proof (cases t)
    case (G g)
    with Cons.prems show ?thesis by (intro Cons.prems(1) [of g us]) auto
  next
    case (T w)
    with Cons.prems have "w = []" by (cases w) auto
    with Cons T show ?thesis by simp
  qed
qed simp

lemma nested_copy: "(\<And>st. nested st us \<Longrightarrow> nested st vs) \<Longrightarrow> nested st (ts @ us) \<Longrightarrow> nested st (ts @ vs)"
proof (induction ts arbitrary: st)
  case (Cons t ts)
  then show ?case by (cases t) (auto split: if_splits list.splits)
qed auto

section \<open>A pill\<close>

lemma replace_quote: "set (replace_str [34] (lit ''&quot;'') s) \<subseteq> (set s - {34}) \<union> set (lit ''&quot;'')"
  by (induction "[34] :: str" "lit ''&quot;''" s rule: replace_str.induct) auto

lemma escape_clean: "10 \<notin> set s \<Longrightarrow> no_angle (escape_text s)"
  unfolding escape_text_def using text_escape.clean
  by (induction s) (auto simp: escape_render)

lemma href_text_ok: "10 \<notin> set h \<Longrightarrow> no_angle (href_text h) \<and> 34 \<notin> set (href_text h)"
  using replace_quote [of "escape_text h"] escape_clean [of h]
  by (auto simp: href_text_def no_angle_def str_simps subset_iff)

definition pill_toks :: "pill \<Rightarrow> tok list" where
  "pill_toks p = [G (a_tag (href_text (snd p))), T (escape_text (fst p)), G (lit ''/a'')]"

lemma pill_render: "pill_link p = render (pill_toks p)"
  by (simp add: pill_link_def pill_toks_def a_tag_def a_open_def str_simps)

lemma pill_facts:
  assumes "10 \<notin> set (fst p)" and "10 \<notin> set (snd p)"
  shows "toks_ok (pill_toks p)" and "nested st (pill_toks p @ us) = nested st us"
    and "tok_texts (pill_toks p) = escape_text (fst p)" and "tok_hrefs (pill_toks p) = [href_text (snd p)]"
proof -
  have a: "lit ''/a'' = [47, 97]" "lit ''br'' = [98, 114]" by (simp_all add: str_simps)
  show "toks_ok (pill_toks p)"
    using tok_ok_a_tag href_text_ok [OF assms(2)] escape_clean [OF assms(1)]
    by (simp add: pill_toks_def a a_open_eq del: tok_ok.simps(2)) (simp add: a_open_eq)
  show "nested st (pill_toks p @ us) = nested st us"
    by (simp add: pill_toks_def a tag_name_def a_tag_def a_open_eq)
  show "tok_texts (pill_toks p) = escape_text (fst p)" by (simp add: pill_toks_def)
  have "\<not> starts_with a_open (lit ''/a'')" "starts_with a_open (a_tag h)" for h
    by (simp_all add: a a_open_eq a_tag_def)
  then show "tok_hrefs (pill_toks p) = [href_text (snd p)]" by (simp add: pill_toks_def)
qed

section \<open>The walk\<close>

definition linked :: "pill list \<Rightarrow> tok list \<Rightarrow> tok list \<Rightarrow> bool" where
  "linked ps us vs \<longleftrightarrow> toks_ok vs \<and> (\<forall>st. nested st us \<longrightarrow> nested st vs) \<and> tok_texts vs = tok_texts us
     \<and> set (tok_hrefs vs) \<subseteq> set (tok_hrefs us) \<union> href_text ` snd ` set ps"

lemma linked_copy: "linked ps us vs \<Longrightarrow> toks_ok ts \<Longrightarrow> linked ps (ts @ us) (ts @ vs)"
  unfolding linked_def using nested_copy [of us vs] by auto

lemma linked_same:
  "linked ps us vs \<Longrightarrow> (\<And>st. nested st us' = nested st us) \<Longrightarrow> tok_texts us' = tok_texts us
    \<Longrightarrow> tok_hrefs us' = tok_hrefs us \<Longrightarrow> linked ps us' vs"
  by (simp add: linked_def)

lemma copied_tag:
  assumes "no_angle g" and "toks_ok us"
  shows "\<exists>ts us'. G g # us = ts @ us' \<and> copied (render (G g # us)) = length (render ts) \<and> ts \<noteq> []"
proof (cases "g = lit ''code''")
  case False
  have "no_angle (lit ''code'')" by (simp add: no_angle_def str_simps)
  then have "\<not> starts_with (lit ''<code>'') (render (G g # us))"
    using starts_with_tag [of "lit ''code''" g "render us"] assms(1) False by (simp add: str_simps)
  moreover have "index_of [62] (60 # g @ 62 # render us) = Some (Suc (length g))"
  proof -
    have "index_of [62] (x @ 62 # t) = Some (length x)" if "62 \<notin> set x" for x t :: str
      using that by (induction x) auto
    from this [of "60 # g" "render us"] assms(1) show ?thesis by (simp add: no_angle_def)
  qed
  ultimately have "copied (render (G g # us)) = length (render [G g])" by (simp add: copied_def)
  then show ?thesis by (intro exI [of _ "[G g]"] exI [of _ us]) simp
next
  case True
  have c: "no_angle (lit ''/code'')" "lit ''</code>'' = 60 # lit ''/code'' @ [62]" by (simp_all add: no_angle_def str_simps)
  have "starts_with (lit ''<code>'') (render (G g # us))"
    using starts_with_append [of "lit ''<code>''" "render us"] True by (simp add: str_simps)
  moreover have "toks_ok (G g # us)" using assms True by (simp add: a_open_eq str_simps)
  then have "index_of (lit ''</code>'') (render (G g # us))
      = map_option (\<lambda>(inner, rest). length (render inner)) (upto_close (lit ''/code'') (G g # us))"
    unfolding c(2) by (rule index_of_close [OF c(1)])
  ultimately have n: "copied (render (G g # us)) = (case upto_close (lit ''/code'') (G g # us) of
      None \<Rightarrow> length (render (G g # us)) | Some (inner, rest) \<Rightarrow> length (render inner) + 7)"
    by (simp add: copied_def split: option.split)
  show ?thesis
  proof (cases "upto_close (lit ''/code'') (G g # us)")
    case None
    with n show ?thesis by (intro exI [of _ "G g # us"] exI [of _ "[]"]) simp
  next
    case (Some ir)
    obtain inner rest where ir: "ir = (inner, rest)" by fastforce
    from upto_close_eq [OF Some [unfolded ir]] have "G g # us = (inner @ [G (lit ''/code'')]) @ rest" by simp
    moreover have "length (render (inner @ [G (lit ''/code'')])) = length (render inner) + 7" by simp
    ultimately show ?thesis using n Some ir by (intro exI [of _ "inner @ [G (lit ''/code'')]"] exI [of _ rest]) simp
  qed
qed

lemma pill_at_in: "pill_at ps s = Some p \<Longrightarrow> p \<in> set ps \<and> escape_text (fst p) \<noteq> [] \<and> starts_with (escape_text (fst p)) s"
  by (auto simp: pill_at_def find_Some_iff)

lemma insert_linked:
  assumes "\<And>p. p \<in> set ps \<Longrightarrow> 10 \<notin> set (fst p) \<and> 10 \<notin> set (snd p)"
  shows "toks_ok us \<Longrightarrow> render us = s \<Longrightarrow> \<exists>vs. fst (insert_pills ps s) = render vs \<and> linked ps us vs"
proof (induction "length s" arbitrary: us s rule: less_induct)
  case less
  show ?case
  proof (cases s)
    case Nil
    have "toks_ok us \<Longrightarrow> render us = [] \<Longrightarrow> (\<forall>st. nested st us = nested st []) \<and> tok_texts us = [] \<and> tok_hrefs us = []"
    proof (induction us)
      case (Cons t us)
      then show ?case by (cases t) auto
    qed simp
    with less.prems Nil show ?thesis by (intro exI [of _ "[]"]) (auto simp: linked_def)
  next
    case (Cons c r)
    consider (tag) "c = 60" | (pill) p where "c \<noteq> 60" "pill_at ps s = Some p" | (plain) "c \<noteq> 60" "pill_at ps s = None" by fastforce
    then show ?thesis
    proof cases
      case tag
      with first_tag [OF less.prems(1)] less.prems(2) Cons obtain g us' where g: "no_angle g" "r = g @ 62 # render us'"
        "toks_ok us'" "tok_ok (G g)" "\<And>st. nested st us = nested st (G g # us')" "tok_texts us = tok_texts us'"
        "tok_hrefs us = tok_hrefs (G g # us')" by metis
      obtain ts rest where ts: "G g # us' = ts @ rest" "copied (render (G g # us')) = length (render ts)" "ts \<noteq> []"
        using copied_tag [OF g(1,3)] by blast
      have s: "s = render (G g # us')" using Cons tag g(2) by simp
      then have s': "s = render ts @ render rest" using ts(1) by simp
      have ok: "toks_ok ts" "toks_ok rest" using g(3,4) ts(1) by (metis toks_ok_simps(2,3))+
      have "length (render rest) < length s"
        using ts s' by (cases ts) (auto)
      from less.hyps [OF this ok(2) refl] obtain vs where
        vs: "fst (insert_pills ps (render rest)) = render vs" "linked ps rest vs" by blast
      have n: "copied (c # r) = length (render ts)" using ts(2) s Cons by simp
      have td: "take (length (render ts)) (c # r) = render ts" "drop (length (render ts)) (c # r) = render rest"
        unfolding Cons [symmetric] s' by simp_all
      have "fst (insert_pills ps (c # r)) = render ts @ fst (insert_pills ps (render rest))"
        using tag n td by (simp only: insert_pills.simps(2) Let_def fst_conv simp_thms if_True)
      then have "fst (insert_pills ps s) = render (ts @ vs)" using vs(1) Cons by simp
      moreover have "linked ps (G g # us') (ts @ vs)" unfolding ts(1) using linked_copy [OF vs(2) ok(1)] .
      then have "linked ps us (ts @ vs)" by (rule linked_same) (use g in auto)
      ultimately show ?thesis by blast
    next
      case pill
      from pill_at_in [OF pill(2)] assms have p: "p \<in> set ps" "10 \<notin> set (fst p)" "10 \<notin> set (snd p)"
        "escape_text (fst p) \<noteq> []" "starts_with (escape_text (fst p)) s" by auto
      then obtain s' where s': "s = escape_text (fst p) @ s'" by (auto simp: starts_with_iff)
      have "render us = escape_text (fst p) @ s'" "60 \<notin> set (escape_text (fst p))"
        using less.prems(2) s' escape_clean [OF p(2)] by (auto simp: no_angle_def)
      from chop [OF less.prems(1) this] obtain us' where us': "toks_ok us'" "render us' = s'"
        "\<forall>st. nested st us' = nested st us" "tok_texts us = escape_text (fst p) @ tok_texts us'" "tok_hrefs us' = tok_hrefs us" by blast
      have "length s' < length s" using s' p(4) by simp
      from less.hyps [OF this us'(1,2)] obtain vs where vs: "fst (insert_pills ps s') = render vs" "linked ps us' vs" by blast
      have "drop (length (escape_text (fst p))) (c # r) = s'" using s' Cons by (metis append_eq_conv_conj)
      then have "fst (insert_pills ps s) = render (pill_toks p @ vs)"
        using pill Cons vs(1) by (simp add: insert_pills.simps(2) pill_render)
      moreover have "linked ps us (pill_toks p @ vs)"
        using vs(2) us' p(1) pill_facts [OF p(2,3)] by (auto simp: linked_def)
      ultimately show ?thesis by blast
    next
      case plain
      from chop1 [OF less.prems(1) _ plain(1)] less.prems(2) Cons obtain us' where us': "c \<noteq> 62" "toks_ok us'" "render us' = r"
        "\<forall>st. nested st us' = nested st us" "tok_texts us = c # tok_texts us'" "tok_hrefs us' = tok_hrefs us" by blast
      from less.hyps [of r, OF _ us'(2,3)] Cons obtain vs where vs: "fst (insert_pills ps r) = render vs" "linked ps us' vs" by auto
      have "fst (insert_pills ps s) = render (T [c] # vs)"
        using plain Cons vs(1) by (simp add: insert_pills.simps(2) Let_def)
      moreover have "linked ps us (T [c] # vs)"
        using vs(2) us' plain(1) by (auto simp: linked_def)
      ultimately show ?thesis by blast
    qed
  qed
qed

section \<open>What goes out\<close>

definition well_formed_copy :: "pill list \<Rightarrow> str \<Rightarrow> str \<Rightarrow> bool" where
  "well_formed_copy ps body html \<longleftrightarrow>
     (\<exists>us. html = render us \<and> toks_ok us \<and> nested [] us \<and> set (tok_hrefs us) \<subseteq> href_text ` snd ` set ps)
     \<and> subseq (unescape (strip_tags False html)) body
     \<and> filter letter (unescape (strip_tags False html)) = filter letter body"

lemma says_shown: "says us body \<Longrightarrow> tok_texts vs = tok_texts us \<Longrightarrow> toks_ok vs
  \<Longrightarrow> subseq (unescape (strip_tags False (render vs))) body
    \<and> filter letter (unescape (strip_tags False (render vs))) = filter letter body"
  by (auto simp: says_def strip_render dest: spec [of _ "[]"])

lemma linked_well_formed:
  assumes "linked ps us vs" and "nested [] us" and "tok_hrefs us = []" and "says us body"
  shows "well_formed_copy ps body (render vs)"
  using assms says_shown [OF assms(4)] unfolding well_formed_copy_def linked_def by auto

lemma formatted_body_toks:
  assumes "to_formatted_body body = Some html"
  shows "\<exists>us. html = render us \<and> toks_ok us \<and> nested [] us \<and> tok_hrefs us = [] \<and> says us body"
proof -
  obtain us where us: "writes_from body 0 0 us" using emit_writes by blast
  have "html = fst (emit_from body 0 0)"
    using assms by (auto simp: to_formatted_body_def split: if_splits prod.splits)
  with us have "html = render us" "composed (compose_depth - 0) us" "says us body" by (simp_all add: writes_from_def)
  then show ?thesis using composed_toks_ok composed_hrefs composed_nested [of _ us "[]" "[]"] by auto
qed

lemma escaped_toks: "toks_ok (text_toks body) \<and> nested [] (text_toks body) \<and> tok_hrefs (text_toks body) = []
  \<and> says (text_toks body) body"
  using nested_text [of "[]" body "[]"] composed_hrefs [OF composed_text [OF composed_nil, of 0 body]]
  by (simp add: text_toks_ok says_text)

text \<open>C11: Whatever is typed, and whomever it mentions - as long as no name and no link of a mention holds a line
  break -, the formatted copy that is sent with the message is a
  well-formed document: every tag is closed, in the order it was opened, the only addresses in it are
  those of the mentioned, with nothing in them that could end the attribute, and a reader who
  sees it sees what was typed, in order, with nothing added and nothing but markers and line breaks
  taken out.\<close>

theorem outgoing_body:
  assumes "\<forall>p\<in>set ps. 10 \<notin> set (fst p) \<and> 10 \<notin> set (snd p)" and "formatted_copy ps room body = Some html"
  shows "well_formed_copy ps body html"
proof -
  define us where "us = (case to_formatted_body body of None \<Rightarrow> text_toks body | Some b \<Rightarrow> SOME us.
    b = render us \<and> toks_ok us \<and> nested [] us \<and> tok_hrefs us = [] \<and> says us body)"
  have us: "toks_ok us \<and> nested [] us \<and> tok_hrefs us = [] \<and> says us body"
    and source: "render us = (case to_formatted_body body of None \<Rightarrow> escape_text body | Some b \<Rightarrow> b)"
    using someI_ex [OF formatted_body_toks] escaped_toks
    by (auto simp: us_def escape_text_def escape_render split: option.split)
  obtain vs where vs: "fst (insert_pills ps (render us)) = render vs" "linked ps us vs"
    using insert_linked [OF _ _ refl, of ps us] assms(1) us by blast
  have "linked ps us us" using us by (simp add: linked_def)
  moreover have "html = render vs \<or> html = render us"
    using assms(2) vs(1) source by (auto simp: formatted_copy_def Let_def split: if_splits prod.splits option.splits)
  ultimately show ?thesis using linked_well_formed vs(2) us by blast
qed

lemma outgoing_body_witness:
  "well_formed_copy [(lit ''@Ann'', lit ''https://matrix.to/#/@ann:x.org'')] (lit ''@Ann **a < b**'')
     (lit ''<a href='' @ [34] @ lit ''https://matrix.to/#/@ann:x.org'' @ [34] @ lit ''>@Ann</a> <strong>a &lt; b</strong>'')"
  by (rule outgoing_body [where room = False]) code_simp+

text \<open>A message without a marker goes out without a formatted copy.\<close>

theorem plain_stays_plain: "unmarked body \<Longrightarrow> to_formatted_body body = None"
  by (simp add: to_formatted_body_def emit_unmarked)

lemma plain_stays_plain_witness: "to_formatted_body (lit ''a < b & c'') = None"
  by (rule plain_stays_plain) code_simp

text \<open>C37: A marked word is written as the marker's element.  A message that is a marker, a text and the same marker
  again becomes exactly the escaped text between the element's tags, for every text that is not empty, holds
  no character of a marker and no backtick (\<open>unmarked\<close>), neither begins nor ends with white space, and leaves the
  message within the limit of 32 KiB.\<close>

theorem marker_wraps:
  assumes "m \<in> set delimiters" and "unmarked s" and "s \<noteq> []" and "\<not> rust_space (hd s)" and "\<not> rust_space (last s)"
    and "utf8_len (delim m @ s @ delim m) \<le> compose_limit"
  shows "to_formatted_body (delim m @ s @ delim m) = Some (m_open m @ escape s @ m_close m)"
proof -
  let ?cs = "delim m @ s @ delim m"
  have o: "opening_at ?cs 0 = Some (m, length (delim m) + length s)" by (rule opening_found [OF assms(1-5) refl])
  have len: "\<not> utf8_len ?cs > compose_limit"
    using assms(6) by simp
  have c: "code_span ?cs 0 = None"
    using delimiter_head [OF assms(1)] by (auto simp: code_span_def)
  have ne: "?cs \<noteq> []" using assms(3) by simp
  have s: "slice ?cs (0 + length (delim m)) (length (delim m) + length s) = s" by (simp add: slice_def)
  have inner: "emit_from s 0 1 = (escape s, False)" using emit_unmarked [OF assms(2), of 0 1] by simp
  have rest: "emit_from ?cs (length (delim m) + length s + length (delim m)) 0 = ([], False)"
    by (subst emit_from.simps) simp
  have "emit_from ?cs 0 0 = (m_open m @ escape s @ m_close m, True)"
    using c o s inner rest ne by (subst emit_from.simps) (simp add: compose_depth_def)
  then show ?thesis using len by (simp add: to_formatted_body_def)
qed

lemma marker_wraps_witness:
  "to_formatted_body (lit ''++a < b++'') = Some (lit ''<u>a &lt; b</u>'')"
  using marker_wraps [of "\<lparr>delim = lit ''++'', tag = lit ''u''\<rparr>" "lit ''a < b''"]
  by (simp add: delimiters_def str_simps unmarked_def rust_space_def compose_limit_def utf8_bytes_def
    m_open_def m_close_def escape_def)

end
