(* ===== verification/Mentions.thy ===== *)
theory Mentions
  imports Compose_Pills Text_Safety "HOL-Library.List_Lexorder"
begin

text \<open>
  \<open>src/core/src/mention.rs\<close>: the candidates a picker offers, what the picked ids stand for, and what a message
  and an edit carry of them.  What the client knows of an id is a parameter, and so is Unicode's lower case.
\<close>

section \<open>Candidates\<close>

definition room_key :: str where
  "room_key = lit ''@room''"

definition max_candidates :: nat where
  "max_candidates = 30"

definition word_end :: "nat \<Rightarrow> bool" where
  "word_end c \<longleftrightarrow> rust_space c \<or> c = 45 \<or> c = 95 \<or> c = 46"

definition name_matches :: "(str \<Rightarrow> str) \<Rightarrow> str \<Rightarrow> str \<Rightarrow> str \<Rightarrow> bool" where
  "name_matches lower query name user_id \<longleftrightarrow>
     (if query = [] then True
      else
        (let query = lower query;
             localpart = lower (hd (split_on (\<lambda>c. c = 58) (dropWhile (\<lambda>c. c = 64 \<or> c = 35) user_id)))
         in starts_with query localpart \<or> list_ex (starts_with query) (split_on word_end (lower name))))"

record candidate =
  cand_id :: str
  cand_label :: str
  cand_insert :: str
  cand_avatar :: "str option"

text \<open>A member: the id, the display name, the avatar.\<close>

type_synonym room_member = "str \<times> str option \<times> str option"

definition candidate_row :: "room_member \<Rightarrow> candidate" where
  "candidate_row m =
     (case m of (uid, display, avatar) \<Rightarrow>
        (let name = strip_bidi (case display of None \<Rightarrow> [] | Some d \<Rightarrow> d)
         in \<lparr>cand_id = uid, cand_label = (if name = [] then uid else name),
             cand_insert = (if name = [] then uid else 64 # name), cand_avatar = avatar\<rparr>))"

definition member_matches :: "(str \<Rightarrow> str) \<Rightarrow> str \<Rightarrow> room_member \<Rightarrow> bool" where
  "member_matches lower query m =
     (case m of (uid, display, _) \<Rightarrow> name_matches lower query (strip_bidi (case display of None \<Rightarrow> [] | Some d \<Rightarrow> d)) uid)"

definition room_candidate :: candidate where
  "room_candidate = \<lparr>cand_id = room_key, cand_label = room_key, cand_insert = room_key, cand_avatar = None\<rparr>"

definition member_candidates :: "(str \<Rightarrow> str) \<Rightarrow> str option \<Rightarrow> bool \<Rightarrow> str \<Rightarrow> room_member list \<Rightarrow> candidate list" where
  "member_candidates lower own room_allowed query members =
     (let rows = map candidate_row (filter (member_matches lower query) (filter (\<lambda>m. own \<noteq> Some (fst m)) members));
          rows = take max_candidates (sort_key (\<lambda>r. lower (cand_label r)) rows)
      in (if own \<noteq> None \<and> room_allowed \<and> name_matches lower query (lit ''room'') room_key then [room_candidate] else []) @ rows)"

definition room_text :: "str option \<Rightarrow> str option \<Rightarrow> str option" where
  "room_text alias name =
     (case alias of
        Some a \<Rightarrow> Some a
      | None \<Rightarrow> (case name of None \<Rightarrow> None
          | Some n \<Rightarrow> if strip_bidi n \<noteq> [] then Some (35 # strip_bidi n) else None))"

text \<open>A joined room: the id, whether it is a direct chat or could not be told, the alias, the name, the avatar.\<close>

record joined_room =
  jr_id :: str
  jr_direct :: bool
  jr_alias :: "str option"
  jr_name :: "str option"
  jr_avatar :: "str option"

definition room_row :: "joined_room \<Rightarrow> candidate option" where
  "room_row r =
     (case room_text (jr_alias r) (jr_name r) of
        None \<Rightarrow> None
      | Some stands \<Rightarrow>
          (let name = strip_bidi (case jr_name r of None \<Rightarrow> [] | Some n \<Rightarrow> n)
           in Some \<lparr>cand_id = jr_id r, cand_label = (if name = [] then stands else name), cand_insert = stands, cand_avatar = jr_avatar r\<rparr>))"

definition room_matches :: "(str \<Rightarrow> str) \<Rightarrow> str \<Rightarrow> joined_room \<Rightarrow> bool" where
  "room_matches lower query r \<longleftrightarrow>
     name_matches lower query (strip_bidi (case jr_name r of None \<Rightarrow> [] | Some n \<Rightarrow> n)) (case jr_alias r of None \<Rightarrow> [] | Some a \<Rightarrow> a)"

definition room_candidates :: "(str \<Rightarrow> str) \<Rightarrow> str \<Rightarrow> str \<Rightarrow> joined_room list \<Rightarrow> candidate list" where
  "room_candidates lower here query rooms =
     take max_candidates (sort_key (\<lambda>r. lower (cand_label r))
       (List.map_filter (\<lambda>r. if jr_id r = here \<or> jr_direct r \<or> \<not> room_matches lower query r then None else room_row r) rooms))"

definition candidates :: "(str \<Rightarrow> str) \<Rightarrow> str \<Rightarrow> str option \<Rightarrow> bool \<Rightarrow> joined_room list \<Rightarrow> room_member list \<Rightarrow> str \<Rightarrow> candidate list" where
  "candidates lower here own room_allowed rooms members query =
     (case query of
        c # rest \<Rightarrow>
          if c = 35 then room_candidates lower here rest rooms
          else member_candidates lower own room_allowed (if c = 64 then rest else query) members
      | [] \<Rightarrow> member_candidates lower own room_allowed query members)"

section \<open>What the picked ids stand for\<close>

text \<open>What the client knows of an id: a room with its alias, its name and its link, or a room it does not know; a
  user with the display name, if it is a member here, and the link; or no id at all.\<close>

datatype target = Room "(str option \<times> str option \<times> str) option" | User "str option" str | No_Id

fun needles_from :: "(str \<Rightarrow> target) \<Rightarrow> str list \<Rightarrow> pill list \<times> str list \<times> bool" where
  "needles_from look [] = ([], [], False)"
| "needles_from look (i # ids) =
     (let (pills, users, room) = needles_from look ids in
      if i = room_key then (pills, users, True)
      else case look i of
        Room None \<Rightarrow> (pills, users, room)
      | Room (Some (alias, name, href)) \<Rightarrow>
          (case room_text alias name of
             None \<Rightarrow> (pills, users, room)
           | Some text \<Rightarrow> ((text, href) # pills, users, room))
      | User display href \<Rightarrow>
          (let name = strip_bidi (case display of None \<Rightarrow> [] | Some d \<Rightarrow> d);
               needle = (if name = [] then i else 64 # name)
           in ((needle, href) # pills, i # users, room))
      | No_Id \<Rightarrow> (pills, users, room))"

definition needles :: "(str \<Rightarrow> target) \<Rightarrow> bool \<Rightarrow> str list \<Rightarrow> pill list \<times> str list \<times> bool" where
  "needles look room_known ids =
     (if \<not> room_known then ([], [], False)
      else (let (pills, users, room) = needles_from look ids
            in (sort_key (\<lambda>p. - int (utf8_len (fst p))) pills, users, room)))"

section \<open>A message and an edit\<close>

record outgoing =
  formatted :: "str option"
  mentions :: "(str list \<times> bool) option"

definition resolve_mentions :: "(str \<Rightarrow> target) \<Rightarrow> bool \<Rightarrow> bool \<Rightarrow> str \<Rightarrow> str list \<Rightarrow> outgoing" where
  "resolve_mentions look client room_known body ids =
     (if \<not> client \<or> ids = [] then \<lparr>formatted = to_formatted_body body, mentions = None\<rparr>
      else
        (let (pills, users, room) = needles look room_known ids in
         if pills = [] \<and> \<not> room then \<lparr>formatted = to_formatted_body body, mentions = None\<rparr>
         else \<lparr>formatted = formatted_copy pills room body,
               mentions = (if users \<noteq> [] \<or> room then Some (users, room) else None)\<rparr>))"

definition still_named :: "str \<Rightarrow> str \<Rightarrow> bool" where
  "still_named body needle \<longleftrightarrow> needle \<noteq> [] \<and> contains needle body"

definition named_in :: "(str \<Rightarrow> target) \<Rightarrow> bool \<Rightarrow> str \<Rightarrow> str \<Rightarrow> bool" where
  "named_in look room_known body i =
     (let (pills, _, room) = needles look room_known [i]
      in if room then still_named body room_key else list_ex (\<lambda>p. still_named body (fst p)) pills)"

definition edit_ids :: "(str \<Rightarrow> target) \<Rightarrow> bool \<Rightarrow> bool \<Rightarrow> str \<Rightarrow> str list \<Rightarrow> str list \<Rightarrow> str list" where
  "edit_ids look client room_known body picked previous =
     (if \<not> client then picked
      else fold (\<lambda>i ids. if i \<in> set ids then ids else if named_in look room_known body i then ids @ [i] else ids) previous picked)"

definition edit_parts :: "(str \<Rightarrow> target) \<Rightarrow> bool \<Rightarrow> bool \<Rightarrow> str \<Rightarrow> str list \<Rightarrow> str list \<Rightarrow> outgoing" where
  "edit_parts look client room_known body picked previous =
     resolve_mentions look client room_known body (edit_ids look client room_known body picked previous)"

section \<open>Offers\<close>

definition fitting :: "(str \<Rightarrow> str) \<Rightarrow> str option \<Rightarrow> str \<Rightarrow> room_member list \<Rightarrow> room_member \<Rightarrow> bool" where
  "fitting lower own query members m \<longleftrightarrow> m \<in> set members \<and> own \<noteq> Some (fst m) \<and> member_matches lower query m"

text \<open>The picker offers what matches, at most thirty people in the order of their names, never the user
  itself; nobody who matches is left out unless the thirty are full, and then only behind them; and the whole room
  is offered only to who may call it.\<close>

theorem candidates_offered:
  assumes "rows = filter (\<lambda>r. r \<noteq> room_candidate) (member_candidates lower own room_allowed query members)"
    and "\<forall>m\<in>set members. fst m \<noteq> room_key"
  shows "set rows \<subseteq> candidate_row ` {m. fitting lower own query members m} \<and> length rows \<le> 30 \<and> sorted (map (\<lambda>r. lower (cand_label r)) rows)
    \<and> (room_candidate \<in> set (member_candidates lower own room_allowed query members) \<longrightarrow> own \<noteq> None \<and> room_allowed)
    \<and> (\<forall>m. fitting lower own query members m \<longrightarrow> candidate_row m \<in> set rows
        \<or> length rows = 30 \<and> (\<forall>r\<in>set rows. lower (cand_label r) \<le> lower (cand_label (candidate_row m))))"
proof -
  define found where "found = filter (member_matches lower query) (filter (\<lambda>m. own \<noteq> Some (fst m)) members)"
  define ordered where "ordered = sort_key (\<lambda>r. lower (cand_label r)) (map candidate_row found)"
  have fits: "fitting lower own query members m \<longleftrightarrow> m \<in> set found" for m by (auto simp: fitting_def found_def)
  have set_ordered: "set ordered = candidate_row ` {m. fitting lower own query members m}" by (auto simp: ordered_def fits)
  have "candidate_row m \<noteq> room_candidate" if "fitting lower own query members m" for m
    using assms(2) that by (auto simp: fitting_def candidate_row_def room_candidate_def Let_def split: prod.splits)
  with set_ordered have no_room: "r \<noteq> room_candidate" if "r \<in> set ordered" for r using that by auto
  have taken: "set (take 30 ordered) \<subseteq> set ordered" by (rule set_take_subset)
  have all: "member_candidates lower own room_allowed query members =
      (if own \<noteq> None \<and> room_allowed \<and> name_matches lower query (lit ''room'') room_key then [room_candidate] else []) @ take 30 ordered"
    by (simp add: member_candidates_def Let_def found_def ordered_def max_candidates_def)
  have rows: "rows = take 30 ordered"
    using no_room taken unfolding assms(1) all by (auto simp: filter_id_conv)
  have sorted: "sorted (map (\<lambda>r. lower (cand_label r)) ordered)" by (simp add: ordered_def)
  have "candidate_row m \<in> set rows \<or> length rows = 30 \<and> (\<forall>r\<in>set rows. lower (cand_label r) \<le> lower (cand_label (candidate_row m)))"
    if "fitting lower own query members m" for m
  proof -
    from that set_ordered have "candidate_row m \<in> set (take 30 ordered) \<union> set (drop 30 ordered)"
      unfolding set_append [symmetric] append_take_drop_id by auto
    then consider "candidate_row m \<in> set (take 30 ordered)" | (behind) "candidate_row m \<in> set (drop 30 ordered)" by blast
    then show ?thesis
    proof cases
      case behind
      then have "length ordered > 30" by (metis drop_all empty_iff leI list.set(1))
      moreover have "sorted (map (\<lambda>r. lower (cand_label r)) (take 30 ordered) @ map (\<lambda>r. lower (cand_label r)) (drop 30 ordered))"
        unfolding map_append [symmetric] append_take_drop_id by (rule sorted)
      then have "\<forall>r\<in>set (take 30 ordered). lower (cand_label r) \<le> lower (cand_label (candidate_row m))"
        using behind unfolding sorted_append by auto
      ultimately show ?thesis by (simp add: rows)
    qed (simp add: rows)
  qed
  moreover have "sorted (map (\<lambda>r. lower (cand_label r)) rows)"
    unfolding rows take_map [symmetric] using sorted by (rule sorted_wrt_take)
  moreover have "room_candidate \<in> set (member_candidates lower own room_allowed query members) \<Longrightarrow> own \<noteq> None \<and> room_allowed"
    using no_room taken unfolding all by (auto split: if_splits)
  ultimately show ?thesis using set_ordered taken by (auto simp: rows)
qed

section \<open>Pings\<close>

lemma needles_parts:
  "needles_from look ids = (pills, users, room) \<Longrightarrow>
     users = filter (\<lambda>i. i \<noteq> room_key \<and> (\<exists>d h. look i = User d h)) ids \<and> (room \<longleftrightarrow> room_key \<in> set ids)
     \<and> (users \<noteq> [] \<longrightarrow> pills \<noteq> [])"
  by (induction ids arbitrary: pills users room) (auto simp: Let_def split: prod.splits target.splits option.splits if_splits)

text \<open>A message pings exactly whom its writer picked: the users among the ids, in their order, and the room exactly
  if it was picked; and where nobody is pinged, it carries no mention at all.\<close>

theorem pings_as_picked:
  assumes "client" and "room_known"
  shows "mentions (resolve_mentions look client room_known body ids) =
    (let users = filter (\<lambda>i. i \<noteq> room_key \<and> (\<exists>d h. look i = User d h)) ids; room = (room_key \<in> set ids)
     in if users = [] \<and> \<not> room then None else Some (users, room))"
proof -
  obtain pills users room where n: "needles_from look ids = (pills, users, room)" by (metis prod_cases3)
  have e: "ids = [] \<Longrightarrow> users = [] \<and> \<not> room" using n by simp
  have "sort_key (\<lambda>p. - int (utf8_len (fst p))) pills = [] \<longleftrightarrow> pills = []"
    by (metis length_0_conv length_sort)
  with needles_parts [OF n] show ?thesis
    using e assms n by (auto simp: resolve_mentions_def needles_def Let_def)
qed

text \<open>Of several names that stand at one place of the text, the longest becomes the link: a name does not take the
  head of another.\<close>

theorem longest_name_linked:
  assumes "needles look room_known ids = (pills, users, room)" and "pill_at pills rest = Some p"
    and "q \<in> set pills" and "escape_text (fst q) \<noteq> []" and "starts_with (escape_text (fst q)) rest"
  shows "utf8_len (fst q) \<le> utf8_len (fst p)"
proof -
  have sorted: "sorted (map (\<lambda>p. - int (utf8_len (fst p))) pills)"
    using assms(1) by (auto simp: needles_def Let_def split: if_splits prod.splits)
  from assms(2) obtain i where i: "i < length pills" "pills ! i = p"
    "\<forall>j<i. \<not> (escape_text (fst (pills ! j)) \<noteq> [] \<and> starts_with (escape_text (fst (pills ! j))) rest)"
    by (auto simp: pill_at_def find_Some_iff)
  from assms(3) obtain j where j: "j < length pills" "pills ! j = q" by (auto simp: in_set_conv_nth)
  with i assms(4,5) have "i \<le> j" by (meson leI)
  then have "- int (utf8_len (fst p)) \<le> - int (utf8_len (fst q))"
    using sorted_nth_mono [OF sorted, of i j] i j by simp
  then show ?thesis by simp
qed

text \<open>An edit keeps the mentions picked for it, and of the message's own exactly those whose text still stands in the
  new one; each once.\<close>

theorem edit_keeps_named:
  assumes "client"
  shows "set (edit_ids look client room_known body picked previous) =
      set picked \<union> {i \<in> set previous. named_in look room_known body i}"
    and "\<exists>kept. edit_ids look client room_known body picked previous = picked @ kept \<and> (distinct picked \<longrightarrow> distinct (picked @ kept))"
proof -
  let ?add = "\<lambda>i ids. if i \<in> set ids then ids else if named_in look room_known body i then ids @ [i] else ids"
  have "set (fold ?add previous ids) = set ids \<union> {i \<in> set previous. named_in look room_known body i}
      \<and> (\<exists>kept. fold ?add previous ids = ids @ kept \<and> (distinct ids \<longrightarrow> distinct (ids @ kept)))" for ids
  proof (induction previous arbitrary: ids)
    case (Cons i previous)
    show ?case
      using Cons.IH [of "?add i ids"] by (auto split: if_splits)
  qed simp
  with assms show "set (edit_ids look client room_known body picked previous) =
      set picked \<union> {i \<in> set previous. named_in look room_known body i}"
    "\<exists>kept. edit_ids look client room_known body picked previous = picked @ kept \<and> (distinct picked \<longrightarrow> distinct (picked @ kept))"
    by (simp_all add: edit_ids_def)
qed

definition example_look :: "str \<Rightarrow> target" where
  "example_look i = (if i = lit ''@ann:x'' then User (Some (lit ''Ann'')) (lit ''https://matrix.to/#/@ann:x'')
     else if i = lit ''@anna:x'' then User (Some (lit ''Anna'')) (lit ''https://matrix.to/#/@anna:x'') else No_Id)"

lemma candidates_offered_witness:
  "length (filter (\<lambda>r. r \<noteq> room_candidate) (member_candidates id (Some (lit ''@me:x'')) True (lit ''an'')
     [(lit ''@anna:x'', None, None), (lit ''@me:x'', Some (lit ''anders''), None), (lit ''@b:x'', Some (lit ''ann''), None)])) \<le> 30"
  using candidates_offered [OF refl, of "[(lit ''@anna:x'', None, None), (lit ''@me:x'', Some (lit ''anders''), None), (lit ''@b:x'', Some (lit ''ann''), None)]"
    id "Some (lit ''@me:x'')" True "lit ''an''"] by (simp add: room_key_def str_simps)

lemma pings_as_picked_witness:
  "mentions (resolve_mentions example_look True True (lit ''hi @Ann'') [lit ''@ann:x'', lit ''#r:x'']) = Some ([lit ''@ann:x''], False)"
  unfolding pings_as_picked [OF TrueI TrueI] by (simp add: example_look_def room_key_def str_simps Let_def)

lemma longest_name_linked_witness:
  "utf8_len (lit ''@Ann'') \<le> utf8_len (lit ''@Anna'')"
proof -
  let ?pills = "[(lit ''@Anna'', lit ''https://matrix.to/#/@anna:x''), (lit ''@Ann'', lit ''https://matrix.to/#/@ann:x'')]"
  have "needles example_look True [lit ''@ann:x'', lit ''@anna:x''] = (?pills, [lit ''@ann:x'', lit ''@anna:x''], False)"
    by code_simp
  from longest_name_linked [OF this, of "lit ''@Anna!''" "(lit ''@Anna'', lit ''https://matrix.to/#/@anna:x'')" "(lit ''@Ann'', lit ''https://matrix.to/#/@ann:x'')"]
  show ?thesis by (simp add: pill_at_def escape_text_def escape_def str_simps)
qed

lemma edit_keeps_named_witness:
  "set (edit_ids example_look True True (lit ''bye @Anna'') [] [lit ''@ann:x'', lit ''@anna:x'', lit ''@room'']) \<subseteq> {lit ''@ann:x'', lit ''@anna:x'', lit ''@room''}"
  unfolding edit_keeps_named(1) [OF TrueI] by auto

end
