(* ===== verification/Task_Registry.thy ===== *)
theory Task_Registry
  imports Rust_Text
begin

text \<open>
  The contract of a registry of tasks: a task is spawned, registered, and ended with its registry.  Two parts of the core
  keep such a registry, the room list (\<open>src/core/src/roomlist.rs\<close>, in \<open>Joined_Ask\<close>) and a timeline
  (\<open>src/core/src/timeline.rs\<close>, in \<open>Timeline_Tasks\<close>).
\<close>

text \<open>The tasks of the runtime, by number: those that were given to the registry, those that have ended, and those that
  were told to end.\<close>

record tasks =
  t_registered :: "nat set"
  t_ended :: "nat set"
  t_aborted :: "nat set"

definition no_tasks :: tasks where
  "no_tasks = \<lparr>t_registered = {}, t_ended = {}, t_aborted = {}\<rparr>"

definition enlist :: "nat \<Rightarrow> tasks \<Rightarrow> tasks" where
  "enlist t ts = ts\<lparr>t_registered := insert t (t_registered ts)\<rparr>"

definition abort_tasks :: "nat set \<Rightarrow> tasks \<Rightarrow> tasks" where
  "abort_tasks T ts = ts\<lparr>t_aborted := t_aborted ts \<union> T\<rparr>"

definition end_tasks :: "nat set \<Rightarrow> tasks \<Rightarrow> tasks" where
  "end_tasks T ts = ts\<lparr>t_ended := t_ended ts \<union> T\<rparr>"

lemmas tasks_simps = no_tasks_def enlist_def abort_tasks_def end_tasks_def

definition done_with :: "tasks \<Rightarrow> nat set" where
  "done_with ts = t_aborted ts \<union> t_ended ts"

definition accounted :: "nat set \<Rightarrow> tasks \<Rightarrow> bool" where
  "accounted H ts \<longleftrightarrow> t_registered ts \<subseteq> H \<union> done_with ts"

locale task_registry =
  fixes step :: "'e \<Rightarrow> 's \<times> tasks \<Rightarrow> 's \<times> tasks"
    and is_open :: "'s \<Rightarrow> bool"
    and held :: "'s \<Rightarrow> nat set"
  assumes keeps: "accounted (held s) ts \<Longrightarrow> step e (s, ts) = (s', ts') \<Longrightarrow> accounted (held s') ts'"
    and shuts: "(\<not> is_open s \<longrightarrow> held s \<subseteq> done_with ts) \<Longrightarrow> step e (s, ts) = (s', ts') \<Longrightarrow> \<not> is_open s' \<Longrightarrow> held s' \<subseteq> done_with ts'"
begin

lemma registry_kept:
  assumes "accounted (held s) ts" and "\<not> is_open s \<longrightarrow> held s \<subseteq> done_with ts" and "fold step es (s, ts) = (s', ts')"
  shows "accounted (held s') ts' \<and> (\<not> is_open s' \<longrightarrow> held s' \<subseteq> done_with ts')"
  using assms
proof (induction es arbitrary: s ts)
  case (Cons e es)
  obtain s1 ts1 where e: "step e (s, ts) = (s1, ts1)" by fastforce
  with Cons.prems(3) have "fold step es (s1, ts1) = (s', ts')" by simp
  with Cons.IH keeps [OF Cons.prems(1) e] shuts [OF Cons.prems(2) e] show ?case by blast
qed simp

lemma closed_ends_all:
  assumes "held s = {}" and "fold step es (s, no_tasks) = (s', ts')" and "\<not> is_open s'"
  shows "t_registered ts' \<subseteq> done_with ts'"
  using registry_kept [OF _ _ assms(2)] assms(1,3) by (auto simp: accounted_def no_tasks_def)

end

end
