(* ===== verification/Joined_Ask.thy ===== *)
theory Joined_Ask
  imports Task_Registry
begin

text \<open>
  The request for the joined rooms (\<open>src/core/src/roomcount.rs\<close>), of which one runs at a time, and the tasks beside the
  room list that are ended with it (\<open>src/core/src/roomlist.rs\<close>).  A task that is aborted stops at its next
  suspension, which is a step of its own: until then its claim stands.
\<close>

section \<open>One request at a time\<close>

record joined_ask =
  ja_running :: bool
  ja_again :: bool

definition no_ask :: joined_ask where
  "no_ask = \<lparr>ja_running = False, ja_again = False\<rparr>"

definition claim_joined_ask :: "joined_ask \<Rightarrow> bool \<times> joined_ask" where
  "claim_joined_ask ask =
     (if ja_running ask then (False, ask\<lparr>ja_again := True\<rparr>)
      else (True, ask\<lparr>ja_running := True, ja_again := False\<rparr>))"

definition finish_joined_ask :: "joined_ask \<Rightarrow> bool \<times> joined_ask" where
  "finish_joined_ask ask =
     (if ja_again ask then (True, ask\<lparr>ja_again := False\<rparr>) else (False, ask\<lparr>ja_running := False\<rparr>))"

section \<open>The tasks beside the list\<close>

record side_tasks =
  st_open :: bool
  st_running :: "nat list"

text \<open>A late registration is aborted on the spot; the tasks that have finished are forgotten when the next one comes.\<close>

definition track_side_task :: "nat \<Rightarrow> side_tasks \<Rightarrow> tasks \<Rightarrow> side_tasks \<times> tasks" where
  "track_side_task t st ts =
     (if \<not> st_open st then (st, abort_tasks {t} (enlist t ts))
      else (st\<lparr>st_running := filter (\<lambda>i. i \<notin> t_ended ts) (st_running st) @ [t]\<rparr>, enlist t ts))"

definition open_side_tasks :: "side_tasks \<Rightarrow> side_tasks" where
  "open_side_tasks st = st\<lparr>st_open := True\<rparr>"

definition stop_side_tasks :: "side_tasks \<Rightarrow> tasks \<Rightarrow> side_tasks \<times> tasks" where
  "stop_side_tasks st ts = (st\<lparr>st_open := False, st_running := []\<rparr>, abort_tasks (set (st_running st)) ts)"

text \<open>What happens: a task that was spawned is registered, whatever came between; one ends; the list starts, and stops.\<close>

datatype side_event = Tracked nat | Ended nat | Opened | Stopped

fun side_step :: "side_event \<Rightarrow> side_tasks \<times> tasks \<Rightarrow> side_tasks \<times> tasks" where
  "side_step (Tracked t) (st, ts) = track_side_task t st ts"
| "side_step (Ended t) (st, ts) = (st, end_tasks {t} ts)"
| "side_step Opened (st, ts) = (open_side_tasks st, ts)"
| "side_step Stopped (st, ts) = stop_side_tasks st ts"

definition side_run :: "side_event list \<Rightarrow> side_tasks \<times> tasks" where
  "side_run es = fold side_step es (\<lparr>st_open = False, st_running = []\<rparr>, no_tasks)"

interpretation side: task_registry side_step st_open "\<lambda>st. set (st_running st)"
proof unfold_locales
  fix s s' :: side_tasks and ts ts' :: tasks and e :: side_event
  assume e: "side_step e (s, ts) = (s', ts')"
  show "accounted (set (st_running s)) ts \<Longrightarrow> accounted (set (st_running s')) ts'"
    using e by (cases e) (auto simp: track_side_task_def open_side_tasks_def stop_side_tasks_def tasks_simps accounted_def done_with_def split: if_splits)
  show "\<not> st_open s \<longrightarrow> set (st_running s) \<subseteq> done_with ts \<Longrightarrow> \<not> st_open s' \<Longrightarrow> set (st_running s') \<subseteq> done_with ts'"
    using e by (cases e) (auto simp: track_side_task_def open_side_tasks_def stop_side_tasks_def tasks_simps done_with_def split: if_splits)
qed

text \<open>No task outlives the list it was started beside: once the list has stopped, every task that was registered before or is
  registered after has ended or was told to end - also one that was spawned before the stop and comes to be registered
  only then.\<close>

theorem no_task_outlives_stop:
  assumes "side_run es = (st, ts)" and "\<not> st_open st"
  shows "t_registered ts \<subseteq> t_aborted ts \<union> t_ended ts"
  using side.closed_ends_all [of "\<lparr>st_open = False, st_running = []\<rparr>" es st ts] assms by (simp add: side_run_def done_with_def)

lemma no_task_outlives_stop_witness:
  "2 \<in> t_aborted (snd (side_run [Opened, Tracked 1, Ended 1, Stopped, Tracked 2]))"
proof -
  obtain st ts where r: "side_run [Opened, Tracked 1, Ended 1, Stopped, Tracked 2] = (st, ts)" by fastforce
  then have "\<not> st_open st" "2 \<in> t_registered ts" "2 \<notin> t_ended ts"
    by (auto simp: side_run_def track_side_task_def open_side_tasks_def stop_side_tasks_def tasks_simps)
  with no_task_outlives_stop [OF r] r show ?thesis by auto
qed

section \<open>The requests\<close>

text \<open>The claim; how many tasks of the request have not ended, and whether the one that runs was told to; whether something was asked
  for since the last request went out; how many went out.\<close>

record ask_world =
  aw_ask :: joined_ask
  aw_tasks :: nat
  aw_cut :: bool
  aw_owed :: bool
  aw_sent :: nat

datatype ask_event = Ask_Joined | Request_Done | Task_Cut | Task_Dropped

definition ask_start :: ask_world where
  "ask_start = \<lparr>aw_ask = no_ask, aw_tasks = 0, aw_cut = False, aw_owed = False, aw_sent = 0\<rparr>"

text \<open>An ask starts a task, whose request goes out, or leaves it to the one that runs; an answer, or its absence, ends the
  task or sends the request again; a task that is cut ends where it waits, and its guard clears the claim, unless it
  comes to its end before.\<close>

fun ask_step :: "ask_event \<Rightarrow> ask_world \<Rightarrow> ask_world" where
  "ask_step Ask_Joined w =
     (let (start, ask) = claim_joined_ask (aw_ask w)
      in if start then w\<lparr>aw_ask := ask, aw_tasks := aw_tasks w + 1, aw_cut := False, aw_owed := False, aw_sent := aw_sent w + 1\<rparr>
         else w\<lparr>aw_ask := ask, aw_owed := True\<rparr>)"
| "ask_step Request_Done w =
     (if aw_tasks w = 0 then w
      else let (again, ask) = finish_joined_ask (aw_ask w)
        in if again then w\<lparr>aw_ask := ask, aw_owed := False, aw_sent := aw_sent w + 1\<rparr>
           else w\<lparr>aw_ask := ask, aw_tasks := aw_tasks w - 1, aw_cut := False\<rparr>)"
| "ask_step Task_Cut w = (if aw_tasks w = 0 then w else w\<lparr>aw_cut := True\<rparr>)"
| "ask_step Task_Dropped w =
     (if aw_tasks w = 0 \<or> \<not> aw_cut w then w else w\<lparr>aw_ask := no_ask, aw_tasks := aw_tasks w - 1, aw_cut := False\<rparr>)"

definition ask_run :: "ask_event list \<Rightarrow> ask_world" where
  "ask_run es = fold ask_step es ask_start"

definition ask_ok :: "ask_world \<Rightarrow> bool" where
  "ask_ok w \<longleftrightarrow> aw_tasks w = (if ja_running (aw_ask w) then 1 else 0) \<and> (aw_cut w \<longrightarrow> aw_tasks w = 1)
     \<and> (ja_again (aw_ask w) \<longrightarrow> ja_running (aw_ask w) \<and> aw_owed w)"

lemma step_ask_ok: "ask_ok w \<Longrightarrow> ask_ok (ask_step e w)"
  by (cases e) (auto simp: ask_ok_def claim_joined_ask_def finish_joined_ask_def no_ask_def Let_def split: if_splits)

lemma run_ask_ok: "ask_ok (ask_run es)"
proof -
  have "ask_ok w \<Longrightarrow> ask_ok (fold ask_step es w)" for w by (induction es arbitrary: w) (simp_all add: step_ask_ok)
  moreover have "ask_ok ask_start" by (simp add: ask_ok_def ask_start_def no_ask_def)
  ultimately show ?thesis by (simp add: ask_run_def)
qed

lemma owed_again:
  assumes "Task_Dropped \<notin> set es"
  shows "aw_owed (ask_run es) \<longrightarrow> ja_again (aw_ask (ask_run es))"
  using assms
proof (induction es rule: rev_induct)
  case (snoc e es)
  from snoc.IH snoc.prems have o: "aw_owed (ask_run es) \<longrightarrow> ja_again (aw_ask (ask_run es))" by simp
  have "ask_run (es @ [e]) = ask_step e (ask_run es)" by (simp add: ask_run_def)
  with o snoc.prems run_ask_ok [of es] show ?case
    by (cases e) (auto simp: ask_ok_def claim_joined_ask_def finish_joined_ask_def Let_def split: if_splits)
qed (simp add: ask_run_def ask_start_def)

text \<open>The rooms of the account are asked for one request at a time, and never too few times: at most one task runs, so
  no older answer lands after a newer one; and while no task was ended with the list, an ask that came while a
  request ran is followed by one more as soon as that request is done.\<close>

theorem asks_answered_in_turn:
  assumes "Task_Dropped \<notin> set es"
  shows "aw_tasks (ask_run es) \<le> 1 \<and> (aw_owed (ask_run es) \<longrightarrow> aw_tasks (ask_run es) = 1
    \<and> aw_sent (ask_run (es @ [Request_Done])) = aw_sent (ask_run es) + 1)"
  using owed_again [OF assms] run_ask_ok [of es]
  by (auto simp: ask_ok_def ask_run_def finish_joined_ask_def)

lemma asks_answered_in_turn_witness:
  "aw_sent (ask_run [Ask_Joined, Ask_Joined, Ask_Joined, Request_Done]) = 2"
  using asks_answered_in_turn [of "[Ask_Joined, Ask_Joined, Ask_Joined]"]
  by (simp add: ask_run_def ask_start_def claim_joined_ask_def no_ask_def Let_def)

text \<open>An ask between the end of the list and the moment its task stops is lost: the claim of the old task still stands, and its guard clears the
  note with the claim.\<close>

lemma late_ask_lost:
  "let w = ask_run [Ask_Joined, Task_Cut, Ask_Joined, Task_Dropped] in aw_owed w \<and> aw_sent w = 1 \<and> aw_tasks w = 0 \<and> aw_ask w = no_ask"
  by (simp add: ask_run_def ask_start_def claim_joined_ask_def no_ask_def Let_def)

end
