(* ===== verification/Room_Census.thy ===== *)
theory Room_Census
  imports Rust_Text "HOL-Library.AList" "HOL-Library.Multiset" "HOL-Library.Word"
begin

unbundle bit_operations_syntax

text \<open>
  The census of \<open>src/core/src/roomcount.rs\<close>: how many rooms there are, counted over the client's rooms with a cache of
  who ended a membership, told to the front end where a number moved, and with a hash over what the filters of the
  lists read of a room, which makes them recount.  The rooms, the members their store has and the hasher are
  parameters.
\<close>

section \<open>The census\<close>

datatype room_state = Joined | Left | Invited | Knocked | Banned

definition listed_by_server :: "room_state \<Rightarrow> bool \<Rightarrow> bool option \<Rightarrow> bool" where
  "listed_by_server state forgotten left_by_self =
     (case state of Banned \<Rightarrow> \<not> forgotten | Left \<Rightarrow> \<not> forgotten \<and> left_by_self \<noteq> Some True | _ \<Rightarrow> True)"

record census =
  listed :: nat
  left :: nat
  joined :: nat

definition no_census :: census where
  "no_census = \<lparr>listed = 0, left = 0, joined = 0\<rparr>"

text \<open>A room of the client: what the census and the filters read of it, and the member event of the user that its store
  has, with whether it is a leave and who sent it (none where there is none, or where it cannot be read).\<close>

record own_member =
  is_leave :: bool
  sent_by :: str

record client_room =
  cr_id :: str
  cr_state :: room_state
  cr_space :: bool
  cr_favourite :: bool
  cr_name :: "str option"
  cr_member :: "own_member option"

definition left_by_self :: "str \<Rightarrow> client_room \<Rightarrow> bool option" where
  "left_by_self own r = map_option (\<lambda>m. is_leave m \<and> sent_by m = own) (cr_member r)"

type_synonym leave_cache = "(str \<times> bool option) list"
type_synonym shape_key = "str \<times> 8 word \<times> bool \<times> bool \<times> bool \<times> str option"

fun state_number :: "room_state \<Rightarrow> 8 word" where
  "state_number Joined = 0"
| "state_number Left = 1"
| "state_number Invited = 2"
| "state_number Knocked = 3"
| "state_number Banned = 4"

definition room_shape :: "(shape_key \<Rightarrow> 64 word) \<Rightarrow> client_room \<Rightarrow> bool \<Rightarrow> 64 word" where
  "room_shape hash r forgotten = hash (cr_id r, state_number (cr_state r), forgotten, cr_space r, cr_favourite r, cr_name r)"

definition count_room :: "room_state \<Rightarrow> bool \<Rightarrow> bool option \<Rightarrow> census \<Rightarrow> census" where
  "count_room state forgotten by_self c =
     \<lparr>listed = listed c + (if listed_by_server state forgotten by_self then 1 else 0),
      left = left c + (if (state = Left \<or> state = Banned) \<and> \<not> forgotten then 1 else 0),
      joined = joined c + (if state = Joined then 1 else 0)\<rparr>"

definition leave_of :: "str \<Rightarrow> str set \<Rightarrow> client_room \<Rightarrow> leave_cache \<Rightarrow> bool option \<times> leave_cache" where
  "leave_of own forgotten r cache =
     (if cr_state r = Left \<and> cr_id r \<notin> forgotten then
        (case map_of cache (cr_id r) of
           Some known \<Rightarrow> (known, cache)
         | None \<Rightarrow> (left_by_self own r, AList.update (cr_id r) (left_by_self own r) cache))
      else (None, cache))"

fun take_census :: "(shape_key \<Rightarrow> 64 word) \<Rightarrow> str \<Rightarrow> str set \<Rightarrow> client_room list \<Rightarrow> leave_cache \<Rightarrow> census \<times> 64 word
    \<Rightarrow> (census \<times> 64 word) \<times> leave_cache" where
  "take_census hash own forgotten [] cache acc = (acc, cache)"
| "take_census hash own forgotten (r # rs) cache (c, shape) =
     (let (by_self, cache) = leave_of own forgotten r cache
      in take_census hash own forgotten rs cache
           (count_room (cr_state r) (cr_id r \<in> forgotten) by_self c, shape XOR room_shape hash r (cr_id r \<in> forgotten)))"

text \<open>Updates of the client, and the mark that some were missed; what is drained from their queue: whether a
  membership moved, and the cache without the rooms whose membership did.\<close>

datatype room_update = Membership str | Renamed str | Recency str | Lagged

fun drain_updates :: "room_update list \<Rightarrow> leave_cache \<Rightarrow> bool \<times> leave_cache" where
  "drain_updates [] cache = (False, cache)"
| "drain_updates (u # us) cache =
     (case u of
        Membership r \<Rightarrow> (True, snd (drain_updates us (AList.delete r cache)))
      | Lagged \<Rightarrow> (True, snd (drain_updates us []))
      | _ \<Rightarrow> drain_updates us cache)"

definition wakes :: "room_update \<Rightarrow> bool" where
  "wakes u \<longleftrightarrow> (case u of Recency _ \<Rightarrow> False | _ \<Rightarrow> True)"

definition needs_recount :: "(census \<times> 64 word) option \<Rightarrow> census \<times> 64 word \<Rightarrow> bool" where
  "needs_recount previous now \<longleftrightarrow> previous \<noteq> Some now"

text \<open>What is told of a census: the counts of the list if they moved, the left rooms if they moved.\<close>

datatype told = List_Known nat nat | Left_Count nat

definition report_census :: "census option \<Rightarrow> census \<Rightarrow> told list" where
  "report_census before c =
     (if (case before of None \<Rightarrow> True | Some b \<Rightarrow> listed b \<noteq> listed c \<or> joined b \<noteq> joined c)
      then [List_Known (listed c) (joined c)] else [])
     @ (if (case before of None \<Rightarrow> True | Some b \<Rightarrow> left b \<noteq> left c) then [Left_Count (left c)] else [])"

section \<open>The loop of the census\<close>

text \<open>The client with the queue of its updates; the cache and the last count of the task; the generation that the
  filtered lists watch; what was told.\<close>

record census_world =
  cw_rooms :: "client_room list"
  cw_forgotten :: "str set"
  cw_queue :: "room_update list"
  cw_cache :: leave_cache
  cw_last :: "(census \<times> 64 word) option"
  cw_generation :: "64 word"
  cw_told :: "told list"

text \<open>One round: what queued up is drained, then the rooms are counted and the count is told.\<close>

definition census_round :: "(shape_key \<Rightarrow> 64 word) \<Rightarrow> str \<Rightarrow> census_world \<Rightarrow> census_world" where
  "census_round hash own w =
     (let cache = snd (drain_updates (cw_queue w) (cw_cache w));
          (now, cache) = take_census hash own (cw_forgotten w) (cw_rooms w) cache (no_census, 0)
      in w\<lparr>cw_queue := [], cw_cache := cache, cw_last := Some now,
           cw_generation := (if needs_recount (cw_last w) now then cw_generation w + 1 else cw_generation w),
           cw_told := cw_told w @ report_census (map_option fst (cw_last w)) (fst now)\<rparr>)"

text \<open>A room that changes its state or whose member event changes is announced, or the queue overflows and says so
  (\<open>census_moves\<close>); a name or a mark as favourite moves neither (\<open>census_renames\<close>).\<close>

inductive census_run :: "(shape_key \<Rightarrow> 64 word) \<Rightarrow> str \<Rightarrow> census_world \<Rightarrow> bool" for hash own where
  census_start: "cw_cache w = [] \<Longrightarrow> cw_last w = None \<Longrightarrow> cw_told w = [] \<Longrightarrow> distinct (map cr_id (cw_rooms w))
    \<Longrightarrow> census_run hash own w"
| census_moves: "census_run hash own w \<Longrightarrow> u = Membership (cr_id r) \<or> u = Lagged
    \<Longrightarrow> census_run hash own (w\<lparr>cw_rooms := r # filter (\<lambda>q. cr_id q \<noteq> cr_id r) (cw_rooms w), cw_queue := cw_queue w @ [u]\<rparr>)"
| census_renames: "census_run hash own w \<Longrightarrow> (\<And>r. cr_id (f r) = cr_id r \<and> cr_state (f r) = cr_state r \<and> cr_member (f r) = cr_member r)
    \<Longrightarrow> census_run hash own (w\<lparr>cw_rooms := map f (cw_rooms w), cw_queue := cw_queue w @ us\<rparr>)"
| census_forgets: "census_run hash own w \<Longrightarrow> census_run hash own (w\<lparr>cw_forgotten := f\<rparr>)"
| census_rounds: "census_run hash own w \<Longrightarrow> census_run hash own (census_round hash own w)"

text \<open>The count over the store itself, the numbers the front end has once it has heard what it was told, and the
  shape of all the rooms.\<close>

definition counted :: "str \<Rightarrow> str set \<Rightarrow> client_room list \<Rightarrow> census" where
  "counted own forgotten rooms =
     \<lparr>listed = length (filter (\<lambda>r. listed_by_server (cr_state r) (cr_id r \<in> forgotten) (left_by_self own r)) rooms),
      left = length (filter (\<lambda>r. (cr_state r = Left \<or> cr_state r = Banned) \<and> cr_id r \<notin> forgotten) rooms),
      joined = length (filter (\<lambda>r. cr_state r = Joined) rooms)\<rparr>"

fun hear :: "told \<Rightarrow> census \<Rightarrow> census" where
  "hear (List_Known known j) c = c\<lparr>listed := known, joined := j\<rparr>"
| "hear (Left_Count n) c = c\<lparr>left := n\<rparr>"

definition heard :: "told list \<Rightarrow> census" where
  "heard ts = fold hear ts no_census"

definition shape_of :: "(shape_key \<Rightarrow> 64 word) \<Rightarrow> str set \<Rightarrow> client_room list \<Rightarrow> 64 word" where
  "shape_of hash forgotten rooms = fold (\<lambda>r shape. shape XOR room_shape hash r (cr_id r \<in> forgotten)) rooms 0"

section \<open>The cache tells the truth\<close>

definition true_cache :: "str \<Rightarrow> client_room list \<Rightarrow> leave_cache \<Rightarrow> bool" where
  "true_cache own rooms cache \<longleftrightarrow> (\<forall>r\<in>set rooms. \<forall>b. map_of cache (cr_id r) = Some b \<longrightarrow> b = left_by_self own r)"

definition announced :: "room_update list \<Rightarrow> str \<Rightarrow> bool" where
  "announced us r \<longleftrightarrow> Lagged \<in> set us \<or> Membership r \<in> set us"

definition cache_ok :: "str \<Rightarrow> census_world \<Rightarrow> bool" where
  "cache_ok own w \<longleftrightarrow> (\<forall>r\<in>set (cw_rooms w). \<forall>b. map_of (cw_cache w) (cr_id r) = Some b
     \<longrightarrow> b = left_by_self own r \<or> announced (cw_queue w) (cr_id r))"

lemma drained: "map_of (snd (drain_updates us cache)) r = Some b \<Longrightarrow> map_of cache r = Some b \<and> \<not> announced us r"
proof (induction us arbitrary: cache)
  case (Cons u us)
  show ?case
  proof (cases u)
    case (Membership x)
    with Cons.prems Cons.IH [of "AList.delete x cache"] show ?thesis by (auto simp: announced_def delete_conv' split: if_splits)
  next
    case Lagged
    with Cons.prems Cons.IH [of "[]"] show ?thesis by simp
  qed (use Cons.prems Cons.IH [of cache] in \<open>auto simp: announced_def\<close>)
qed (simp add: announced_def)

lemma leave_of_eq:
  assumes "true_cache own (r # rooms) cache" and "leave_of own forgotten r cache = (by_self, cache')"
    and "\<forall>q\<in>set rooms. cr_id q \<noteq> cr_id r"
  shows "count_room (cr_state r) (cr_id r \<in> forgotten) by_self c = count_room (cr_state r) (cr_id r \<in> forgotten) (left_by_self own r) c"
    and "true_cache own rooms cache'"
    and "\<And>i b. map_of cache' i = Some b \<Longrightarrow> map_of cache i = Some b \<or> cr_id r = i \<and> left_by_self own r = b"
  using assms
  by (auto simp: leave_of_def count_room_def listed_by_server_def true_cache_def update_conv' split: if_splits option.splits room_state.splits)

definition sum_census :: "census \<Rightarrow> census \<Rightarrow> census" where
  "sum_census a b = \<lparr>listed = listed a + listed b, left = left a + left b, joined = joined a + joined b\<rparr>"

lemma sum_none [simp]: "sum_census c no_census = c" "sum_census no_census c = c"
  by (simp_all add: sum_census_def no_census_def)

lemma counted_simps [simp]:
  "counted own forgotten [] = no_census"
  "sum_census (count_room (cr_state r) (cr_id r \<in> forgotten) (left_by_self own r) c) (counted own forgotten rs)
     = sum_census c (counted own forgotten (r # rs))"
  by (auto simp: counted_def no_census_def count_room_def sum_census_def)

lemma take_census_eq:
  assumes "true_cache own rooms cache" and "distinct (map cr_id rooms)"
  shows "fst (take_census hash own forgotten rooms cache (c, shape)) =
      (sum_census c (counted own forgotten rooms), fold (\<lambda>r shape. shape XOR room_shape hash r (cr_id r \<in> forgotten)) rooms shape)
    \<and> (\<forall>i b. map_of (snd (take_census hash own forgotten rooms cache (c, shape))) i = Some b \<longrightarrow> map_of cache i = Some b
        \<or> (\<exists>q\<in>set rooms. cr_id q = i \<and> left_by_self own q = b))"
  using assms
proof (induction rooms arbitrary: cache c shape)
  case (Cons r rooms)
  obtain by_self cache' where l: "leave_of own forgotten r cache = (by_self, cache')" by fastforce
  have d: "\<forall>q\<in>set rooms. cr_id q \<noteq> cr_id r" "distinct (map cr_id rooms)"
    using Cons.prems(2) by (auto simp: image_iff)
  note eq = leave_of_eq [OF Cons.prems(1) l d(1)]
  from Cons.IH [OF eq(2) d(2)] l eq(1,3) show ?case by fastforce
qed simp

lemma one_room: "distinct (map cr_id rooms) \<Longrightarrow> q \<in> set rooms \<Longrightarrow> r \<in> set rooms \<Longrightarrow> cr_id q = cr_id r \<Longrightarrow> q = r"
  by (metis distinct_map inj_onD)

lemma round_eq:
  assumes "cache_ok own w" and d: "distinct (map cr_id (cw_rooms w))"
  shows "cw_last (census_round hash own w) = Some (counted own (cw_forgotten w) (cw_rooms w), shape_of hash (cw_forgotten w) (cw_rooms w))"
    and "cache_ok own (census_round hash own w)"
proof -
  let ?cache = "snd (drain_updates (cw_queue w) (cw_cache w))"
  have true: "true_cache own (cw_rooms w) ?cache"
    using assms(1) drained [of "cw_queue w" "cw_cache w"] by (auto simp: true_cache_def cache_ok_def)
  obtain now cache' where t: "take_census hash own (cw_forgotten w) (cw_rooms w) ?cache (no_census, 0) = (now, cache')" by fastforce
  note eq = take_census_eq [OF true d, of hash "cw_forgotten w" no_census 0, unfolded t, simplified]
  from eq show "cw_last (census_round hash own w) = Some (counted own (cw_forgotten w) (cw_rooms w), shape_of hash (cw_forgotten w) (cw_rooms w))"
    by (simp add: census_round_def t shape_of_def)
  have "b = left_by_self own r" if r: "r \<in> set (cw_rooms w)" and b: "map_of cache' (cr_id r) = Some b" for r b
  proof -
    from eq b have "map_of ?cache (cr_id r) = Some b \<or> (\<exists>q\<in>set (cw_rooms w). cr_id q = cr_id r \<and> left_by_self own q = b)" by blast
    then show ?thesis
    proof
      assume "map_of ?cache (cr_id r) = Some b"
      with true r show ?thesis by (simp add: true_cache_def)
    next
      assume "\<exists>q\<in>set (cw_rooms w). cr_id q = cr_id r \<and> left_by_self own q = b"
      with one_room [OF d _ r] show ?thesis by blast
    qed
  qed
  then show "cache_ok own (census_round hash own w)" by (simp add: census_round_def t cache_ok_def)
qed

lemma run_cache: "census_run hash own w \<Longrightarrow> cache_ok own w \<and> distinct (map cr_id (cw_rooms w))"
proof (induction rule: census_run.induct)
  case (census_moves w u r)
  then have "announced (cw_queue w @ [u]) (cr_id r)" by (auto simp: announced_def)
  moreover have "announced (cw_queue w) i \<Longrightarrow> announced (cw_queue w @ [u]) i" for i by (auto simp: announced_def)
  ultimately show ?case using census_moves by (auto simp: cache_ok_def distinct_map_filter)
next
  case (census_renames w f us)
  have [simp]: "cr_id (f r) = cr_id r" "left_by_self own (f r) = left_by_self own r" for r
    using census_renames.hyps(2) by (simp_all add: left_by_self_def)
  have more: "announced (cw_queue w) i \<Longrightarrow> announced (cw_queue w @ us) i" for i by (auto simp: announced_def)
  have "cr_id \<circ> f = cr_id" by (simp add: fun_eq_iff)
  then have "distinct (map cr_id (map f (cw_rooms w)))" using census_renames.IH by simp
  moreover have "cache_ok own (w\<lparr>cw_rooms := map f (cw_rooms w), cw_queue := cw_queue w @ us\<rparr>)"
    using census_renames.IH more unfolding cache_ok_def by auto
  ultimately show ?case by simp
next
  case (census_rounds w)
  moreover have "cw_rooms (census_round hash own w) = cw_rooms w" by (simp add: census_round_def split: prod.splits)
  ultimately show ?case using round_eq(2) by simp
qed (auto simp: cache_ok_def announced_def)

section \<open>What the front end has heard\<close>

lemma hear_report:
  assumes "case before of None \<Rightarrow> True | Some b \<Rightarrow> heard ts = b"
  shows "heard (ts @ report_census before c) = c"
  using assms by (cases before) (auto simp: heard_def report_census_def)

lemma round_told: "cw_told (census_round hash own w) = cw_told w @ report_census (map_option fst (cw_last w)) (fst (the (cw_last (census_round hash own w))))"
  by (simp add: census_round_def split: prod.splits)

lemma run_heard: "census_run hash own w \<Longrightarrow> case cw_last w of None \<Rightarrow> True | Some (c, _) \<Rightarrow> heard (cw_told w) = c"
proof (induction rule: census_run.induct)
  case (census_rounds w)
  from round_eq(1) run_cache [OF census_rounds.hyps] obtain c s where l: "cw_last (census_round hash own w) = Some (c, s)" by blast
  from census_rounds.IH show ?case
    unfolding round_told l by (simp, intro hear_report) (auto split: option.splits)
qed (auto split: option.splits)

text \<open>C36: The numbers of the chat list are those of a count over the client's store: however memberships moved before, in
  whatever order their updates came and however many were missed, and though only a number that moved is
  told, the front end has after a census exactly the counts over the rooms as they are - a remembered leave
  never stands against the store.\<close>

theorem census_counts:
  assumes "census_run hash own w"
  shows "heard (cw_told (census_round hash own w)) = counted own (cw_forgotten w) (cw_rooms w)"
  using run_heard [OF census_rounds [OF assms]] round_eq(1) run_cache [OF assms] by fastforce

theorem census_counts_witness:
  "let room = \<lparr>cr_id = lit ''!a:x'', cr_state = Left, cr_space = False, cr_favourite = False, cr_name = None,
        cr_member = Some \<lparr>is_leave = True, sent_by = lit ''@me:x''\<rparr>\<rparr>;
      w = \<lparr>cw_rooms = [room], cw_forgotten = {}, cw_queue = [], cw_cache = [], cw_last = None, cw_generation = 0, cw_told = []\<rparr>
   in heard (cw_told (census_round (\<lambda>_. 0) (lit ''@me:x'') w)) = \<lparr>listed = 0, left = 1, joined = 0\<rparr>"
  unfolding Let_def
  by (subst census_counts [OF census_start]) (simp_all add: counted_def left_by_self_def listed_by_server_def)

text \<open>The lists recount exactly when they have to: after a census the generation they watch has moved if and only if a
  count or the shape of the rooms is another than at the last one, and the order in which the client holds its
  rooms is no such change.\<close>

theorem recount_iff_moved:
  assumes "census_run hash own w" and "mset rooms = mset (cw_rooms w)"
    and "cw_last w = Some (counted own forgotten rooms', shape_of hash forgotten rooms')"
  shows "cw_generation (census_round hash own w) \<noteq> cw_generation w
    \<longleftrightarrow> counted own (cw_forgotten w) rooms \<noteq> counted own forgotten rooms'
      \<or> shape_of hash (cw_forgotten w) rooms \<noteq> shape_of hash forgotten rooms'"
proof -
  have c: "counted own (cw_forgotten w) rooms = counted own (cw_forgotten w) (cw_rooms w)"
    unfolding counted_def size_mset [symmetric] mset_filter assms(2) ..
  have s: "shape_of hash (cw_forgotten w) rooms = shape_of hash (cw_forgotten w) (cw_rooms w)"
    unfolding shape_of_def by (rule fun_cong [OF fold_multiset_equiv [OF _ assms(2)]]) (simp add: fun_eq_iff ac_simps)
  have "cw_generation (census_round hash own w)
      = (if cw_last w = cw_last (census_round hash own w) then cw_generation w else cw_generation w + 1)"
    by (auto simp: census_round_def needs_recount_def split: prod.splits)
  with round_eq(1) run_cache [OF assms(1)] assms(3) c s show ?thesis by (auto split: if_splits)
qed

end
