(* ===== verification/Left_Rooms.thy ===== *)
theory Left_Rooms
  imports Room_Census
begin

text \<open>
  \<open>src/core/src/leftrooms.rs\<close>: rooms that were left, the mark of those that were forgotten in this run, and the list of
  rooms whose events are to be purged from disk at the next start.  The answers of the server and of the disk are
  parameters of the steps.
\<close>

section \<open>The state\<close>

text \<open>What is stored under the key of the purge list: nothing, a list, or bytes that do not parse.\<close>

datatype purge_value = No_Value | Purge_List "str list" | Unreadable

text \<open>The rooms of the client; the marks of this run; the stored list; the rooms whose events are on disk.\<close>

record left_world =
  lw_rooms :: "str \<Rightarrow> room_state option"
  lw_marks :: "str set option"
  lw_pending :: purge_value
  lw_cached :: "str set"

definition forget_session :: "left_world \<Rightarrow> left_world" where
  "forget_session w = w\<lparr>lw_marks := None\<rparr>"

definition was_forgotten :: "left_world \<Rightarrow> str \<Rightarrow> bool" where
  "was_forgotten w r \<longleftrightarrow> (case lw_marks w of Some marks \<Rightarrow> r \<in> marks | None \<Rightarrow> False)"

definition returned_to :: "room_state \<Rightarrow> bool" where
  "returned_to state \<longleftrightarrow> \<not> (state = Left \<or> state = Banned)"

definition pending_purge :: "left_world \<Rightarrow> str list" where
  "pending_purge w = (case lw_pending w of Purge_List rooms \<Rightarrow> rooms | _ \<Rightarrow> [])"

definition store_pending_purge :: "bool \<Rightarrow> str list \<Rightarrow> left_world \<Rightarrow> left_world" where
  "store_pending_purge saved rooms w =
     (if \<not> saved then w else w\<lparr>lw_pending := (if rooms = [] then No_Value else Purge_List rooms)\<rparr>)"

definition update_pending_purge :: "bool \<Rightarrow> (str list \<Rightarrow> str list) \<Rightarrow> left_world \<Rightarrow> left_world" where
  "update_pending_purge saved change w = store_pending_purge saved (change (pending_purge w)) w"

definition is_back :: "left_world \<Rightarrow> str \<Rightarrow> bool" where
  "is_back w r \<longleftrightarrow> (case lw_rooms w r of Some state \<Rightarrow> returned_to state | None \<Rightarrow> False)"

definition unforget_returned :: "bool \<Rightarrow> left_world \<Rightarrow> left_world" where
  "unforget_returned saved w =
     (case lw_marks w of
        None \<Rightarrow> w
      | Some marks \<Rightarrow>
          (let returned = {r \<in> marks. is_back w r}; w = w\<lparr>lw_marks := Some (marks - returned)\<rparr>
           in if returned = {} then w else update_pending_purge saved (filter (\<lambda>r. r \<notin> returned)) w))"

definition add_room :: "str \<Rightarrow> str list \<Rightarrow> str list" where
  "add_room r rooms = (if r \<in> set rooms then rooms else rooms @ [r])"

text \<open>The purge at a start: which ids parse, which rooms the cache clears, and whether it can be locked.\<close>

definition purge_forgotten_caches :: "(str \<Rightarrow> bool) \<Rightarrow> (str \<Rightarrow> bool) \<Rightarrow> bool \<Rightarrow> bool \<Rightarrow> left_world \<Rightarrow> left_world" where
  "purge_forgotten_caches parses clears locked saved w =
     (let pending = pending_purge w in
      if pending = [] \<or> \<not> locked then w
      else store_pending_purge saved (filter (\<lambda>r. parses r \<and> \<not> clears r) pending)
        (w\<lparr>lw_cached := lw_cached w - {r \<in> set pending. parses r \<and> clears r}\<rparr>))"

definition is_left :: "left_world \<Rightarrow> str \<Rightarrow> bool" where
  "is_left w r \<longleftrightarrow> (case lw_rooms w r of Some state \<Rightarrow> (state = Left \<or> state = Banned) \<and> \<not> was_forgotten w r | None \<Rightarrow> False)"

text \<open>A room that is forgotten: refused unless it was left; the server may refuse; then the purge is noted, and the
  mark set.\<close>

definition forget_room :: "bool \<Rightarrow> bool \<Rightarrow> str \<Rightarrow> left_world \<Rightarrow> (str + unit) \<times> left_world" where
  "forget_room answered saved r w =
     (case lw_rooms w r of
        None \<Rightarrow> (Inl (lit ''room is not known''), w)
      | Some state \<Rightarrow>
          if \<not> (state = Left \<or> state = Banned) then (Inl (lit ''only a left room can be forgotten''), w)
          else if \<not> answered then (Inl (lit ''could not forget the room''), w)
          else (let w = update_pending_purge saved (add_room r) w
                in (Inr (), w\<lparr>lw_marks := Some (insert r (case lw_marks w of Some marks \<Rightarrow> marks | None \<Rightarrow> {}))\<rparr>)))"

section \<open>The runs of the program\<close>

text \<open>A membership that moves; the census that looks for rooms the account came back to (which it does after the move, and
  maybe never, if the program ends before); a room that is forgotten; events that are cached; a start, which purges
  before a room is loaded, and knows the rooms its store gave it.\<close>

datatype left_event =
    Moved str room_state
  | Looked bool
  | Forget str bool bool
  | Cached str
  | Started "str \<Rightarrow> room_state option" "str \<Rightarrow> bool" bool bool

fun left_step :: "(str \<Rightarrow> bool) \<Rightarrow> left_event \<Rightarrow> left_world \<Rightarrow> left_world" where
  "left_step parses (Moved r state) w = w\<lparr>lw_rooms := (lw_rooms w)(r \<mapsto> state)\<rparr>"
| "left_step parses (Looked saved) w = unforget_returned saved w"
| "left_step parses (Forget r answered saved) w = snd (forget_room answered saved r w)"
| "left_step parses (Cached r) w = w\<lparr>lw_cached := insert r (lw_cached w)\<rparr>"
| "left_step parses (Started rooms clears locked saved) w =
     purge_forgotten_caches parses clears locked saved ((forget_session w)\<lparr>lw_rooms := rooms\<rparr>)"

definition left_run :: "(str \<Rightarrow> bool) \<Rightarrow> left_event list \<Rightarrow> left_world \<Rightarrow> left_world" where
  "left_run parses = fold (left_step parses)"

text \<open>A disk that does what it is told, in every step.\<close>

fun disk_works :: "left_event \<Rightarrow> bool" where
  "disk_works (Looked saved) = saved"
| "disk_works (Forget _ _ saved) = saved"
| "disk_works (Started rooms clears locked saved) = (locked \<and> saved \<and> (\<forall>r. clears r))"
| "disk_works _ = True"

definition fresh_world :: "(str \<Rightarrow> room_state option) \<Rightarrow> left_world" where
  "fresh_world rooms = \<lparr>lw_rooms = rooms, lw_marks = None, lw_pending = No_Value, lw_cached = {}\<rparr>"

section \<open>What the history says\<close>

text \<open>The memberships after a history, and whether the account had left a room, or was in it or asked into it.\<close>

fun moved_to :: "left_event \<Rightarrow> (str \<Rightarrow> room_state option) \<Rightarrow> (str \<Rightarrow> room_state option)" where
  "moved_to (Moved r state) rooms = rooms(r \<mapsto> state)"
| "moved_to (Started rooms' _ _ _) rooms = rooms'"
| "moved_to _ rooms = rooms"

definition memberships :: "(str \<Rightarrow> room_state option) \<Rightarrow> left_event list \<Rightarrow> str \<Rightarrow> room_state option" where
  "memberships rooms es = fold moved_to es rooms"

definition was_left :: "(str \<Rightarrow> room_state option) \<Rightarrow> left_event list \<Rightarrow> str \<Rightarrow> bool" where
  "was_left rooms es r \<longleftrightarrow> memberships rooms es r \<in> {Some Left, Some Banned}"

definition was_back :: "(str \<Rightarrow> room_state option) \<Rightarrow> left_event list \<Rightarrow> str \<Rightarrow> bool" where
  "was_back rooms es r \<longleftrightarrow> memberships rooms es r \<noteq> None \<and> \<not> was_left rooms es r"

text \<open>A room the user had forgotten, in a forgetting that the server accepted; the program was not started since; and at no
  look of the census since was the account back in it.\<close>

definition forgotten_since :: "(str \<Rightarrow> room_state option) \<Rightarrow> left_event list \<Rightarrow> str \<Rightarrow> bool" where
  "forgotten_since rooms es r \<longleftrightarrow>
     (\<exists>before saved after. es = before @ Forget r True saved # after \<and> was_left rooms before r
        \<and> (\<forall>rooms' clears locked saved'. Started rooms' clears locked saved' \<notin> set after)
        \<and> (\<forall>mid saved' rest. after = mid @ Looked saved' # rest \<longrightarrow> \<not> was_back rooms (before @ Forget r True saved # mid) r))"

lemma forgotten_nil: "\<not> forgotten_since rooms [] r"
  by (simp add: forgotten_since_def)

lemma memberships_snoc: "memberships rooms (es @ [e]) = moved_to e (memberships rooms es)"
  by (simp add: memberships_def)

lemma forgotten_snoc:
  "forgotten_since rooms (es @ [e]) r \<longleftrightarrow>
     (\<exists>saved. e = Forget r True saved) \<and> was_left rooms es r
     \<or> forgotten_since rooms es r \<and> (\<forall>rooms' clears locked saved. e \<noteq> Started rooms' clears locked saved)
        \<and> (\<forall>saved. e = Looked saved \<longrightarrow> \<not> was_back rooms es r)" (is "?l \<longleftrightarrow> ?new \<or> ?old")
proof
  assume ?l
  then obtain before saved after where f: "es @ [e] = before @ Forget r True saved # after" "was_left rooms before r"
    "\<And>rooms' clears locked saved'. Started rooms' clears locked saved' \<notin> set after"
    "\<And>mid saved' rest. after = mid @ Looked saved' # rest \<Longrightarrow> \<not> was_back rooms (before @ Forget r True saved # mid) r"
    unfolding forgotten_since_def by blast
  show "?new \<or> ?old"
  proof (cases after rule: rev_cases)
    case Nil
    with f show ?thesis by auto
  next
    case (snoc after' e')
    with f(1) have e: "e' = e" "es = before @ Forget r True saved # after'" by auto
    have "\<not> was_back rooms (before @ Forget r True saved # mid) r" if "after' = mid @ Looked saved' # rest" for mid saved' rest
      using f(4) [of mid saved' "rest @ [e]"] that snoc e(1) by simp
    moreover have "Started rooms' clears locked saved' \<notin> set after'" for rooms' clears locked saved' using f(3) snoc by simp
    ultimately have "forgotten_since rooms es r"
      unfolding forgotten_since_def using e(2) f(2) by blast
    moreover have "e \<noteq> Started rooms' clears locked saved'" for rooms' clears locked saved' using f(3) snoc e(1) by auto
    moreover have "e = Looked saved' \<Longrightarrow> \<not> was_back rooms es r" for saved' using f(4) [of after' saved' "[]"] snoc e by simp
    ultimately show ?thesis by blast
  qed
next
  assume "?new \<or> ?old"
  then show ?l
  proof
    assume ?new
    then obtain saved where "e = Forget r True saved" "was_left rooms es r" by blast
    then show ?l unfolding forgotten_since_def by (intro exI [of _ es] exI [of _ saved] exI [of _ "[]"]) simp
  next
    assume o: ?old
    then obtain before saved after where f: "es = before @ Forget r True saved # after" "was_left rooms before r"
      "\<forall>rooms' clears locked saved'. Started rooms' clears locked saved' \<notin> set after"
      "\<forall>mid saved' rest. after = mid @ Looked saved' # rest \<longrightarrow> \<not> was_back rooms (before @ Forget r True saved # mid) r"
      unfolding forgotten_since_def by blast
    have "\<not> was_back rooms (before @ Forget r True saved # mid) r" if "after @ [e] = mid @ Looked saved' # rest" for mid saved' rest
      using that f o by (cases rest rule: rev_cases) auto
    with f o show ?l
      unfolding forgotten_since_def by (intro exI [of _ before] exI [of _ saved] exI [of _ "after @ [e]"]) auto
  qed
qed

section \<open>The state keeps to the history\<close>

definition keeps_to :: "(str \<Rightarrow> room_state option) \<Rightarrow> left_event list \<Rightarrow> left_world \<Rightarrow> bool" where
  "keeps_to rooms es w \<longleftrightarrow> lw_rooms w = memberships rooms es
     \<and> (\<forall>r. was_forgotten w r \<longleftrightarrow> forgotten_since rooms es r) \<and> (\<forall>r. r \<in> set (pending_purge w) \<longleftrightarrow> forgotten_since rooms es r)"

lemma pending_stored: "saved \<Longrightarrow> pending_purge (store_pending_purge saved rooms w) = rooms"
  by (simp add: pending_purge_def store_pending_purge_def)

lemma stored_frame [simp]:
  "lw_rooms (store_pending_purge saved rooms w) = lw_rooms w" "lw_marks (store_pending_purge saved rooms w) = lw_marks w"
  "lw_rooms (update_pending_purge saved change w) = lw_rooms w" "lw_marks (update_pending_purge saved change w) = lw_marks w"
  by (simp_all add: store_pending_purge_def update_pending_purge_def)

lemma pending_updated: "saved \<Longrightarrow> pending_purge (update_pending_purge saved change w) = change (pending_purge w)"
  by (simp add: update_pending_purge_def pending_stored)

lemma pending_frame [simp]:
  "pending_purge (w\<lparr>lw_rooms := f\<rparr>) = pending_purge w" "pending_purge (w\<lparr>lw_marks := m\<rparr>) = pending_purge w"
  "pending_purge (w\<lparr>lw_cached := c\<rparr>) = pending_purge w"
  by (simp_all add: pending_purge_def)

lemma unforget_effect:
  assumes "saved" and "\<And>r. r \<in> set (pending_purge w) \<longleftrightarrow> was_forgotten w r"
  shows "lw_rooms (unforget_returned saved w) = lw_rooms w"
    and "was_forgotten (unforget_returned saved w) r \<longleftrightarrow> was_forgotten w r \<and> \<not> is_back w r"
    and "r \<in> set (pending_purge (unforget_returned saved w)) \<longleftrightarrow> was_forgotten w r \<and> \<not> is_back w r"
  using assms by (auto simp: unforget_returned_def was_forgotten_def pending_updated Let_def split: option.split)

lemma was_back_is: "lw_rooms w = memberships rooms es \<Longrightarrow> is_back w r \<longleftrightarrow> was_back rooms es r"
  by (auto simp: is_back_def was_back_def was_left_def returned_to_def split: option.split)

lemma step_keeps:
  assumes "keeps_to rooms es w" and "disk_works e" and "\<forall>r. parses r"
  shows "keeps_to rooms (es @ [e]) (left_step parses e w)"
proof (cases e)
  case (Moved r state)
  with assms show ?thesis by (simp add: keeps_to_def memberships_snoc forgotten_snoc was_forgotten_def)
next
  case (Looked saved)
  with assms have "saved" and eq: "r \<in> set (pending_purge w) \<longleftrightarrow> was_forgotten w r" for r by (auto simp: keeps_to_def)
  from unforget_effect [OF this] was_back_is [of w rooms es] assms Looked show ?thesis
    by (auto simp: keeps_to_def memberships_snoc forgotten_snoc)
next
  case (Forget r answered saved)
  have left: "was_left rooms es r \<longleftrightarrow> (case lw_rooms w r of None \<Rightarrow> False | Some state \<Rightarrow> state = Left \<or> state = Banned)" for r
    using assms(1) by (auto simp: keeps_to_def was_left_def split: option.split)
  from assms Forget show ?thesis
    by (auto simp: keeps_to_def memberships_snoc forgotten_snoc left forget_room_def pending_updated was_forgotten_def add_room_def
        Let_def split: option.splits if_splits)
next
  case (Cached r)
  with assms show ?thesis by (simp add: keeps_to_def memberships_snoc forgotten_snoc was_forgotten_def)
next
  case (Started rooms' clears locked saved)
  have "\<not> was_forgotten (left_step parses e w) r" for r
    using Started by (simp add: was_forgotten_def forget_session_def purge_forgotten_caches_def Let_def)
  moreover have "pending_purge (left_step parses e w) = []"
    using Started assms(2) by (auto simp: purge_forgotten_caches_def forget_session_def pending_stored Let_def)
  moreover have "lw_rooms (left_step parses e w) = rooms'"
    using Started by (simp add: purge_forgotten_caches_def forget_session_def Let_def)
  ultimately show ?thesis using Started by (simp add: keeps_to_def memberships_snoc forgotten_snoc)
qed

lemma run_keeps:
  assumes "\<forall>e\<in>set es. disk_works e" and "\<forall>r. parses r"
  shows "keeps_to rooms es (left_run parses es (fresh_world rooms))"
  using assms(1)
proof (induction es rule: rev_induct)
  case Nil
  show ?case by (simp add: keeps_to_def left_run_def fresh_world_def memberships_def forgotten_nil was_forgotten_def pending_purge_def)
next
  case (snoc e es)
  with step_keeps [OF _ _ assms(2), of rooms es "left_run parses es (fresh_world rooms)" e] show ?case by (simp add: left_run_def)
qed

text \<open>A forgotten room the account is back in came back after the last look.\<close>

lemma back_unseen:
  assumes "forgotten_since rooms es r" and "was_back rooms es r"
  shows "\<exists>before state after. es = before @ Moved r state # after \<and> \<not> (state = Left \<or> state = Banned) \<and> (\<forall>saved. Looked saved \<notin> set after)"
  using assms
proof (induction es rule: rev_induct)
  case Nil
  then show ?case by (simp add: forgotten_nil)
next
  case (snoc e es)
  show ?case
  proof (cases "\<exists>state. e = Moved r state")
    case True
    then obtain state where e: "e = Moved r state" by blast
    with snoc.prems(2) have "\<not> (state = Left \<or> state = Banned)" by (auto simp: was_back_def was_left_def memberships_snoc)
    with e show ?thesis by (intro exI [of _ es] exI [of _ state] exI [of _ "[]"]) simp
  next
    case False
    have "memberships rooms (es @ [e]) r = memberships rooms es r"
      using False snoc.prems(1) by (cases e) (auto simp: memberships_snoc forgotten_snoc)
    then have came: "was_back rooms es r" "\<not> was_left rooms es r" using snoc.prems(2) by (simp_all add: was_back_def was_left_def)
    with snoc.prems(1) have f: "forgotten_since rooms es r" "\<And>saved. e \<noteq> Looked saved" by (auto simp: forgotten_snoc)
    from snoc.IH [OF f(1) came(1)] obtain before state after where "es = before @ Moved r state # after"
      "\<not> (state = Left \<or> state = Banned)" "\<forall>saved. Looked saved \<notin> set after" by blast
    with f(2) show ?thesis by (intro exI [of _ before] exI [of _ state] exI [of _ "after @ [e]"]) auto
  qed
qed

text \<open>C31: Forgetting a room costs the history of no other.  While the disk does what it is told and the ids of the rooms parse, a
  start deletes the events of exactly the rooms the user had forgotten before it, since the start before, and which
  the census has not found the account back in since - however often a room was left and forgotten, and whatever
  moved, was cached or was refused by the server in between.  And where the account is back in such a room all the
  same, the program ended after the return and before the census looked.\<close>

theorem start_purges_forgotten:
  assumes "\<forall>e\<in>set es. disk_works e" and "\<forall>r. parses r" and "\<forall>r. clears r"
    and w: "w = left_run parses es (fresh_world rooms)"
  shows "lw_cached (left_step parses (Started rooms' clears True saved) w) = {r \<in> lw_cached w. \<not> forgotten_since rooms es r}
    \<and> (\<forall>r. forgotten_since rooms es r \<and> is_back w r \<longrightarrow>
         (\<exists>before state after. es = before @ Moved r state # after \<and> returned_to state \<and> (\<forall>saved. Looked saved \<notin> set after)))"
proof -
  have keeps: "lw_rooms w = memberships rooms es" "\<And>r. r \<in> set (pending_purge w) \<longleftrightarrow> forgotten_since rooms es r"
    using run_keeps [OF assms(1,2), of rooms] w by (simp_all add: keeps_to_def)
  have "lw_cached (left_step parses (Started rooms' clears True saved) w) = {r \<in> lw_cached w. \<not> forgotten_since rooms es r}"
    using keeps(2) assms(2,3) by (auto simp: purge_forgotten_caches_def forget_session_def store_pending_purge_def Let_def)
  moreover have "\<exists>before state after. es = before @ Moved r state # after \<and> returned_to state \<and> (\<forall>saved. Looked saved \<notin> set after)"
    if "forgotten_since rooms es r" "is_back w r" for r
    using back_unseen [OF that(1)] that(2) was_back_is [OF keeps(1)] by (simp add: returned_to_def)
  ultimately show ?thesis by blast
qed

lemma start_purges_forgotten_witness:
  "let a = lit ''!a:x''; b = lit ''!b:x'';
       w = left_run (\<lambda>_. True) [Forget a True True, Cached a, Cached b] (fresh_world [a \<mapsto> Left, b \<mapsto> Joined])
   in lw_cached (left_step (\<lambda>_. True) (Started Map.empty (\<lambda>_. True) True True) w) = {b}"
proof -
  let ?a = "lit ''!a:x''" and ?b = "lit ''!b:x''"
  let ?es = "[Forget ?a True True, Cached ?a, Cached ?b]" and ?rooms = "[?a \<mapsto> Left, ?b \<mapsto> Joined]"
  let ?w = "left_run (\<lambda>_. True) ?es (fresh_world ?rooms)"
  have ab: "?a \<noteq> ?b" by (simp add: str_simps)
  have f: "forgotten_since ?rooms ?es r \<longleftrightarrow> r = ?a" for r
    using ab forgotten_snoc [of ?rooms "[Forget ?a True True, Cached ?a]" "Cached ?b" r]
      forgotten_snoc [of ?rooms "[Forget ?a True True]" "Cached ?a" r] forgotten_snoc [of ?rooms "[]" "Forget ?a True True" r]
    by (auto simp: forgotten_nil was_left_def memberships_def)
  have "lw_cached (left_step (\<lambda>_. True) (Started Map.empty (\<lambda>_. True) True True) ?w) = {r \<in> lw_cached ?w. \<not> forgotten_since ?rooms ?es r}"
    using start_purges_forgotten [of ?es "\<lambda>_. True" "\<lambda>_. True" ?w, OF _ _ _ refl] by simp
  also have "\<dots> = {?b}"
    unfolding f using ab
    by (auto simp: left_run_def fresh_world_def forget_room_def update_pending_purge_def store_pending_purge_def Let_def)
  finally show ?thesis unfolding Let_def .
qed

text \<open>Both provisos are needed.  After a purge that the disk refused, the room stays on the list, its mark goes with the run, and
  the return to it finds no mark to lift: the next start deletes the events of a room the account is in.\<close>

lemma refused_purge_costs_history:
  "let r = lit ''!a:x''; again = [r \<mapsto> Left];
       w = left_run (\<lambda>_. True) [Forget r True True, Started again (\<lambda>_. False) True True, Moved r Joined, Looked True, Cached r] (fresh_world again)
   in is_back w r \<and> r \<in> lw_cached w \<and> r \<notin> lw_cached (left_step (\<lambda>_. True) (Started again (\<lambda>_. True) True True) w)"
  by (simp add: left_run_def fresh_world_def forget_room_def update_pending_purge_def pending_purge_def store_pending_purge_def add_room_def
      purge_forgotten_caches_def forget_session_def unforget_returned_def is_back_def returned_to_def Let_def)

text \<open>And so it is when the program ends between the return and the look of the census.\<close>

lemma unseen_return_costs_history:
  "let r = lit ''!a:x'';
       w = left_run (\<lambda>_. True) [Forget r True True, Moved r Joined, Cached r] (fresh_world [r \<mapsto> Left])
   in is_back w r \<and> r \<in> lw_cached w \<and> r \<notin> lw_cached (left_step (\<lambda>_. True) (Started [r \<mapsto> Joined] (\<lambda>_. True) True True) w)"
  by (simp add: left_run_def fresh_world_def forget_room_def update_pending_purge_def pending_purge_def store_pending_purge_def add_room_def
      purge_forgotten_caches_def forget_session_def is_back_def returned_to_def Let_def)

end
