(* ===== verification/Location.thy ===== *)
theory Location
  imports Rust_Text "HOL-Library.Word" Complex_Main
begin

text \<open>
  \<open>src/core/src/location.rs\<close>: the points of \<open>geo:\<close> URIs, the tiles of the map card and the live share of a position.  A
  floating-point number is a rational, an infinity or not a number; reading one and printing one are parameters, and
  so is the projection of a point, of which the layout sees the rounded pixel.  The beacon events of the protocol
  library are a parameter of the live share.
\<close>

section \<open>Points\<close>

datatype f64 = Finite rat | Infinity | Neg_Infinity | NaN

record point =
  lat :: rat
  lon :: rat
  accuracy :: "rat option"

fun point_new :: "f64 \<Rightarrow> f64 \<Rightarrow> f64 option \<Rightarrow> point option" where
  "point_new (Finite la) (Finite lo) acc =
     (if \<bar>la\<bar> > 90 \<or> \<bar>lo\<bar> > 180 then None
      else Some \<lparr>lat = la, lon = lo, accuracy = (case acc of Some (Finite m) \<Rightarrow> if m \<ge> 0 then Some m else None | _ \<Rightarrow> None)\<rparr>)"
| "point_new _ _ _ = None"

text \<open>The parameters of a URI: the last accuracy counts, one that is no number refuses the URI.\<close>

fun geo_accuracy :: "(str \<Rightarrow> f64 option) \<Rightarrow> str list \<Rightarrow> f64 option \<Rightarrow> f64 option option" where
  "geo_accuracy parse [] acc = Some acc"
| "geo_accuracy parse (p # ps) acc =
     (if starts_with (lit ''u='') (trim p)
      then (case parse (trim (drop 2 (trim p))) of Some m \<Rightarrow> geo_accuracy parse ps (Some m) | None \<Rightarrow> None)
      else geo_accuracy parse ps acc)"

definition parse_geo :: "(str \<Rightarrow> f64 option) \<Rightarrow> str \<Rightarrow> point option" where
  "parse_geo parse uri =
     (if \<not> (starts_with (lit ''geo:'') (trim uri) \<or> starts_with (lit ''GEO:'') (trim uri)) then None
      else (case split_on (\<lambda>c. c = 0x3B) (drop 4 (trim uri)) of
        [] \<Rightarrow> None
      | coordinates # params \<Rightarrow>
          (case split_on (\<lambda>c. c = 0x2C) coordinates of
             la # lo # _ \<Rightarrow>
               (case (parse (trim la), parse (trim lo)) of
                  (Some la, Some lo) \<Rightarrow>
                    (case geo_accuracy parse params None of Some acc \<Rightarrow> point_new la lo acc | None \<Rightarrow> None)
                | _ \<Rightarrow> None)
           | _ \<Rightarrow> None)))"

definition on_globe :: "point \<Rightarrow> bool" where
  "on_globe p \<longleftrightarrow> \<bar>lat p\<bar> \<le> 90 \<and> \<bar>lon p\<bar> \<le> 180 \<and> (\<forall>m. accuracy p = Some m \<longrightarrow> m \<ge> 0)"

lemma point_new_on_globe: "point_new la lo acc = Some p \<Longrightarrow> on_globe p"
  by (auto simp: on_globe_def elim!: point_new.elims split: if_splits option.splits f64.splits)

lemma parse_geo_on_globe: "parse_geo parse uri = Some p \<Longrightarrow> on_globe p"
  by (auto simp: parse_geo_def intro: point_new_on_globe split: if_splits list.splits option.splits prod.splits)

section \<open>The tiles of the card\<close>

definition view_width :: int where "view_width = 512"
definition view_height :: int where "view_height = 256"
definition tile :: int where "tile = 256"
definition card_zoom :: nat where "card_zoom = 16"

record placed =
  tile_x :: "32 word"
  tile_y :: "32 word"
  px_left :: int
  px_top :: int

text \<open>The tiles under a view centred on a pixel of the map.\<close>

definition layout :: "int \<Rightarrow> int \<Rightarrow> nat \<Rightarrow> placed list" where
  "layout px py zoom =
     (let count = 2 ^ zoom; l = px - view_width div 2; t = py - view_height div 2
      in concat (map (\<lambda>ty. if ty < 0 \<or> ty \<ge> count then []
           else map (\<lambda>tx. \<lparr>tile_x = word_of_int (tx mod count), tile_y = word_of_int ty,
               px_left = tx * tile - l, px_top = ty * tile - t\<rparr>)
             [l div tile .. (l + view_width - 1) div tile])
         [t div tile .. (t + view_height - 1) div tile]))"

definition covers :: "placed \<Rightarrow> int \<Rightarrow> int \<Rightarrow> bool" where
  "covers p vx vy \<longleftrightarrow> px_left p \<le> vx \<and> vx < px_left p + tile \<and> px_top p \<le> vy \<and> vy < px_top p + tile"

lemma covering: "tx * 256 - l \<le> v \<and> v < tx * 256 - l + 256 \<longleftrightarrow> tx = (l + v) div (256 :: int)"
proof -
  have "l + v = 256 * ((l + v) div 256) + (l + v) mod 256" "0 \<le> (l + v) mod 256" "(l + v) mod 256 < 256" by simp_all
  then show ?thesis by linarith
qed

lemma filter_one: "distinct xs \<Longrightarrow> filter (\<lambda>x. x = c) xs = (if c \<in> set xs then [c] else [])"
  by (induction xs) auto

lemma concat_one: "distinct xs \<Longrightarrow> (\<And>x. x \<in> set xs \<Longrightarrow> x \<noteq> c \<Longrightarrow> f x = []) \<Longrightarrow> concat (map f xs) = (if c \<in> set xs then f c else [])"
  by (induction xs) (auto simp: concat_eq_Nil_conv)

text \<open>The tile that covers a pixel of the view, if its row is on the map.\<close>

definition tile_over :: "int \<Rightarrow> int \<Rightarrow> nat \<Rightarrow> int \<Rightarrow> int \<Rightarrow> placed" where
  "tile_over px py zoom vx vy =
     (let tx = (px - 256 + vx) div 256; ty = (py - 128 + vy) div 256
      in \<lparr>tile_x = word_of_int (tx mod 2 ^ zoom), tile_y = word_of_int ty,
          px_left = tx * 256 - (px - 256), px_top = ty * 256 - (py - 128)\<rparr>)"

lemma covering_tiles:
  assumes "0 \<le> vx" "vx < 512" "0 \<le> vy" "vy < 256"
  shows "filter (\<lambda>q. covers q vx vy) (layout px py zoom) =
    (if 0 \<le> (py - 128 + vy) div 256 \<and> (py - 128 + vy) div 256 < 2 ^ zoom then [tile_over px py zoom vx vy] else [])"
proof -
  let ?cx = "(px - 256 + vx) div 256" and ?cy = "(py - 128 + vy) div 256"
  let ?place = "\<lambda>ty tx. \<lparr>tile_x = word_of_int (tx mod 2 ^ zoom), tile_y = word_of_int ty, px_left = tx * 256 - (px - 256), px_top = ty * 256 - (py - 128)\<rparr>"
  let ?row = "\<lambda>ty. if ty < 0 \<or> ty \<ge> 2 ^ zoom then [] else map (?place ty) [(px - 256) div 256..(px - 256 + 512 - 1) div 256]"
  have covers: "covers (?place ty tx) vx vy \<longleftrightarrow> tx = ?cx \<and> ty = ?cy" for ty tx
    using covering [of tx "px - 256" vx] covering [of ty "py - 128" vy] by (auto simp: covers_def tile_def)
  have in_range: "?cx \<in> set [(px - 256) div 256..(px - 256 + 512 - 1) div 256]" "?cy \<in> set [(py - 128) div 256..(py - 128 + 256 - 1) div 256]"
    using assms by (auto intro!: zdiv_mono1)
  have row: "filter (\<lambda>q. covers q vx vy) (?row ty) = (if ty = ?cy \<and> 0 \<le> ty \<and> ty < 2 ^ zoom then [?place ty ?cx] else [])" for ty
    using filter_one [OF distinct_upto, of ?cx] in_range(1) by (cases "ty = ?cy") (auto simp: filter_map o_def covers)
  have "filter (\<lambda>q. covers q vx vy) (layout px py zoom)
      = concat (map (\<lambda>ty. filter (\<lambda>q. covers q vx vy) (?row ty)) [(py - 128) div 256..(py - 128 + 256 - 1) div 256])"
    unfolding layout_def Let_def view_width_def view_height_def tile_def by (simp add: filter_concat o_def cong: if_cong)
  also have "\<dots> = filter (\<lambda>q. covers q vx vy) (?row ?cy)"
    by (subst concat_one [where c = ?cy]) (use in_range(2) in \<open>auto simp: row\<close>)
  finally show ?thesis unfolding row by (simp add: tile_over_def Let_def)
qed

lemma word_index: "zoom \<le> 30 \<Longrightarrow> 0 \<le> i \<Longrightarrow> i < 2 ^ zoom \<Longrightarrow> uint (word_of_int i :: 32 word) = i"
  using power_increasing [of zoom 32 "2::int"] by (simp add: uint_word_of_int take_bit_eq_mod)

text \<open>C40: The card shows the map without a gap and without an overlap: every pixel of the view that lies on the map is covered by
  exactly one of the tiles, and that tile is the one of the map at this pixel - around the date line, where the
  columns start over - while a pixel above or below the map has none.\<close>

theorem tiles_cover_view:
  assumes "zoom \<le> 30" and "0 \<le> vx" "vx < view_width" and "0 \<le> vy" "vy < view_height"
  shows "if 0 \<le> py - 128 + vy \<and> py - 128 + vy < tile * 2 ^ zoom
    then \<exists>p. filter (\<lambda>q. covers q vx vy) (layout px py zoom) = [p]
       \<and> uint (tile_x p) = (px - 256 + vx) div tile mod 2 ^ zoom \<and> uint (tile_y p) = (py - 128 + vy) div tile
    else filter (\<lambda>q. covers q vx vy) (layout px py zoom) = []"
proof -
  have "0 \<le> (py - 128 + vy) div 256 \<longleftrightarrow> 0 \<le> py - 128 + vy" by (rule pos_imp_zdiv_nonneg_iff) simp
  moreover have "(py - 128 + vy) div 256 < 2 ^ zoom \<longleftrightarrow> py - 128 + vy < 256 * 2 ^ zoom"
    using covering [of "(py - 128 + vy) div 256" 0 "py - 128 + vy"] by linarith
  ultimately show ?thesis
    using assms covering_tiles [of vx vy px py zoom]
    by (auto simp: tile_def view_width_def view_height_def tile_over_def Let_def intro!: word_index)
qed

lemma tiles_cover_view_witness:
  "\<exists>p. filter (\<lambda>q. covers q 0 0) (layout 10 (2 ^ 23) 16) = [p] \<and> uint (tile_x p) = 65535 \<and> uint (tile_y p) = 32767"
  using tiles_cover_view [of 16 0 0 "2 ^ 23" 10] by (simp add: tile_def view_width_def view_height_def)

text \<open>Six requests at the most, whatever the point.\<close>

lemma layout_small: "length (layout px py zoom) \<le> 6"
proof -
  let ?xs = "[(px - 256) div 256..(px + 255) div 256]" and ?ys = "[(py - 128) div 256..(py + 127) div 256]"
  have "length (layout px py zoom) = sum_list (map (\<lambda>ty. if ty < 0 \<or> ty \<ge> 2 ^ zoom then 0 else length ?xs) ?ys)"
    unfolding layout_def Let_def view_width_def view_height_def tile_def
    by (simp add: length_concat o_def if_distrib add.commute cong: if_cong)
  also have "\<dots> \<le> sum_list (map (\<lambda>_. length ?xs) ?ys)" by (rule sum_list_mono) simp
  also have "\<dots> = length ?ys * length ?xs" by (simp add: sum_list_triv)
  also have "\<dots> \<le> 2 * 3"
  proof (rule mult_le_mono)
    show "length ?ys \<le> 2" "length ?xs \<le> 3" by simp_all
  qed
  finally show ?thesis by simp
qed

section \<open>The files of the tiles\<close>

text \<open>An answer of the tile server, and the directory of the tiles: the bytes of each and whether it is younger than a
  week.  What the other lane does while one waits is a parameter, as are the failures of the disk.\<close>

record tile_answer =
  ta_success :: bool
  ta_png :: bool
  ta_bytes :: "nat list"

type_synonym tile_path = "nat \<times> 32 word \<times> 32 word"
type_synonym tile_dir = "tile_path \<Rightarrow> (nat list \<times> bool) option"

record tile_luck =
  tl_others :: "tile_dir \<Rightarrow> tile_dir"
  tl_answer :: "tile_answer option"
  tl_written :: bool
  tl_renamed :: bool

definition tile_max_bytes :: nat where "tile_max_bytes = 256 * 1024"

definition png_magic :: "nat list" where "png_magic = [0x89, 0x50, 0x4E, 0x47]"

definition fresh :: "tile_dir \<Rightarrow> tile_path \<Rightarrow> bool" where
  "fresh d p \<longleftrightarrow> (case d p of Some (_, young) \<Rightarrow> young | None \<Rightarrow> False)"

definition tile_file :: "tile_path \<Rightarrow> tile_luck \<Rightarrow> tile_dir \<Rightarrow> tile_path option \<times> tile_dir" where
  "tile_file p luck d =
     (if fresh d p then (Some p, d)
      else let d = tl_others luck d
        in if fresh d p then (Some p, d)
        else (case tl_answer luck of
            None \<Rightarrow> (None, d)
          | Some a \<Rightarrow>
              if \<not> ta_success a then (None, d)
              else if \<not> ta_png a \<or> length (ta_bytes a) > tile_max_bytes \<or> \<not> starts_with png_magic (ta_bytes a) then (None, d)
              else if \<not> tl_written luck then (None, d)
              else if \<not> tl_renamed luck then (if fresh d p then Some p else None, d)
              else (Some p, d(p \<mapsto> (ta_bytes a, True)))))"

text \<open>The card: the place of each tile with its file, or no map, to be tried again or not.\<close>

datatype card = Unavailable bool | Card "(tile_path \<times> int \<times> int) list"

fun card_tiles :: "nat \<Rightarrow> placed list \<Rightarrow> tile_luck list \<Rightarrow> (tile_path \<times> int \<times> int) list \<Rightarrow> tile_dir \<Rightarrow> card \<times> tile_dir" where
  "card_tiles zoom (t # ts) (luck # lucks) out d =
     (case tile_file (zoom, tile_x t, tile_y t) luck d of
        (Some path, d) \<Rightarrow> card_tiles zoom ts lucks (out @ [(path, px_left t, px_top t)]) d
      | (None, d) \<Rightarrow> (Unavailable True, d))"
| "card_tiles zoom [] _ out d = (Card out, d)"
| "card_tiles zoom (t # ts) [] out d = (Unavailable True, d)"

definition tiles :: "(rat \<Rightarrow> rat \<Rightarrow> nat \<Rightarrow> int \<times> int) \<Rightarrow> f64 \<Rightarrow> f64 \<Rightarrow> tile_luck list \<Rightarrow> tile_dir \<Rightarrow> card \<times> tile_dir" where
  "tiles pixel la lo lucks d =
     (case point_new la lo None of
        None \<Rightarrow> (Unavailable False, d)
      | Some p \<Rightarrow> (let (px, py) = pixel (lat p) (lon p) card_zoom in card_tiles card_zoom (layout px py card_zoom) lucks [] d))"

definition image :: "nat list \<Rightarrow> bool" where
  "image bytes \<longleftrightarrow> length bytes \<le> tile_max_bytes \<and> starts_with png_magic bytes"

definition images_only :: "tile_dir \<Rightarrow> bool" where
  "images_only d \<longleftrightarrow> (\<forall>p bytes young. d p = Some (bytes, young) \<longrightarrow> image bytes)"

text \<open>The other lane stores images only, and takes no file away.\<close>

definition fair :: "tile_luck \<Rightarrow> bool" where
  "fair luck \<longleftrightarrow> (\<forall>d. images_only d \<longrightarrow> images_only (tl_others luck d)) \<and> (\<forall>d p. d p \<noteq> None \<longrightarrow> tl_others luck d p \<noteq> None)"

lemma tile_file_dir:
  assumes "fair luck" and "tile_file p luck d = (path, d')"
  shows "(images_only d \<longrightarrow> images_only d') \<and> (\<forall>q. d q \<noteq> None \<longrightarrow> d' q \<noteq> None) \<and> (\<forall>q. path = Some q \<longrightarrow> q = p \<and> d' p \<noteq> None)"
proof -
  have "images_only d \<Longrightarrow> image bytes \<Longrightarrow> images_only (d(p \<mapsto> (bytes, True)))" for d :: tile_dir and bytes
    by (auto simp: images_only_def)
  moreover have "fresh d p \<Longrightarrow> d p \<noteq> None" for d by (auto simp: fresh_def split: option.splits)
  ultimately show ?thesis using assms
    by (auto simp: tile_file_def fair_def image_def Let_def split: if_splits option.splits)
qed

lemma card_tiles_dir:
  assumes "\<forall>luck\<in>set lucks. fair luck" and "card_tiles zoom ts lucks out d = (c, d')" and "images_only d"
    and "\<forall>(p, _)\<in>set out. d p \<noteq> None"
  shows "images_only d' \<and> (\<forall>out'. c = Card out' \<longrightarrow>
    out' = out @ map (\<lambda>t. ((zoom, tile_x t, tile_y t), px_left t, px_top t)) ts \<and> (\<forall>(p, _)\<in>set out'. d' p \<noteq> None))"
  using assms
proof (induction zoom ts lucks out d rule: card_tiles.induct)
  case (1 zoom t ts luck lucks out d)
  obtain path d1 where f: "tile_file (zoom, tile_x t, tile_y t) luck d = (path, d1)" by fastforce
  have fair: "fair luck" "\<forall>l\<in>set lucks. fair l" using "1.prems"(1) by simp_all
  note dir = tile_file_dir [OF fair(1) f]
  show ?case
  proof (cases path)
    case None
    with "1.prems" f dir show ?thesis by auto
  next
    case (Some q)
    with dir "1.prems"(4) have "\<forall>(p, _)\<in>set (out @ [(q, px_left t, px_top t)]). d1 p \<noteq> None" by fastforce
    with "1.IH" [OF f [symmetric]] "1.prems"(2,3) f Some dir fair(2) show ?thesis by auto
  qed
qed auto

text \<open>Nothing but small PNG images that the tile server sent as such is stored or shown: the directory of the
  tiles holds only those, whatever the server answers and however the disk fails, and a card that is
  available shows exactly the tiles under its view, each at its place and each a file that is there.\<close>

theorem card_shows_images:
  assumes "images_only d" and "\<forall>luck\<in>set lucks. fair luck" and "tiles pixel la lo lucks d = (c, d')"
  shows "images_only d' \<and> (\<forall>out. c = Card out \<longrightarrow> (\<exists>p px py. point_new la lo None = Some p \<and> pixel (lat p) (lon p) card_zoom = (px, py)
    \<and> out = map (\<lambda>t. ((card_zoom, tile_x t, tile_y t), px_left t, px_top t)) (layout px py card_zoom)
    \<and> (\<forall>(path, _)\<in>set out. \<exists>bytes young. d' path = Some (bytes, young) \<and> image bytes)))"
proof (cases "point_new la lo None")
  case (Some p)
  obtain px py where pixel: "pixel (lat p) (lon p) card_zoom = (px, py)" by fastforce
  with Some assms(3) have "card_tiles card_zoom (layout px py card_zoom) lucks [] d = (c, d')" by (simp add: tiles_def)
  from card_tiles_dir [OF assms(2) this assms(1)] Some pixel show ?thesis
    by (force simp: images_only_def)
qed (use assms in \<open>auto simp: tiles_def\<close>)

section \<open>The live share\<close>

text \<open>The protocol library: the beacon events - a new one of an instant and a duration, the time it starts at, whether it
  is live at an instant, and the one that ends it - and which texts are room ids.\<close>

record 'c beacons =
  room_id_parses :: "str \<Rightarrow> bool"
  info_new :: "nat \<Rightarrow> nat \<Rightarrow> 'c"
  info_ts :: "'c \<Rightarrow> nat"
  info_live :: "'c \<Rightarrow> nat \<Rightarrow> bool"
  info_stop :: "'c \<Rightarrow> 'c"

record 'c share =
  share_user :: str
  share_event :: str
  share_content :: 'c

type_synonym 'c lanes = "str \<Rightarrow> 'c share option"

text \<open>The signed-in client: its user and the rooms it knows.\<close>

record account =
  own_user :: str
  known_rooms :: "str set"

text \<open>What is sent to the server, and what the server says to it.\<close>

datatype 'c sent =
    Beacon_Info str str 'c
  | Beacon str str point
  | Stop_From_Store str
  | Location_Message str point

datatype answer = Accepted str | Refused

datatype reply = Error str | Until nat | Done

definition live_min_ms :: nat where "live_min_ms = 60 * 1000"
definition live_max_ms :: nat where "live_max_ms = 24 * 3600 * 1000"

definition live_room :: "'c beacons \<Rightarrow> account option \<Rightarrow> str \<Rightarrow> str + account" where
  "live_room b client r =
     (case client of
        None \<Rightarrow> Inl (lit ''not signed in'')
      | Some a \<Rightarrow>
          if \<not> room_id_parses b r then Inl (lit ''not a room identifier'')
          else if r \<in> known_rooms a then Inr a
          else Inl (lit ''this room is not known''))"

text \<open>The one position that is sent as a message, through the timeline of the room that is open (\<open>send\<close>).\<close>

definition send_location :: "str option \<Rightarrow> f64 \<Rightarrow> f64 \<Rightarrow> f64 option \<Rightarrow> answer \<Rightarrow> 'c lanes \<Rightarrow> reply \<times> 'c sent list \<times> 'c lanes" where
  "send_location timeline la lo acc answer lanes =
     (case timeline of
        None \<Rightarrow> (Error (lit ''no timeline is open''), [], lanes)
      | Some r \<Rightarrow>
          (case point_new la lo acc of
             None \<Rightarrow> (Error (lit ''not a position''), [], lanes)
           | Some p \<Rightarrow>
               (case answer of
                  Accepted _ \<Rightarrow> Done
                | Refused \<Rightarrow> Error (lit ''the location could not be sent''), [Location_Message r p], lanes)))"

definition live_start :: "'c beacons \<Rightarrow> account option \<Rightarrow> str \<Rightarrow> nat \<Rightarrow> nat \<Rightarrow> answer \<Rightarrow> 'c lanes \<Rightarrow> reply \<times> 'c sent list \<times> 'c lanes" where
  "live_start b client r duration now answer lanes =
     (if \<not> (live_min_ms \<le> duration \<and> duration \<le> live_max_ms) then (Error (lit ''the sharing time is out of range''), [], lanes)
      else (case live_room b client r of
          Inl e \<Rightarrow> (Error e, [], lanes)
        | Inr a \<Rightarrow>
            (let content = info_new b now duration; out = [Beacon_Info r (own_user a) content]
             in case answer of
                  Refused \<Rightarrow> (Error (lit ''live location could not be started''), out, lanes)
                | Accepted event \<Rightarrow> (Until (min (info_ts b content + duration) u64_max), out,
                    lanes(r := Some \<lparr>share_user = own_user a, share_event = event, share_content = content\<rparr>)))))"

definition current_share :: "'c beacons \<Rightarrow> 'c share option \<Rightarrow> account \<Rightarrow> nat \<Rightarrow> 'c share option" where
  "current_share b sh a now =
     (case sh of Some s \<Rightarrow> if share_user s = own_user a \<and> info_live b (share_content s) now then Some s else None | None \<Rightarrow> None)"

definition beacon :: "'c beacons \<Rightarrow> account option \<Rightarrow> str \<Rightarrow> f64 \<Rightarrow> f64 \<Rightarrow> f64 option \<Rightarrow> nat \<Rightarrow> answer \<Rightarrow> 'c lanes
    \<Rightarrow> reply \<times> 'c sent list \<times> 'c lanes" where
  "beacon b client r la lo acc now answer lanes =
     (case point_new la lo acc of
        None \<Rightarrow> (Error (lit ''not a position''), [], lanes)
      | Some p \<Rightarrow>
          (case live_room b client r of
             Inl e \<Rightarrow> (Error e, [], lanes)
           | Inr a \<Rightarrow>
               (case current_share b (lanes r) a now of
                  None \<Rightarrow> (Error (lit ''no live share runs in this room''), [], lanes)
                | Some s \<Rightarrow>
                    (case answer of
                       Accepted _ \<Rightarrow> Done
                     | Refused \<Rightarrow> Error (lit ''the live location update was not sent''), [Beacon r (share_event s) p], lanes))))"

definition live_stop :: "'c beacons \<Rightarrow> account option \<Rightarrow> str \<Rightarrow> nat \<Rightarrow> answer \<Rightarrow> 'c lanes \<Rightarrow> reply \<times> 'c sent list \<times> 'c lanes" where
  "live_stop b client r now answer lanes =
     (case live_room b client r of
        Inl e \<Rightarrow> (Error e, [], lanes)
      | Inr a \<Rightarrow>
          (let out = (case current_share b (lanes r) a now of
               Some s \<Rightarrow> [Beacon_Info r (share_user s) (info_stop b (share_content s))]
             | None \<Rightarrow> [Stop_From_Store r])
           in case answer of
                Accepted _ \<Rightarrow> (Done, out, lanes(r := None))
              | Refused \<Rightarrow> (Error (lit ''live location could not be stopped''), out, lanes)))"

text \<open>The commands in the order in which they hold the lane of their room, each with the account that is signed in, the
  instant and the answer of the server.\<close>

datatype live_command =
    Location_Send "str option" f64 f64 "f64 option" answer
  | Live_Start "account option" str nat nat answer
  | Live_Position "account option" str f64 f64 "f64 option" nat answer
  | Live_Stop "account option" str nat answer

fun live_step :: "'c beacons \<Rightarrow> live_command \<Rightarrow> 'c lanes \<Rightarrow> reply \<times> 'c sent list \<times> 'c lanes" where
  "live_step b (Location_Send timeline la lo acc answer) lanes = send_location timeline la lo acc answer lanes"
| "live_step b (Live_Start client r duration now answer) lanes = live_start b client r duration now answer lanes"
| "live_step b (Live_Position client r la lo acc now answer) lanes = beacon b client r la lo acc now answer lanes"
| "live_step b (Live_Stop client r now answer) lanes = live_stop b client r now answer lanes"

definition live_run :: "'c beacons \<Rightarrow> live_command list \<Rightarrow> 'c lanes" where
  "live_run b cs = fold (\<lambda>c lanes. snd (snd (live_step b c lanes))) cs (\<lambda>_. None)"

text \<open>A share that a command begins, and a command after which none runs in the room, by the history alone.\<close>

definition begins :: "'c beacons \<Rightarrow> live_command \<Rightarrow> str \<Rightarrow> 'c share \<Rightarrow> bool" where
  "begins b c r s \<longleftrightarrow> (\<exists>a duration now event. c = Live_Start (Some a) r duration now (Accepted event)
     \<and> room_id_parses b r \<and> r \<in> known_rooms a
     \<and> live_min_ms \<le> duration \<and> duration \<le> live_max_ms
     \<and> s = \<lparr>share_user = own_user a, share_event = event, share_content = info_new b now duration\<rparr>)"

definition stops :: "'c beacons \<Rightarrow> live_command \<Rightarrow> str \<Rightarrow> bool" where
  "stops b c r \<longleftrightarrow> (\<exists>a now event. c = Live_Stop (Some a) r now (Accepted event) \<and> room_id_parses b r \<and> r \<in> known_rooms a)"

definition runs_since :: "'c beacons \<Rightarrow> live_command list \<Rightarrow> str \<Rightarrow> 'c share \<Rightarrow> bool" where
  "runs_since b cs r s \<longleftrightarrow> (\<exists>before start after. cs = before @ start # after \<and> begins b start r s
     \<and> (\<forall>c\<in>set after. \<not> stops b c r \<and> (\<forall>s'. \<not> begins b c r s')))"

lemma step_lane:
  "snd (snd (live_step b c lanes)) r = Some s \<longleftrightarrow>
     begins b c r s \<or> \<not> stops b c r \<and> (\<forall>s'. \<not> begins b c r s') \<and> lanes r = Some s"
proof (cases c)
  case (Live_Start client q duration now answer)
  then have "begins b c r s \<longleftrightarrow> r = q \<and> (case (client, answer) of
      (Some a, Accepted event) \<Rightarrow> room_id_parses b r \<and> r \<in> known_rooms a \<and> live_min_ms \<le> duration \<and> duration \<le> live_max_ms
        \<and> s = \<lparr>share_user = own_user a, share_event = event, share_content = info_new b now duration\<rparr>
    | _ \<Rightarrow> False)" for s
    by (auto simp: begins_def split: option.splits answer.splits)
  moreover have "\<not> stops b c r" using Live_Start by (simp add: stops_def)
  ultimately show ?thesis using Live_Start
    by (auto simp: live_start_def live_room_def Let_def split: option.splits answer.splits)
next
  case (Live_Position client q la lo acc now answer)
  then show ?thesis
    by (auto simp: beacon_def begins_def stops_def split: option.splits sum.splits answer.splits)
next
  case (Live_Stop client q now answer)
  then show ?thesis
    by (auto simp: live_stop_def live_room_def begins_def stops_def Let_def split: option.splits answer.splits)
next
  case (Location_Send timeline la lo acc answer)
  then show ?thesis
    by (auto simp: send_location_def begins_def stops_def split: option.splits)
qed

lemma run_since: "live_run b cs r = Some s \<longleftrightarrow> runs_since b cs r s"
proof (induction cs arbitrary: s rule: rev_induct)
  case (snoc c cs)
  have step: "live_run b (cs @ [c]) r = Some s \<longleftrightarrow>
      begins b c r s \<or> \<not> stops b c r \<and> (\<forall>s'. \<not> begins b c r s') \<and> live_run b cs r = Some s"
    by (simp add: live_run_def step_lane)
  have "runs_since b (cs @ [c]) r s \<longleftrightarrow> begins b c r s \<or> \<not> stops b c r \<and> (\<forall>s'. \<not> begins b c r s') \<and> runs_since b cs r s"
  proof
    assume "runs_since b (cs @ [c]) r s"
    then obtain before start after where a: "cs @ [c] = before @ start # after" "begins b start r s"
        "\<forall>c\<in>set after. \<not> stops b c r \<and> (\<forall>s'. \<not> begins b c r s')"
      by (auto simp: runs_since_def)
    then show "begins b c r s \<or> \<not> stops b c r \<and> (\<forall>s'. \<not> begins b c r s') \<and> runs_since b cs r s"
      by (cases after rule: rev_cases) (auto simp: runs_since_def)
  next
    assume "begins b c r s \<or> \<not> stops b c r \<and> (\<forall>s'. \<not> begins b c r s') \<and> runs_since b cs r s"
    then show "runs_since b (cs @ [c]) r s"
    proof
      assume "begins b c r s"
      then show ?thesis unfolding runs_since_def by (intro exI [of _ cs] exI [of _ c] exI [of _ "[]"]) simp
    next
      assume r: "\<not> stops b c r \<and> (\<forall>s'. \<not> begins b c r s') \<and> runs_since b cs r s"
      then obtain before start after where "cs = before @ start # after" "begins b start r s"
          "\<forall>c\<in>set after. \<not> stops b c r \<and> (\<forall>s'. \<not> begins b c r s')"
        by (auto simp: runs_since_def)
      with r have "cs @ [c] = before @ start # (after @ [c])" "\<forall>c\<in>set (after @ [c]). \<not> stops b c r \<and> (\<forall>s'. \<not> begins b c r s')" by auto
      with \<open>begins b start r s\<close> show ?thesis unfolding runs_since_def by blast
    qed
  qed
  with step snoc show ?case by simp
qed (simp add: live_run_def runs_since_def)

text \<open>C29: A position goes to a room only as the user asked for it, whatever commands came before.  As a message of its own, it is
  the point of the very command that sends one position, and goes to the room whose timeline is open.  As part of a
  live share, it is the point of a command that names this room, and goes under the event of a share that the same
  account started there in this run, for one minute to one day, which the server accepted, which no stop
  that the server accepted and no later share of the room has ended, and which is still live.  No other command
  sends a position, and every one that is sent is a point of the globe.\<close>

theorem positions_only_as_asked:
  assumes "x \<in> set (fst (snd (live_step b c (live_run b cs))))"
  shows "case x of
      Location_Message r p \<Rightarrow> on_globe p \<and> (\<exists>la lo acc answer. c = Location_Send (Some r) la lo acc answer \<and> point_new la lo acc = Some p)
    | Beacon r event p \<Rightarrow> on_globe p \<and> (\<exists>a la lo acc now answer s. c = Live_Position (Some a) r la lo acc now answer
        \<and> point_new la lo acc = Some p \<and> runs_since b cs r s \<and> share_user s = own_user a \<and> share_event s = event
        \<and> info_live b (share_content s) now)
    | _ \<Rightarrow> True"
  using assms
  by (cases c)
     (auto simp: send_location_def beacon_def live_start_def live_stop_def live_room_def current_share_def run_since [symmetric] Let_def
       dest: point_new_on_globe split: option.splits answer.splits if_splits)

definition timed_beacons :: "(nat \<times> nat \<times> bool) beacons" where
  "timed_beacons = \<lparr>room_id_parses = \<lambda>_. True, info_new = \<lambda>now duration. (now, duration, True), info_ts = fst,
     info_live = \<lambda>(from_ms, duration, live) now. live \<and> now < from_ms + duration, info_stop = \<lambda>(from_ms, duration, live). (from_ms, duration, False)\<rparr>"

lemma positions_only_as_asked_witness:
  "let a = \<lparr>own_user = lit ''@me:x'', known_rooms = {lit ''!r:x''}\<rparr>
   in \<exists>s. runs_since timed_beacons [Live_Start (Some a) (lit ''!r:x'') 60000 1000 (Accepted (lit ''$e''))] (lit ''!r:x'') s
      \<and> info_live timed_beacons (share_content s) 60999"
proof -
  let ?a = "\<lparr>own_user = lit ''@me:x'', known_rooms = {lit ''!r:x''}\<rparr>"
  have "Beacon (lit ''!r:x'') (lit ''$e'') \<lparr>lat = 47, lon = 8, accuracy = None\<rparr>
    \<in> set (fst (snd (live_step timed_beacons (Live_Position (Some ?a) (lit ''!r:x'') (Finite 47) (Finite 8) None 60999 Refused)
        (live_run timed_beacons [Live_Start (Some ?a) (lit ''!r:x'') 60000 1000 (Accepted (lit ''$e''))]))))"
    by (simp add: live_run_def live_start_def beacon_def live_room_def current_share_def timed_beacons_def live_min_ms_def live_max_ms_def Let_def)
  from positions_only_as_asked [OF this] show ?thesis by auto
qed

end
