(* ===== verification/Media_Cache.thy ===== *)
theory Media_Cache
  imports Text_Safety "HOL-Library.Multiset"
begin

text \<open>
  \<open>src/core/src/media.rs\<close>: the files of downloaded media, their names, the sweep that keeps the directory within its
  budget, and one download.  The clock, the disk, the digest of a request and what the server sends are parameters.
\<close>

section \<open>Sizes and names\<close>

definition mib :: nat where "mib = 1024 * 1024"
definition max_media_bytes :: nat where "max_media_bytes = 100 * mib"
definition max_cache_bytes :: nat where "max_cache_bytes = 256 * mib"
definition max_avatar_bytes :: nat where "max_avatar_bytes = 10 * mib"

definition check_size :: "nat \<Rightarrow> nat \<Rightarrow> str \<Rightarrow> str + unit" where
  "check_size weighed limit what =
     (if weighed > limit then
        Inl (what @ lit '' too large: '' @ show_nat (weighed div mib) @ lit '' MiB, the limit is '' @ show_nat (limit div mib) @ lit '' MiB'')
      else Inr ())"

definition name_digit :: "nat \<Rightarrow> bool" where
  "name_digit c \<longleftrightarrow> is_digit c \<or> (97 \<le> c \<and> c \<le> 102) \<or> (65 \<le> c \<and> c \<le> 70)"

definition cache_name :: "('r \<Rightarrow> str) \<Rightarrow> 'r \<Rightarrow> str" where
  "cache_name digest request = digest request @ lit ''.bin''"

definition is_cache_name :: "str \<Rightarrow> bool" where
  "is_cache_name name \<longleftrightarrow> ends_with (lit ''.bin'') name \<and>
     (let digest = take (length name - 4) name in utf8_len digest = 64 \<and> list_all name_digit digest)"

definition is_part :: "str \<Rightarrow> bool" where
  "is_part name \<longleftrightarrow> contains (lit ''.part'') name"

section \<open>The sweep\<close>

record cache_file =
  cf_name :: str
  cf_is_file :: bool
  cf_modified :: nat
  cf_size :: nat

definition abandoned_after :: nat where "abandoned_after = 60 * 60"

text \<open>\<open>elapsed\<close> fails for a time that is still to come.\<close>

definition abandoned :: "nat \<Rightarrow> cache_file \<Rightarrow> bool" where
  "abandoned now f \<longleftrightarrow> now \<ge> cf_modified f \<and> now - cf_modified f > abandoned_after"

definition saturate :: "nat \<Rightarrow> nat" where
  "saturate n = min n u64_max"

text \<open>The directory in the order it is read: the weight of what stays, the candidates, and the names to be removed at
  once.\<close>

fun sweep_scan :: "nat \<Rightarrow> cache_file list \<Rightarrow> nat \<Rightarrow> nat \<times> cache_file list \<times> str list" where
  "sweep_scan now [] heavy = (heavy, [], [])"
| "sweep_scan now (f # fs) heavy =
     (if \<not> cf_is_file f then sweep_scan now fs heavy
      else if is_part (cf_name f) then
        (if abandoned now f then (let (t, files, gone) = sweep_scan now fs heavy in (t, files, cf_name f # gone))
         else sweep_scan now fs (saturate (heavy + cf_size f)))
      else (let (t, files, gone) = sweep_scan now fs (saturate (heavy + cf_size f)) in (t, f # files, gone)))"

fun sweep_drop :: "(str \<Rightarrow> bool) \<Rightarrow> cache_file list \<Rightarrow> nat \<Rightarrow> str list" where
  "sweep_drop removable [] heavy = []"
| "sweep_drop removable (f # fs) heavy =
     (if heavy \<le> max_cache_bytes then []
      else if removable (cf_name f) then cf_name f # sweep_drop removable fs (heavy - cf_size f)
      else sweep_drop removable fs heavy)"

definition sweep_cache :: "nat \<Rightarrow> (str \<Rightarrow> bool) \<Rightarrow> cache_file list \<Rightarrow> cache_file list" where
  "sweep_cache now removable dir =
     (let (heavy, files, gone) = sweep_scan now dir 0;
          gone = filter removable gone
            @ (if heavy \<le> max_cache_bytes then [] else sweep_drop removable (sort_key cf_modified files) heavy)
      in filter (\<lambda>f. cf_name f \<notin> set gone) dir)"

text \<open>What the naming before left behind.\<close>

definition drop_legacy_names :: "(str \<Rightarrow> bool) \<Rightarrow> cache_file list \<Rightarrow> cache_file list" where
  "drop_legacy_names removable dir =
     filter (\<lambda>f. \<not> (cf_is_file f \<and> \<not> is_cache_name (cf_name f) \<and> \<not> is_part (cf_name f) \<and> removable (cf_name f))) dir"

definition weight :: "cache_file list \<Rightarrow> nat" where
  "weight fs = sum_list (map cf_size fs)"

definition in_flight :: "nat \<Rightarrow> cache_file \<Rightarrow> bool" where
  "in_flight now f \<longleftrightarrow> cf_is_file f \<and> is_part (cf_name f) \<and> \<not> abandoned now f"

definition cached :: "cache_file \<Rightarrow> bool" where
  "cached f \<longleftrightarrow> cf_is_file f \<and> \<not> is_part (cf_name f)"

lemma scan_eq:
  assumes "heavy + weight (filter cf_is_file dir) \<le> u64_max"
  shows "sweep_scan now dir heavy =
    (heavy + weight (filter cached dir) + weight (filter (in_flight now) dir), filter cached dir,
     map cf_name (filter (\<lambda>f. cf_is_file f \<and> is_part (cf_name f) \<and> abandoned now f) dir))"
  using assms
  by (induction dir arbitrary: heavy) (auto simp: saturate_def weight_def cached_def in_flight_def)

lemma drop_subset: "set (sweep_drop removable fs heavy) \<subseteq> cf_name ` set fs"
  by (induction fs arbitrary: heavy) (auto split: if_splits)

lemma drop_total:
  assumes "distinct (map cf_name fs)" and "heavy = extra + weight fs" and "extra \<le> max_cache_bytes"
  shows "extra + weight (filter (\<lambda>f. cf_name f \<notin> set (sweep_drop (\<lambda>_. True) fs heavy)) fs) \<le> max_cache_bytes"
  using assms(1,2)
proof (induction fs arbitrary: heavy)
  case (Cons f fs)
  from Cons.prems(1) have n: "\<And>g. g \<in> set fs \<Longrightarrow> cf_name g \<noteq> cf_name f" by (metis distinct.simps(2) image_eqI list.map(2) set_map)
  show ?case
  proof (cases "heavy \<le> max_cache_bytes")
    case False
    from Cons have ih: "extra + weight (filter (\<lambda>g. cf_name g \<notin> set (sweep_drop (\<lambda>_. True) fs (heavy - cf_size f))) fs) \<le> max_cache_bytes" 
      if "heavy - cf_size f = extra + weight fs" by (auto simp: weight_def)
    have "filter (\<lambda>g. cf_name g \<noteq> cf_name f \<and> cf_name g \<notin> set (sweep_drop (\<lambda>_. True) fs (heavy - cf_size f))) fs
        = filter (\<lambda>g. cf_name g \<notin> set (sweep_drop (\<lambda>_. True) fs (heavy - cf_size f))) fs"
      by (rule filter_cong) (use n in auto)
    with False Cons show ?thesis by (auto simp: weight_def)
  qed (use Cons in simp)
qed (use assms in \<open>simp add: weight_def\<close>)

lemma drop_prefix:
  "\<exists>n. sweep_drop removable fs heavy = map cf_name (filter (\<lambda>f. removable (cf_name f)) (take n fs))
     \<and> (n = 0 \<or> heavy > max_cache_bytes)"
proof (induction fs arbitrary: heavy)
  case (Cons f fs)
  show ?case
  proof (cases "heavy \<le> max_cache_bytes")
    case False
    obtain n where "sweep_drop removable fs (if removable (cf_name f) then heavy - cf_size f else heavy)
        = map cf_name (filter (\<lambda>f. removable (cf_name f)) (take n fs))"
      using Cons by blast
    with False show ?thesis by (intro exI [of _ "Suc n"]) auto
  qed (auto intro: exI [of _ 0])
qed (auto intro: exI [of _ 0])

lemma weight_sort: "weight (filter P (sort_key k fs)) = weight (filter P fs)"
proof -
  have "mset (map cf_size (filter P (sort_key k fs))) = mset (map cf_size (filter P fs))" by simp
  then show ?thesis unfolding weight_def by (metis sum_mset_sum_list)
qed

lemma weight_split: "weight (filter P fs) = weight (filter (\<lambda>f. P f \<and> Q f) fs) + weight (filter (\<lambda>f. P f \<and> \<not> Q f) fs)"
  by (induction fs) (auto simp: weight_def)

lemma same_name: "distinct (map cf_name dir) \<Longrightarrow> f \<in> set dir \<Longrightarrow> g \<in> set dir \<Longrightarrow> cf_name f = cf_name g \<Longrightarrow> f = g"
  by (metis distinct_map inj_onD)

text \<open>The sweep of a directory whose weights do not saturate, without the scan: the abandoned parts go, and of the
  cached files, by age, as many as it takes.\<close>

lemma sweep_eq:
  assumes "weight (filter cf_is_file dir) \<le> u64_max" and d: "distinct (map cf_name dir)"
  shows "f \<in> set (sweep_cache now removable dir) \<longleftrightarrow> f \<in> set dir
    \<and> \<not> (cf_is_file f \<and> is_part (cf_name f) \<and> abandoned now f \<and> removable (cf_name f))
    \<and> cf_name f \<notin> set (sweep_drop removable (sort_key cf_modified (filter cached dir))
        (weight (filter cached dir) + weight (filter (in_flight now) dir)))"
proof -
  have none: "weight (filter cached dir) + weight (filter (in_flight now) dir) \<le> max_cache_bytes
      \<Longrightarrow> sweep_drop removable fs (weight (filter cached dir) + weight (filter (in_flight now) dir)) = []" for fs
    by (cases fs) simp_all
  have gone: "cf_name f \<in> cf_name ` {g \<in> set dir. Q g} \<longleftrightarrow> Q f" if "f \<in> set dir" for Q
    using same_name [OF d that] that by auto
  show ?thesis
    using scan_eq [of 0 dir now] assms(1) none gone [of "\<lambda>g. cf_is_file g \<and> is_part (cf_name g) \<and> abandoned now g"]
    by (auto simp: sweep_cache_def Let_def)
qed

text \<open>What the sweep takes beside the abandoned parts: by age, of the cached files.\<close>

definition swept :: "nat \<Rightarrow> cache_file list \<Rightarrow> str list" where
  "swept now dir = sweep_drop (\<lambda>_. True) (sort_key cf_modified (filter cached dir))
     (weight (filter cached dir) + weight (filter (in_flight now) dir))"

lemma kept_iff:
  assumes "weight (filter cf_is_file dir) \<le> u64_max" and "distinct (map cf_name dir)"
  shows "f \<in> set (sweep_cache now (\<lambda>_. True) dir)
    \<longleftrightarrow> f \<in> set dir \<and> (in_flight now f \<or> \<not> cf_is_file f \<or> cached f \<and> cf_name f \<notin> set (swept now dir))"
proof -
  have "cf_name f \<in> cf_name ` set (filter cached dir) \<longleftrightarrow> cached f" if "f \<in> set dir"
    using same_name [OF assms(2) that] that by auto
  then show ?thesis
    using sweep_eq [OF assms, of f now "\<lambda>_. True"] drop_subset [of "\<lambda>_. True" "sort_key cf_modified (filter cached dir)"]
    by (fastforce simp: swept_def in_flight_def cached_def)
qed

lemma sweep_weight:
  assumes "weight (filter cf_is_file dir) \<le> u64_max" and d: "distinct (map cf_name dir)"
    and "weight (filter (in_flight now) dir) \<le> max_cache_bytes"
  shows "weight (filter cf_is_file (sweep_cache now (\<lambda>_. True) dir)) \<le> max_cache_bytes"
proof -
  let ?kept = "sweep_cache now (\<lambda>_. True) dir" and ?files = "sort_key cf_modified (filter cached dir)"
  note in_kept = kept_iff [OF assms(1) d, of _ now]
  have "?kept = filter (\<lambda>f. f \<in> set ?kept) dir"
    unfolding sweep_cache_def Let_def by (auto intro: filter_cong split: prod.split)
  then have "weight (filter cf_is_file ?kept) = weight (filter (\<lambda>f. cf_is_file f \<and> f \<in> set ?kept) dir)"
    by (metis (no_types, lifting) filter_filter filter_cong)
  also have "\<dots> = weight (filter (\<lambda>f. (cf_is_file f \<and> f \<in> set ?kept) \<and> cached f) dir)
      + weight (filter (\<lambda>f. (cf_is_file f \<and> f \<in> set ?kept) \<and> \<not> cached f) dir)"
    by (rule weight_split)
  also have "filter (\<lambda>f. (cf_is_file f \<and> f \<in> set ?kept) \<and> cached f) dir = filter (\<lambda>f. cf_name f \<notin> set (swept now dir)) (filter cached dir)"
    by (simp, rule filter_cong) (auto simp: in_kept cached_def in_flight_def)
  also have "filter (\<lambda>f. (cf_is_file f \<and> f \<in> set ?kept) \<and> \<not> cached f) dir = filter (in_flight now) dir"
    by (rule filter_cong) (auto simp: in_kept cached_def in_flight_def)
  finally have "weight (filter cf_is_file ?kept)
      = weight (filter (\<lambda>f. cf_name f \<notin> set (swept now dir)) ?files) + weight (filter (in_flight now) dir)"
    by (simp only: weight_sort)
  moreover have "weight (filter cached dir) + weight (filter (in_flight now) dir) = weight (filter (in_flight now) dir) + weight ?files"
    using weight_sort [of "\<lambda>_. True" cf_modified "filter cached dir"] by simp
  moreover have "distinct (map cf_name ?files)" using d by (auto simp: distinct_map inj_on_def)
  ultimately show ?thesis unfolding swept_def using drop_total [OF _ _ assms(3)] by (metis add.commute)
qed

lemma sweep_oldest_first:
  assumes "weight (filter cf_is_file dir) \<le> u64_max" and d: "distinct (map cf_name dir)"
    and f: "f \<in> set dir" "cached f" "f \<notin> set (sweep_cache now (\<lambda>_. True) dir)"
  shows "weight (filter cached dir) + weight (filter (in_flight now) dir) > max_cache_bytes"
    and "g \<in> set (sweep_cache now (\<lambda>_. True) dir) \<Longrightarrow> cached g \<Longrightarrow> cf_modified f \<le> cf_modified g"
proof -
  let ?files = "sort_key cf_modified (filter cached dir)"
  note in_kept = kept_iff [OF assms(1) d, of _ now]
  obtain n where n: "swept now dir = map cf_name (take n ?files)"
      "n = 0 \<or> weight (filter cached dir) + weight (filter (in_flight now) dir) > max_cache_bytes"
    using drop_prefix [of "\<lambda>_. True" ?files] by (auto simp: swept_def)
  have gone: "cf_name g \<in> set (swept now dir) \<longleftrightarrow> g \<in> set (take n ?files)" if "g \<in> set dir" for g
  proof -
    have "x \<in> set dir" if "x \<in> set (take n ?files)" for x using in_set_takeD [OF that] by simp
    moreover have "cf_name g \<in> set (swept now dir) \<longleftrightarrow> (\<exists>x\<in>set (take n ?files). cf_name g = cf_name x)"
      unfolding n(1) by (simp add: image_iff)
    ultimately show ?thesis using same_name [OF d that] by metis
  qed
  from f in_kept have first: "f \<in> set (take n ?files)" using gone by blast
  with n(2) show "weight (filter cached dir) + weight (filter (in_flight now) dir) > max_cache_bytes" by auto
  assume "g \<in> set (sweep_cache now (\<lambda>_. True) dir)" "cached g"
  with in_kept gone have "g \<in> set ?files" "g \<notin> set (take n ?files)" by (auto simp: in_flight_def cached_def)
  then have "g \<in> set (drop n ?files)" by (metis append_take_drop_id set_append Un_iff)
  moreover have "sorted (map cf_modified (take n ?files @ drop n ?files))" by simp
  ultimately show "cf_modified f \<le> cf_modified g" using first by (auto simp del: append_take_drop_id simp: sorted_append)
qed

text \<open>C33: The decrypted media on disk stay within their budget: after a sweep in which the disk lets go of every file that is to go, all the files of the directory weigh no more than
  256 MiB, provided the downloads in flight do not; a download in flight and what is no file is never taken; nothing
  cached goes while the budget is kept; and where one of two cached files goes, it is not the newer one.\<close>

theorem sweep_keeps_budget:
  assumes "weight (filter cf_is_file dir) \<le> u64_max" and "distinct (map cf_name dir)" and "\<forall>name. removable name"
    and "weight (filter (in_flight now) dir) \<le> max_cache_bytes"
    and kept: "kept = sweep_cache now removable dir"
  shows "weight (filter cf_is_file kept) \<le> max_cache_bytes
    \<and> (\<forall>f\<in>set dir. in_flight now f \<or> \<not> cf_is_file f \<longrightarrow> f \<in> set kept)
    \<and> (\<forall>f\<in>set dir. cached f \<and> f \<notin> set kept \<longrightarrow> weight (filter cached dir) + weight (filter (in_flight now) dir) > max_cache_bytes
        \<and> (\<forall>g\<in>set kept. cached g \<longrightarrow> cf_modified f \<le> cf_modified g))"
proof -
  have "removable = (\<lambda>_. True)" using assms(3) by auto
  with kept have k: "kept = sweep_cache now (\<lambda>_. True) dir" by simp
  show ?thesis unfolding k
    using sweep_weight [OF assms(1,2,4)] kept_iff [OF assms(1,2)] sweep_oldest_first [OF assms(1,2)] by blast
qed

lemma sweep_keeps_budget_witness:
  "let dir = [\<lparr>cf_name = lit ''a.bin'', cf_is_file = True, cf_modified = 5, cf_size = 200 * mib\<rparr>,
        \<lparr>cf_name = lit ''b.bin'', cf_is_file = True, cf_modified = 9, cf_size = 100 * mib\<rparr>]
   in weight (filter cf_is_file (sweep_cache 10 (\<lambda>_. True) dir)) \<le> max_cache_bytes"
proof -
  let ?dir = "[\<lparr>cf_name = lit ''a.bin'', cf_is_file = True, cf_modified = 5, cf_size = 200 * mib\<rparr>,
        \<lparr>cf_name = lit ''b.bin'', cf_is_file = True, cf_modified = 9, cf_size = 100 * mib\<rparr>]"
  have "weight (filter cf_is_file ?dir) \<le> u64_max" by (simp add: weight_def mib_def u64_max_def)
  moreover have "distinct (map cf_name ?dir)" by (simp add: lit_def)
  moreover have "weight (filter (in_flight 10) ?dir) \<le> max_cache_bytes"
    by (simp add: weight_def in_flight_def is_part_def contains_def lit_def)
  ultimately show ?thesis using sweep_keeps_budget [of ?dir "\<lambda>_. True" 10 "sweep_cache 10 (\<lambda>_. True) ?dir"] by simp
qed

text \<open>Downloads in flight that take the budget on their own make the sweep remove every cached file, also the one that was
  stored just now and is about to be opened.\<close>

lemma sweep_drops_newest:
  "let part = (\<lambda>n. \<lparr>cf_name = lit ''a.part'' @ [n], cf_is_file = True, cf_modified = 9, cf_size = 100 * mib\<rparr>);
       new = \<lparr>cf_name = lit ''b.bin'', cf_is_file = True, cf_modified = 10, cf_size = 1\<rparr>
   in new \<notin> set (sweep_cache 10 (\<lambda>_. True) [part 49, part 50, part 51, new])"
  by (simp add: sweep_cache_def is_part_def contains_def lit_def abandoned_def saturate_def u64_max_def mib_def max_cache_bytes_def abandoned_after_def)

section \<open>One download\<close>

datatype media_source = Plain_Media | Encrypted_Media
datatype media_format = Original | Thumbnail
datatype got = Got nat | Failed "nat option"

text \<open>What a download meets: whether the directory is there, whether this is the first call of the process, the weight of
  what the store of the client has, the answers of the server, whether the part is written and renamed, the number of the
  part, and whether a sweep is due.\<close>

record fetch_luck =
  fl_dir :: bool
  fl_first :: bool
  fl_stored :: "media_format \<Rightarrow> nat option"
  fl_answer :: "media_format \<Rightarrow> got"
  fl_written :: bool
  fl_renamed :: bool
  fl_attempt :: nat
  fl_sweeps :: bool
  fl_removable :: "str \<Rightarrow> bool"

definition thumbnail_refused :: "nat option \<Rightarrow> bool" where
  "thumbnail_refused status \<longleftrightarrow> status = Some 400 \<or> status = Some 404"

definition ceiling_of :: "nat \<Rightarrow> nat" where
  "ceiling_of limit = (if limit > 0 then min limit max_media_bytes else max_media_bytes)"

definition declared_gate :: "media_format \<Rightarrow> nat \<Rightarrow> nat \<Rightarrow> str + unit" where
  "declared_gate format declared most =
     (if format = Thumbnail then Inr () else check_size declared most (lit ''attachment''))"

definition stored_media :: "fetch_luck \<Rightarrow> media_format \<Rightarrow> nat option" where
  "stored_media luck format =
     (case fl_stored luck format of
        Some n \<Rightarrow> Some n
      | None \<Rightarrow> if format = Thumbnail then fl_stored luck Original else None)"

text \<open>The bytes, by their weight, and what was asked of the server.\<close>

definition load_media :: "media_format \<Rightarrow> bool \<Rightarrow> nat \<Rightarrow> nat \<Rightarrow> fetch_luck \<Rightarrow> (str + nat) \<times> media_format list" where
  "load_media format thumb declared most luck =
     (case stored_media luck format of
        Some n \<Rightarrow> (Inr n, [])
      | None \<Rightarrow>
          (case fl_answer luck format of
             Got n \<Rightarrow> (Inr n, [format])
           | Failed status \<Rightarrow>
               if thumb \<and> thumbnail_refused status then
                 (case declared_gate Original declared most of
                    Inl e \<Rightarrow> (Inl e, [format])
                  | Inr _ \<Rightarrow>
                      (case fl_answer luck Original of
                         Got n \<Rightarrow> (Inr n, [format, Original])
                       | Failed _ \<Rightarrow> (Inl (lit ''download failed''), [format, Original])))
               else (Inl (lit ''download failed''), [format])))"

definition has_file :: "str \<Rightarrow> cache_file list \<Rightarrow> bool" where
  "has_file name dir \<longleftrightarrow> (\<exists>f\<in>set dir. cf_name f = name \<and> cf_is_file f)"

definition put_media :: "str \<Rightarrow> nat \<Rightarrow> nat \<Rightarrow> cache_file list \<Rightarrow> cache_file list" where
  "put_media name now n dir =
     filter (\<lambda>f. cf_name f \<noteq> name) dir @ [\<lparr>cf_name = name, cf_is_file = True, cf_modified = now, cf_size = n\<rparr>]"

definition store_media :: "str \<Rightarrow> nat \<Rightarrow> nat \<Rightarrow> fetch_luck \<Rightarrow> cache_file list \<Rightarrow> (str + str) \<times> cache_file list" where
  "store_media digest now n luck dir =
     (let name = digest @ lit ''.bin''; partial = digest @ lit ''.part'' @ show_nat (fl_attempt luck) in
      if \<not> fl_written luck then (Inl (lit ''could not write media''), dir)
      else if \<not> fl_renamed luck then (Inl (lit ''could not store media''), put_media partial now n dir)
      else (let dir = put_media name now n (filter (\<lambda>f. cf_name f \<noteq> partial) dir)
        in (Inr name, if fl_sweeps luck then sweep_cache now (fl_removable luck) dir else dir)))"

definition fetch_media :: "(media_format \<Rightarrow> str) \<Rightarrow> media_source option \<Rightarrow> bool \<Rightarrow> nat \<Rightarrow> nat \<Rightarrow> nat \<Rightarrow> fetch_luck
    \<Rightarrow> cache_file list \<Rightarrow> (str + str) \<times> media_format list \<times> cache_file list" where
  "fetch_media digest source thumb declared limit now luck dir =
     (case source of
        None \<Rightarrow> (Inl (lit ''media source is neither a plain address nor an encrypted file''), [], dir)
      | Some src \<Rightarrow>
          (let format = (if thumb \<and> src \<noteq> Encrypted_Media then Thumbnail else Original) in
           if \<not> fl_dir luck then (Inl (lit ''media cache unavailable''), [], dir)
           else
             let dir = (if fl_first luck then drop_legacy_names (fl_removable luck) dir else dir);
                 name = cache_name digest format
             in if has_file name dir then (Inr name, [], dir)
                else (case declared_gate format declared (ceiling_of limit) of
                    Inl e \<Rightarrow> (Inl e, [], dir)
                  | Inr _ \<Rightarrow>
                      (case load_media format thumb declared (ceiling_of limit) luck of
                         (Inl e, asked) \<Rightarrow> (Inl e, asked, dir)
                       | (Inr n, asked) \<Rightarrow>
                           (case check_size n (ceiling_of limit) (lit ''attachment'') of
                              Inl e \<Rightarrow> (Inl e, asked, dir)
                            | Inr _ \<Rightarrow> (let (r, dir) = store_media (digest format) now n luck dir in (r, asked, dir)))))))"

lemma check_size_ok [simp]: "check_size n most what = Inr u \<longleftrightarrow> n \<le> most"
  by (cases u) (auto simp: check_size_def)

lemma gate_ok [simp]: "declared_gate format declared most = Inr u \<longleftrightarrow> format = Thumbnail \<or> declared \<le> most"
  by (cases u) (simp add: declared_gate_def)

lemma load_asked:
  assumes "load_media format thumb declared most luck = (r, asked)" and "format = Thumbnail \<or> declared \<le> most"
  shows "(Original \<in> set asked \<longrightarrow> declared \<le> most) \<and> (asked = [] \<or> asked = [format] \<or> asked = [format, Original] \<and> thumb
    \<and> (fl_answer luck format = Failed (Some 400) \<or> fl_answer luck format = Failed (Some 404)))"
  using assms by (cases format) (auto simp: load_media_def thumbnail_refused_def split: option.splits got.splits sum.splits if_splits)

lemma sweep_sub: "set (sweep_cache now removable dir) \<subseteq> set dir"
  by (auto simp: sweep_cache_def Let_def split: prod.splits)

lemma store_added:
  "store_media digest now n luck dir = (r, dir') \<Longrightarrow> f \<in> set dir' \<Longrightarrow> f \<in> set dir \<or> cf_size f = n"
  using sweep_sub by (fastforce simp: store_media_def put_media_def Let_def split: if_splits)

text \<open>A download weighs what it may: whatever the sender declares and the server sends, every file that a download adds is
  within the ceiling of its caller and within 100 MiB; the original is asked of the server only if its declared size is within
  that ceiling, and in the place of a thumbnail only if the server refused the thumbnail.\<close>

theorem download_within_ceiling:
  assumes "fetch_media digest source thumb declared limit now luck dir = (r, asked, dir')"
  shows "(\<forall>f\<in>set dir'. f \<in> set dir \<or> cf_size f \<le> max_media_bytes \<and> (limit > 0 \<longrightarrow> cf_size f \<le> limit))
    \<and> (Original \<in> set asked \<longrightarrow> declared \<le> max_media_bytes \<and> (limit > 0 \<longrightarrow> declared \<le> limit))
    \<and> (\<forall>format. asked = [format, Original] \<longrightarrow>
        thumb \<and> (fl_answer luck format = Failed (Some 400) \<or> fl_answer luck format = Failed (Some 404)))"
proof -
  let ?most = "ceiling_of limit"
  have most: "n \<le> ?most \<longleftrightarrow> n \<le> max_media_bytes \<and> (limit > 0 \<longrightarrow> n \<le> limit)" for n by (auto simp: ceiling_of_def)
  define format where "format = (if thumb \<and> source \<noteq> Some Encrypted_Media then Thumbnail else Original)"
  define dir1 where "dir1 = (if fl_first luck then drop_legacy_names (fl_removable luck) dir else dir)"
  have legacy: "set dir1 \<subseteq> set dir" by (auto simp: dir1_def drop_legacy_names_def)
  have eq: "fetch_media digest (Some src) thumb declared limit now luck dir =
      (if \<not> fl_dir luck then (Inl (lit ''media cache unavailable''), [], dir)
       else if has_file (cache_name digest format) dir1 then (Inr (cache_name digest format), [], dir1)
       else (case declared_gate format declared ?most of
          Inl e \<Rightarrow> (Inl e, [], dir1)
        | Inr _ \<Rightarrow> (case load_media format thumb declared ?most luck of
            (Inl e, asked) \<Rightarrow> (Inl e, asked, dir1)
          | (Inr n, asked) \<Rightarrow> (case check_size n ?most (lit ''attachment'') of
              Inl e \<Rightarrow> (Inl e, asked, dir1)
            | Inr _ \<Rightarrow> (let (r, dir) = store_media (digest format) now n luck dir1 in (r, asked, dir))))))"
    if "source = Some src" for src
    unfolding fetch_media_def format_def dir1_def that Let_def by (simp only: option.case option.inject)
  consider "asked = []" "set dir' \<subseteq> set dir"
    | e where "format = Thumbnail \<or> declared \<le> ?most" "load_media format thumb declared ?most luck = (Inl e, asked)" "dir' = dir1"
    | n where "format = Thumbnail \<or> declared \<le> ?most" "load_media format thumb declared ?most luck = (Inr n, asked)"
        "dir' = dir1 \<or> n \<le> ?most \<and> store_media (digest format) now n luck dir1 = (r, dir')"
  proof (cases source)
    case None
    with assms that(1) show ?thesis by (simp add: fetch_media_def)
  next
    case (Some src)
    from assms show ?thesis unfolding Some eq [OF Some] using that legacy
      by (auto split: if_splits sum.splits prod.splits)
  qed
  then have "(\<forall>f\<in>set dir'. f \<in> set dir \<or> cf_size f \<le> ?most) \<and> (Original \<in> set asked \<longrightarrow> declared \<le> ?most)
    \<and> (\<forall>format. asked = [format, Original] \<longrightarrow> thumb \<and> (fl_answer luck format = Failed (Some 400) \<or> fl_answer luck format = Failed (Some 404)))"
  proof cases
    case 3
    with legacy load_asked [OF 3(2,1)] store_added [of "digest format" now n luck dir1 r dir'] show ?thesis by fastforce
  qed (use legacy load_asked in fastforce)+
  then show ?thesis unfolding most by blast
qed

definition media_names :: "media_format \<Rightarrow> str" where
  "media_names format = (case format of Original \<Rightarrow> lit ''a'' | Thumbnail \<Rightarrow> lit ''b'')"

definition refusing_server :: "nat \<Rightarrow> fetch_luck" where
  "refusing_server n = \<lparr>fl_dir = True, fl_first = False, fl_stored = \<lambda>_. None,
     fl_answer = \<lambda>format. if format = Thumbnail then Failed (Some 404) else Got n,
     fl_written = True, fl_renamed = True, fl_attempt = 0, fl_sweeps = False, fl_removable = \<lambda>_. True\<rparr>"

lemma download_within_ceiling_witness:
  "let (r, asked, dir) = fetch_media media_names (Some Plain_Media) True (20 * mib) 0 5 (refusing_server (30 * mib)) []
   in r = Inr (lit ''b.bin'') \<and> asked = [Thumbnail, Original] \<and> (\<forall>f\<in>set dir. cf_size f \<le> max_media_bytes)"
proof -
  obtain r asked dir where f: "fetch_media media_names (Some Plain_Media) True (20 * mib) 0 5 (refusing_server (30 * mib)) [] = (r, asked, dir)"
    by (metis prod_cases3)
  from f have "r = Inr (lit ''b.bin'') \<and> asked = [Thumbnail, Original]"
    by (auto simp: fetch_media_def refusing_server_def media_names_def cache_name_def has_file_def declared_gate_def load_media_def
        stored_media_def thumbnail_refused_def check_size_def ceiling_of_def max_media_bytes_def mib_def store_media_def Let_def lit_def)
  with download_within_ceiling [OF f] f show ?thesis by simp
qed

text \<open>A file that is there already is not weighed: what was fetched under the general ceiling is handed to a caller who
  wants less.  The original that stood in for a thumbnail lies under the name of the thumbnail.\<close>

lemma cached_past_limit:
  "let (_, _, dir) = fetch_media media_names (Some Plain_Media) True 0 0 5 (refusing_server (30 * mib)) []
   in fst (fetch_media media_names (Some Plain_Media) True 0 max_avatar_bytes 6 (refusing_server (30 * mib)) dir) = Inr (lit ''b.bin'')
     \<and> (\<exists>f\<in>set dir. cf_name f = lit ''b.bin'' \<and> cf_size f > max_avatar_bytes)"
  by (simp add: fetch_media_def refusing_server_def media_names_def cache_name_def has_file_def declared_gate_def load_media_def
      stored_media_def thumbnail_refused_def check_size_def ceiling_of_def max_media_bytes_def max_avatar_bytes_def mib_def store_media_def
      put_media_def Let_def lit_def)

end
