(* ===== verification/Link_Preview.thy ===== *)
theory Link_Preview
  imports Text_Safety "HOL-Library.AList"
begin

text \<open>
  \<open>src/core/src/linkpreview.rs\<close>: the preview of a link, asked of the homeserver, trimmed and remembered.  The reading of an
  address and the answers of the server are parameters.
\<close>

section \<open>The card\<close>

text \<open>The values of an answer: a text, a number, or anything else.\<close>

datatype field_value = Text_Value str | Number_Value nat | Other_Value

type_synonym preview_fields = "(str \<times> field_value) list"

record preview_card =
  pc_url :: str
  pc_host :: str
  pc_title :: "str option"
  pc_description :: "str option"
  pc_site :: "str option"
  pc_image :: "str option"
  pc_size :: nat

text \<open>The replies: a card, with whether there is something on it; no preview; to be asked for again.\<close>

datatype preview = Preview_Card bool preview_card | No_Preview str | Try_Again str

definition title_chars :: nat where "title_chars = 120"
definition description_chars :: nat where "description_chars = 300"
definition known_limit :: nat where "known_limit = 500"

definition text_field :: "preview_fields \<Rightarrow> str \<Rightarrow> nat \<Rightarrow> str option" where
  "text_field og key limit =
     (case map_of og key of
        Some (Text_Value value) \<Rightarrow>
          (let text = trim value; cut = take limit text
           in if text = [] then None
              else Some (strip_bidi (if length cut < length text then cut @ [0x2026] else cut)))
      | _ \<Rightarrow> None)"

definition preview_image :: "preview_fields \<Rightarrow> str option" where
  "preview_image og =
     (case map_of og (lit ''og:image'') of
        Some (Text_Value uri) \<Rightarrow> if starts_with (lit ''mxc://'') uri then Some uri else None
      | _ \<Rightarrow> None)"

definition preview_of :: "str \<Rightarrow> str \<Rightarrow> preview_fields \<Rightarrow> preview" where
  "preview_of url host og =
     (let title = text_field og (lit ''og:title'') title_chars;
          description = text_field og (lit ''og:description'') description_chars;
          image = preview_image og
      in Preview_Card (title \<noteq> None \<or> description \<noteq> None \<or> image \<noteq> None)
           \<lparr>pc_url = url, pc_host = host, pc_title = title, pc_description = description,
            pc_site = text_field og (lit ''og:site_name'') title_chars, pc_image = image,
            pc_size = (case map_of og (lit ''matrix:image:size'') of Some (Number_Value n) \<Rightarrow> n | _ \<Rightarrow> 0)\<rparr>)"

text \<open>The scheme and the host of an address, as its parser reads them; a web address has a host of ASCII, in lower case.\<close>

type_synonym url_parser = "str \<Rightarrow> (str \<times> str option) option"

definition host_of :: "url_parser \<Rightarrow> str \<Rightarrow> str option" where
  "host_of parse url =
     (case parse url of
        None \<Rightarrow> None
      | Some (scheme, host) \<Rightarrow>
          if scheme = lit ''http'' \<or> scheme = lit ''https'' then map_option (map ascii_lower) host else None)"

section \<open>The request\<close>

datatype page_answer = Fields preview_fields | Nothing | Could_Not_Ask

text \<open>The answer to a request: fields, or data that are none; an empty body; an endpoint that is not there; another error,
  with its status.\<close>

datatype preview_answer = Data "preview_fields option" | Empty_Body | Not_Implemented | Http_Error "nat option"

text \<open>What the server says: whether it can be asked for its versions in time, and then whether it has the authenticated
  endpoint; and its answer.\<close>

record preview_server =
  ps_versions :: "bool option"
  ps_answer :: preview_answer

text \<open>The outcome, whether the endpoint is known to be missing, and the requests: which endpoint, for which link.\<close>

definition fetch_preview :: "preview_server \<Rightarrow> str \<Rightarrow> bool \<Rightarrow> page_answer \<times> bool \<times> (bool \<times> str) list" where
  "fetch_preview server url unsupported =
     (if unsupported then (Nothing, unsupported, [])
      else (case ps_versions server of
          None \<Rightarrow> (Could_Not_Ask, unsupported, [])
        | Some authenticated \<Rightarrow>
            (case ps_answer server of
               Data (Some og) \<Rightarrow> (Fields og, unsupported, [(authenticated, url)])
             | Data None \<Rightarrow> (Nothing, unsupported, [(authenticated, url)])
             | Empty_Body \<Rightarrow> (Nothing, unsupported, [(authenticated, url)])
             | Not_Implemented \<Rightarrow> (Nothing, True, [(authenticated, url)])
             | Http_Error status \<Rightarrow>
                 (if status = Some 400 \<or> status = Some 404 then Nothing else Could_Not_Ask, unsupported, [(authenticated, url)]))))"

section \<open>The memory\<close>

record preview_state =
  pv_known :: "(str \<times> preview) list"
  pv_unsupported :: bool

definition forget_previews :: preview_state where
  "forget_previews = \<lparr>pv_known = [], pv_unsupported = False\<rparr>"

definition remember :: "str \<Rightarrow> preview \<Rightarrow> (str \<times> preview) list \<Rightarrow> (str \<times> preview) list" where
  "remember url v known = AList.update url v (if length known \<ge> known_limit then [] else known)"

definition handle_preview :: "url_parser \<Rightarrow> preview_server option \<Rightarrow> str \<Rightarrow> preview_state
    \<Rightarrow> preview \<times> (bool \<times> str) list \<times> preview_state" where
  "handle_preview parse client url s =
     (case host_of parse url of
        None \<Rightarrow> (No_Preview url, [], s)
      | Some host \<Rightarrow>
          (case map_of (pv_known s) url of
             Some known \<Rightarrow> (known, [], s)
           | None \<Rightarrow>
               (let (outcome, unsupported, requests) =
                      (case client of Some server \<Rightarrow> fetch_preview server url (pv_unsupported s)
                       | None \<Rightarrow> (Could_Not_Ask, pv_unsupported s, []));
                    s = s\<lparr>pv_unsupported := unsupported\<rparr>
                in if outcome = Could_Not_Ask then (Try_Again url, requests, s)
                   else (let fresh = (case outcome of Fields og \<Rightarrow> preview_of url host og | _ \<Rightarrow> No_Preview url)
                     in (fresh, requests, s\<lparr>pv_known := remember url fresh (pv_known s)\<rparr>)))))"

text \<open>The asks of a session, each with what the server says by then.\<close>

fun preview_run :: "url_parser \<Rightarrow> (str \<times> preview_server option) list \<Rightarrow> preview_state \<Rightarrow> preview_state" where
  "preview_run parse [] s = s"
| "preview_run parse ((url, client) # asks) s = preview_run parse asks (snd (snd (handle_preview parse client url s)))"

section \<open>What a card shows\<close>

definition preview_url :: "preview \<Rightarrow> str" where
  "preview_url v = (case v of Preview_Card _ c \<Rightarrow> pc_url c | No_Preview u \<Rightarrow> u | Try_Again u \<Rightarrow> u)"

definition plain_text :: "nat \<Rightarrow> str option \<Rightarrow> bool" where
  "plain_text limit t \<longleftrightarrow> (case t of None \<Rightarrow> True | Some s \<Rightarrow> length s \<le> limit + 1 \<and> list_all (\<lambda>c. \<not> is_bidi_control c) s)"

text \<open>A card that holds to its word: pictures of the homeserver only, short texts without direction controls, and a host of the
  page.\<close>

definition modest :: "url_parser \<Rightarrow> preview \<Rightarrow> bool" where
  "modest parse v \<longleftrightarrow> (case v of
     Preview_Card available c \<Rightarrow> host_of parse (pc_url c) = Some (pc_host c)
       \<and> plain_text title_chars (pc_title c) \<and> plain_text description_chars (pc_description c) \<and> plain_text title_chars (pc_site c)
       \<and> (case pc_image c of None \<Rightarrow> True | Some uri \<Rightarrow> starts_with (lit ''mxc://'') uri)
       \<and> (available \<longleftrightarrow> pc_title c \<noteq> None \<or> pc_description c \<noteq> None \<or> pc_image c \<noteq> None)
   | _ \<Rightarrow> True)"

lemma text_field_plain: "plain_text limit (text_field og key limit)"
proof (cases "text_field og key limit")
  case (Some s)
  then obtain t where s: "s = strip_bidi t" "length t \<le> limit + 1"
    by (auto simp: text_field_def Let_def split: option.splits field_value.splits if_splits)
  have "length s \<le> limit + 1"
    unfolding s(1) strip_bidi_eq by (rule le_trans [OF length_filter_le s(2)])
  with s(1) Some show ?thesis by (auto simp: plain_text_def strip_bidi_eq list_all_iff)
qed (simp add: plain_text_def)

lemma preview_of_modest: "host_of parse url = Some host \<Longrightarrow> modest parse (preview_of url host og)"
  by (auto simp: modest_def preview_of_def preview_image_def Let_def text_field_plain split: option.splits field_value.splits)

definition memory_ok :: "url_parser \<Rightarrow> preview_state \<Rightarrow> bool" where
  "memory_ok parse s \<longleftrightarrow> length (pv_known s) \<le> known_limit
     \<and> (\<forall>url v. map_of (pv_known s) url = Some v \<longrightarrow> preview_url v = url \<and> modest parse v \<and> host_of parse url \<noteq> None)"

lemma update_length: "length (AList.update k v xs) \<le> length xs + 1"
  by (induction xs) auto

lemma remember_length: "length known \<le> known_limit \<Longrightarrow> length (remember url v known) \<le> known_limit"
  using update_length [of url v known] by (auto simp: remember_def known_limit_def)

lemma known_remember: "map_of (remember url v known) u = Some w \<Longrightarrow> u = url \<and> w = v \<or> map_of known u = Some w"
  by (auto simp: remember_def update_conv' split: if_splits)

lemma handle_ok:
  assumes "memory_ok parse s" and "handle_preview parse client url s = (v, requests, s')"
  shows "memory_ok parse s' \<and> preview_url v = url \<and> modest parse v"
proof (cases "host_of parse url")
  case None
  with assms show ?thesis by (auto simp: handle_preview_def preview_url_def modest_def)
next
  case (Some host)
  have fresh: "preview_url w = url \<and> modest parse w" if "w = preview_of url host og \<or> w = No_Preview url \<or> w = Try_Again url" for w og
    using that preview_of_modest [OF Some] by (auto simp: preview_url_def preview_of_def modest_def Let_def)
  have kept: "memory_ok parse (t\<lparr>pv_known := remember url w (pv_known s)\<rparr>)" if "preview_url w = url" "modest parse w" for t w
    using assms(1) that Some remember_length by (auto simp: memory_ok_def dest!: known_remember)
  have "memory_ok parse (s\<lparr>pv_unsupported := b\<rparr>)" for b using assms(1) by (simp add: memory_ok_def)
  note unsupported = this
  show ?thesis
  proof (cases "map_of (pv_known s) url")
    case (Some known)
    with assms \<open>host_of parse url = Some host\<close> show ?thesis by (auto simp: handle_preview_def memory_ok_def)
  next
    case None
    obtain outcome b asked where o: "(case client of Some server \<Rightarrow> fetch_preview server url (pv_unsupported s)
        | None \<Rightarrow> (Could_Not_Ask, pv_unsupported s, [])) = (outcome, b, asked)" by (metis prod_cases3)
    define w where "w = (case outcome of Fields og \<Rightarrow> preview_of url host og | _ \<Rightarrow> No_Preview url)"
    have "\<exists>og. w = preview_of url host og \<or> w = No_Preview url" unfolding w_def by (cases outcome) auto
    with fresh have w: "preview_url w = url" "modest parse w" by blast+
    have again: "preview_url (Try_Again url) = url" "modest parse (Try_Again url)" using fresh by blast+
    have "handle_preview parse client url s =
        (if outcome = Could_Not_Ask then (Try_Again url, asked, s\<lparr>pv_unsupported := b\<rparr>)
         else (w, asked, s\<lparr>pv_unsupported := b, pv_known := remember url w (pv_known s)\<rparr>))"
      unfolding handle_preview_def \<open>host_of parse url = Some host\<close> None option.case o Let_def prod.case w_def by simp
    with assms(2) have "v = Try_Again url \<and> s' = s\<lparr>pv_unsupported := b\<rparr>
        \<or> v = w \<and> s' = s\<lparr>pv_unsupported := b, pv_known := remember url w (pv_known s)\<rparr>"
      by (auto split: if_splits)
    then show ?thesis using kept [OF w] unsupported again w by auto
  qed
qed

lemma run_memory: "memory_ok parse s \<Longrightarrow> memory_ok parse (preview_run parse asks s)"
proof (induction parse asks s rule: preview_run.induct)
  case (2 parse url client asks s)
  then show ?case using handle_ok [OF "2.prems"] by (metis preview_run.simps(2) prod_cases3 snd_conv)
qed simp

text \<open>A preview never leads the phone to the page: every reply names the link that was asked about; a card shows the host of that
  very link, a title, a description and a name of the site that are short and free of direction controls, and a picture
  only from the homeserver's own store; and no more than 500 replies are remembered.\<close>

theorem previews_modest:
  assumes "handle_preview parse client url (preview_run parse asks forget_previews) = (v, requests, s)"
  shows "preview_url v = url \<and> modest parse v \<and> length (pv_known s) \<le> known_limit"
proof -
  have "memory_ok parse forget_previews" by (simp add: memory_ok_def forget_previews_def)
  from handle_ok [OF run_memory [OF this] assms] show ?thesis by (simp add: memory_ok_def)
qed

section \<open>What the server is asked\<close>

lemma handle_known:
  "map_of (pv_known s) u = Some v \<Longrightarrow> length (pv_known s) < known_limit
    \<Longrightarrow> map_of (pv_known (snd (snd (handle_preview parse client url s)))) u = Some v
      \<and> length (pv_known (snd (snd (handle_preview parse client url s)))) \<le> length (pv_known s) + 1"
  using update_length
  by (auto simp: handle_preview_def Let_def remember_def update_conv' split: option.splits prod.splits)

lemma run_known:
  "map_of (pv_known s) u = Some v \<Longrightarrow> length (pv_known s) + length asks \<le> known_limit
    \<Longrightarrow> map_of (pv_known (preview_run parse asks s)) u = Some v"
proof (induction parse asks s rule: preview_run.induct)
  case (2 parse url client asks s)
  with handle_known [of s u v parse client url] show ?case by simp
qed simp

text \<open>The homeserver learns of a link once: it is asked only about web addresses with a host, at most once for each time a card
  asks, and once it has answered about a link - with a page, or that it has none - the next cards get that very reply and
  nothing is asked, until the links asked about since fill the memory.\<close>

theorem link_asked_once:
  assumes "handle_preview parse client url s = (v, requests, s')"
    and "length (pv_known s') + length asks \<le> known_limit"
  shows "length requests \<le> 1 \<and> (\<forall>(_, u)\<in>set requests. u = url \<and> host_of parse u \<noteq> None)
    \<and> (v = Try_Again url \<or> (\<exists>s''. handle_preview parse client' url (preview_run parse asks s') = (v, [], s'')))"
proof (cases "host_of parse url")
  case None
  with assms(1) show ?thesis by (auto simp: handle_preview_def)
next
  case (Some host)
  have "length requests \<le> 1 \<and> (\<forall>(_, u)\<in>set requests. u = url)"
    using assms(1) Some
    by (auto simp: handle_preview_def fetch_preview_def Let_def split: option.splits if_splits preview_answer.splits)
  moreover have "v = Try_Again url \<or> map_of (pv_known s') url = Some v"
    using assms(1) Some
    by (auto simp: handle_preview_def remember_def update_conv' Let_def split: option.splits prod.splits if_splits)
  ultimately show ?thesis
    using run_known [of s' url v asks parse] assms(2) Some by (auto simp: handle_preview_def)
qed

text \<open>At the limit the memory is not trimmed: it starts over.\<close>

lemma full_memory_starts_over:
  "length known \<ge> known_limit \<Longrightarrow> remember url v known = [(url, v)]"
  by (simp add: remember_def)

definition web_only :: url_parser where
  "web_only url = (if starts_with (lit ''https://'') url then Some (lit ''https'', Some (drop 8 url)) else None)"

definition page_server :: preview_server where
  "page_server = \<lparr>ps_versions = Some True, ps_answer = Data (Some [(lit ''og:title'', Text_Value (lit '' A page ''))])\<rparr>"

lemma link_asked_once_witness:
  "\<exists>v s s''. handle_preview web_only (Some page_server) (lit ''https://a.org'') forget_previews = (v, [(True, lit ''https://a.org'')], s)
    \<and> handle_preview web_only None (lit ''https://a.org'') (preview_run web_only [(lit ''https://b.org'', None)] s) = (v, [], s'')"
proof -
  obtain v requests s where h: "handle_preview web_only (Some page_server) (lit ''https://a.org'') forget_previews = (v, requests, s)"
    by (metis prod_cases3)
  then have r: "requests = [(True, lit ''https://a.org'')]" "length (pv_known s) = 1" "v \<noteq> Try_Again (lit ''https://a.org'')"
    by (auto simp: handle_preview_def forget_previews_def host_of_def web_only_def page_server_def fetch_preview_def remember_def
        known_limit_def preview_of_def Let_def lit_def)
  then show ?thesis
    using h link_asked_once [OF h, of "[(lit ''https://b.org'', None)]" None] by (auto simp: known_limit_def)
qed

lemma previews_modest_witness:
  "modest web_only (fst (handle_preview web_only (Some page_server) (lit ''https://a.org'')
     (preview_run web_only [(lit ''https://b.org'', Some page_server)] forget_previews)))"
  using previews_modest [of web_only "Some page_server" "lit ''https://a.org''" "[(lit ''https://b.org'', Some page_server)]"]
  by (metis prod_cases3 fst_conv)

end
