(* ===== verification/Private_Lists.thy ===== *)
theory Private_Lists
  imports Session_Store
begin

text \<open>
  \<open>src/core/src/private.rs\<close> with its two commands in \<open>src/core/src/runtime.rs\<close>: the lists that name people, kept in an
  encrypted file.  As for the session file, a file is told by what reading and parsing it yields, and the cipher is a pair of
  parameters.
\<close>

section \<open>The file\<close>

type_synonym name_lists = "(str \<times> str list) list"

text \<open>Not there; there and not to be read; no envelope, or one whose parts do not decode; an envelope.\<close>

datatype 'e private_file = No_File | Unopenable | Damaged | Sealed 'e

datatype loaded = Empty_Lists | Lists name_lists | Unreadable_Lists

definition load_lists :: "(key \<Rightarrow> 'e \<Rightarrow> name_lists option) \<Rightarrow> 'e private_file \<Rightarrow> key option \<Rightarrow> loaded" where
  "load_lists unseal f k =
     (case f of
        No_File \<Rightarrow> Empty_Lists
      | Unopenable \<Rightarrow> Unreadable_Lists
      | _ \<Rightarrow>
          (case k of
             None \<Rightarrow> Unreadable_Lists
           | Some key \<Rightarrow>
               (case f of
                  Sealed e \<Rightarrow> (case unseal key e of Some ls \<Rightarrow> Lists ls | None \<Rightarrow> Unreadable_Lists)
                | _ \<Rightarrow> Unreadable_Lists)))"

text \<open>A new file is renamed over the old one; after that its permissions may still fail.\<close>

definition save_lists :: "(key \<Rightarrow> name_lists \<Rightarrow> 'e option) \<Rightarrow> rename_outcome \<Rightarrow> 'e private_file \<Rightarrow> key option \<Rightarrow> name_lists
    \<Rightarrow> 'e private_file \<times> bool" where
  "save_lists seal w f k ls =
     (case k of
        None \<Rightarrow> (f, False)
      | Some key \<Rightarrow>
          (case seal key ls of
             None \<Rightarrow> (f, False)
           | Some e \<Rightarrow> (case w of NotRenamed \<Rightarrow> (f, False) | Renamed ok \<Rightarrow> (Sealed e, ok))))"

section \<open>The commands\<close>

text \<open>\<open>private.get\<close>: the lists, and whether they are readable.\<close>

definition private_get :: "(key \<Rightarrow> 'e \<Rightarrow> name_lists option) \<Rightarrow> 'e private_file \<Rightarrow> key option \<Rightarrow> name_lists \<times> bool" where
  "private_get unseal f k =
     (case load_lists unseal f k of
        Lists ls \<Rightarrow> (ls, True)
      | Empty_Lists \<Rightarrow> ([], k \<noteq> None)
      | Unreadable_Lists \<Rightarrow> ([], False))"

datatype set_reply = Not_Signed_In | Not_Readable | Not_Saved | Saved name_lists

definition private_set :: "(key \<Rightarrow> name_lists \<Rightarrow> 'e option) \<Rightarrow> (key \<Rightarrow> 'e \<Rightarrow> name_lists option) \<Rightarrow> rename_outcome \<Rightarrow> bool
    \<Rightarrow> key option \<Rightarrow> name_lists \<Rightarrow> 'e private_file \<Rightarrow> set_reply \<times> 'e private_file" where
  "private_set seal unseal w signed_in k ls f =
     (if \<not> signed_in then (Not_Signed_In, f)
      else if load_lists unseal f k = Unreadable_Lists then (Not_Readable, f)
      else (case save_lists seal w f k ls of
          (f, True) \<Rightarrow> (Saved ls, f)
        | (f, False) \<Rightarrow> (Not_Saved, f)))"

text \<open>A sequence of writes, each under the key of its moment.\<close>

fun private_sets :: "(key \<Rightarrow> name_lists \<Rightarrow> 'e option) \<Rightarrow> (key \<Rightarrow> 'e \<Rightarrow> name_lists option)
    \<Rightarrow> (rename_outcome \<times> bool \<times> key option \<times> name_lists) list \<Rightarrow> 'e private_file \<Rightarrow> 'e private_file" where
  "private_sets seal unseal [] f = f"
| "private_sets seal unseal ((w, signed_in, k, ls) # ws) f =
     private_sets seal unseal ws (snd (private_set seal unseal w signed_in k ls f))"

definition reopens :: "(key \<Rightarrow> name_lists \<Rightarrow> 'e option) \<Rightarrow> (key \<Rightarrow> 'e \<Rightarrow> name_lists option) \<Rightarrow> bool" where
  "reopens seal unseal \<longleftrightarrow> (\<forall>k ls e. seal k ls = Some e \<longrightarrow> unseal k e = Some ls)"

lemma load_sealed [simp]:
  "load_lists unseal (Sealed e) (Some key) = (case unseal key e of Some ls \<Rightarrow> Lists ls | None \<Rightarrow> Unreadable_Lists)"
  by (simp add: load_lists_def)

lemma set_kept:
  assumes "reopens seal unseal"
  shows "snd (private_set seal unseal w signed_in k ls f) = f
    \<or> signed_in \<and> k \<noteq> None \<and> load_lists unseal f k \<noteq> Unreadable_Lists \<and> load_lists unseal (snd (private_set seal unseal w signed_in k ls f)) k = Lists ls"
  using assms by (auto simp: private_set_def save_lists_def reopens_def split: option.splits rename_outcome.splits prod.splits bool.splits)

text \<open>C34: Lists that were not read are never written over: whatever writes come, under whatever keys and however the disk
  fails, a file that none of those keys reopens is there as it was; and if a write changes the file at all, it was one that its key
  could read, and what was written reads back under that key.\<close>

theorem unread_lists_survive:
  assumes "reopens seal unseal" and "f \<noteq> No_File"
    and "\<And>w signed_in k ls. (w, signed_in, k, ls) \<in> set ws \<Longrightarrow> load_lists unseal f k = Unreadable_Lists"
  shows "private_sets seal unseal ws f = f \<and>
    (snd (private_set seal unseal w' signed_in' k' ls' f) \<noteq> f \<longrightarrow> signed_in' \<and> (\<exists>old. load_lists unseal f k' = Lists old)
       \<and> private_get unseal (snd (private_set seal unseal w' signed_in' k' ls' f)) k' = (ls', True))"
proof -
  have "private_sets seal unseal ws f = f" using assms(3)
  proof (induction ws)
    case (Cons x ws)
    then show ?case by (cases x) (auto simp: private_set_def)
  qed simp
  moreover have "load_lists unseal f k' \<noteq> Empty_Lists"
    using assms(2) by (auto simp: load_lists_def split: private_file.splits option.splits)
  ultimately show ?thesis
    using set_kept [OF assms(1), of w' signed_in' k' ls' f] by (cases "load_lists unseal f k'") (auto simp: private_get_def)
qed

text \<open>What is called readable can be written, and nothing else: a signed-in write with a cipher and a disk that work is saved exactly
  if the lists were readable before, and then they read as written.\<close>

lemma readable_iff_writable:
  assumes "reopens seal unseal" and "\<And>key. k = Some key \<Longrightarrow> seal key ls \<noteq> None"
  shows "snd (private_get unseal f k) \<longleftrightarrow> fst (private_set seal unseal (Renamed True) True k ls f) = Saved ls"
  using assms
  by (auto simp: private_get_def private_set_def save_lists_def load_lists_def split: option.splits private_file.splits loaded.splits)

definition pair_seal :: "key \<Rightarrow> name_lists \<Rightarrow> (key \<times> name_lists) option" where
  "pair_seal k ls = Some (k, ls)"

definition pair_unseal :: "key \<Rightarrow> key \<times> name_lists \<Rightarrow> name_lists option" where
  "pair_unseal k e = (if fst e = k then Some (snd e) else None)"

lemma unread_lists_survive_witness:
  "private_sets pair_seal pair_unseal [(Renamed True, True, Some [2], []), (Renamed True, True, None, [])] (Sealed ([1], [(lit ''callers'', [lit ''@a:x''])]))
     = Sealed ([1], [(lit ''callers'', [lit ''@a:x''])])
   \<and> private_get pair_unseal (snd (private_set pair_seal pair_unseal (Renamed True) True (Some [1]) [] (Sealed ([1], [(lit ''callers'', [lit ''@a:x''])])))) (Some [1])
     = ([], True)"
proof -
  let ?f = "Sealed ([1], [(lit ''callers'', [lit ''@a:x''])]) :: (key \<times> name_lists) private_file"
  let ?ws = "[(Renamed True, True, Some [2], []), (Renamed True, True, None, [])] :: (rename_outcome \<times> bool \<times> key option \<times> name_lists) list"
  have "reopens pair_seal pair_unseal" by (simp add: reopens_def pair_seal_def pair_unseal_def)
  moreover have "load_lists pair_unseal ?f k = Unreadable_Lists" if "(w, i, k, ls) \<in> set ?ws" for w i k ls
    using that by (auto simp: load_lists_def pair_unseal_def)
  ultimately show ?thesis
    using unread_lists_survive [of pair_seal pair_unseal ?f ?ws "Renamed True" True "Some [1]" "[]"]
    by (simp add: private_set_def save_lists_def pair_seal_def pair_unseal_def)
qed

end
