(* ===== verification/Net_Watch.thy ===== *)
theory Net_Watch
  imports Rust_Text "HOL-Library.Word"
begin

text \<open>
  \<open>src/core/src/netwatch.rs\<close>: the addresses of the kernel's tables of connections, the connections that a switch of the
  network has cut off, and the sweep that shuts them down.  The tables, the interfaces, the routes and the descriptors of the
  process are parameters; the phone is little-endian.
\<close>

section \<open>Addresses\<close>

type_synonym byte = "8 word"

datatype ip = V4 "byte list" | V6 "byte list"

definition kernel_hex :: "nat \<Rightarrow> nat option" where
  "kernel_hex c =
     (if is_digit c then Some (c - 48)
      else if 65 \<le> c \<and> c \<le> 70 then Some (c - 55)
      else if 97 \<le> c \<and> c \<le> 102 then Some (c - 87) else None)"

fun hex_digits :: "str \<Rightarrow> nat \<Rightarrow> nat option" where
  "hex_digits [] v = Some v"
| "hex_digits (c # cs) v = (case kernel_hex c of Some d \<Rightarrow> hex_digits cs (16 * v + d) | None \<Rightarrow> None)"

text \<open>\<open>from_str_radix\<close> takes a sign, and no empty text; a value beyond the type is refused.\<close>

definition parse_hex :: "str \<Rightarrow> nat option" where
  "parse_hex s =
     (let ds = (case s of c # t \<Rightarrow> if c = 43 then t else s | [] \<Rightarrow> s)
      in if ds = [] then None
         else (case hex_digits ds 0 of Some v \<Rightarrow> if v \<le> u32_max then Some v else None | None \<Rightarrow> None))"

definition ne_bytes :: "nat \<Rightarrow> byte list" where
  "ne_bytes v = [of_nat v, of_nat (v div 256), of_nat (v div 65536), of_nat (v div 16777216)]"

definition address_word :: "str \<Rightarrow> nat \<Rightarrow> byte list option" where
  "address_word hex i = map_option ne_bytes (parse_hex (take 8 (drop (8 * i) hex)))"

definition ipv4_mapped :: "byte list \<Rightarrow> bool" where
  "ipv4_mapped bytes \<longleftrightarrow> take 12 bytes = replicate 10 0 @ [255, 255]"

definition parse_address :: "str \<Rightarrow> bool \<Rightarrow> ip option" where
  "parse_address hex v6 =
     (if \<not> v6 then (if utf8_len hex = 8 then map_option V4 (address_word hex 0) else None)
      else if utf8_len hex \<noteq> 32 then None
      else (case (address_word hex 0, address_word hex 1, address_word hex 2, address_word hex 3) of
          (Some a, Some b, Some c, Some d) \<Rightarrow>
            (let bytes = a @ b @ c @ d
             in Some (if ipv4_mapped bytes then V4 (drop 12 bytes) else V6 bytes))
        | _ \<Rightarrow> None))"

definition is_unspecified :: "ip \<Rightarrow> bool" where
  "is_unspecified a = (case a of V4 bs \<Rightarrow> bs = replicate 4 0 | V6 bs \<Rightarrow> bs = replicate 16 0)"

definition is_loopback :: "ip \<Rightarrow> bool" where
  "is_loopback a = (case a of V4 bs \<Rightarrow> hd bs = 127 | V6 bs \<Rightarrow> bs = replicate 15 0 @ [1])"

section \<open>Connections that were cut off\<close>

datatype route = Via ip | Unreachable | Unknown

type_synonym interfaces = "ip \<Rightarrow> str option"

definition field :: "str list \<Rightarrow> nat \<Rightarrow> str option" where
  "field xs i = (if i < length xs then Some (xs ! i) else None)"

definition field_address :: "str list \<Rightarrow> nat \<Rightarrow> bool \<Rightarrow> ip option" where
  "field_address xs i v6 = (case field xs i of Some f \<Rightarrow> parse_address (hd (split_on (\<lambda>c. c = 0x3A) f)) v6 | None \<Rightarrow> None)"

definition cut_off :: "interfaces \<Rightarrow> (ip \<Rightarrow> route) \<Rightarrow> ip \<Rightarrow> ip \<Rightarrow> bool" where
  "cut_off interfaces route here there \<longleftrightarrow>
     (case interfaces here of
        None \<Rightarrow> True
      | Some own \<Rightarrow>
          if is_unspecified there \<or> is_loopback there then False
          else (case route there of
              Via source \<Rightarrow> (case interfaces source of Some other \<Rightarrow> other \<noteq> own | None \<Rightarrow> False)
            | Unreachable \<Rightarrow> True
            | Unknown \<Rightarrow> False))"

definition stale_inode :: "bool \<Rightarrow> interfaces \<Rightarrow> (ip \<Rightarrow> route) \<Rightarrow> str \<Rightarrow> nat option" where
  "stale_inode v6 interfaces route line =
     (let fs = split_whitespace line in
      case field fs 3 of
        None \<Rightarrow> None
      | Some state \<Rightarrow>
          if state = lit ''0A'' then None
          else (case (field_address fs 1 v6, field_address fs 2 v6) of
              (Some here, Some there) \<Rightarrow>
                (case Option.bind (field fs 9) (parse_uint u64_max) of
                   None \<Rightarrow> None
                 | Some inode \<Rightarrow>
                     if inode = 0 \<or> is_unspecified here \<or> is_loopback here then None
                     else if cut_off interfaces route here there then Some inode else None)
            | _ \<Rightarrow> None))"

definition stale_inodes :: "bool \<Rightarrow> interfaces \<Rightarrow> (ip \<Rightarrow> route) \<Rightarrow> str list \<Rightarrow> nat list" where
  "stale_inodes v6 interfaces route table = List.map_filter (stale_inode v6 interfaces route) (drop 1 table)"

text \<open>The sweep: the descriptors of the process with the inode their link names and the one they have by then; those it
  shuts down.\<close>

definition sweep_sockets :: "interfaces option \<Rightarrow> (ip \<Rightarrow> route) \<Rightarrow> str list option \<Rightarrow> str list option \<Rightarrow> (nat \<times> nat option \<times> nat) list \<Rightarrow> nat list" where
  "sweep_sockets interfaces route tcp tcp6 descriptors =
     (case interfaces of
        None \<Rightarrow> []
      | Some present \<Rightarrow>
          (let stale = (case tcp of Some table \<Rightarrow> set (stale_inodes False present route table) | None \<Rightarrow> {})
                 \<union> (case tcp6 of Some table \<Rightarrow> set (stale_inodes True present route table) | None \<Rightarrow> {})
           in map fst (filter (\<lambda>(fd, link, inode). link \<noteq> None \<and> the link \<in> stale \<and> inode = the link) descriptors)))"

section \<open>The kernel's format\<close>

definition hex_char :: "nat \<Rightarrow> nat" where
  "hex_char d = (if d < 10 then 48 + d else 55 + d)"

text \<open>\<open>%08X\<close> of the word that the four bytes of an address are in memory.\<close>

definition kernel_word :: "byte list \<Rightarrow> str" where
  "kernel_word bs = concat (map (\<lambda>b. [hex_char (unat b div 16), hex_char (unat b mod 16)]) (rev bs))"

lemma hex_char: "d < 16 \<Longrightarrow> kernel_hex (hex_char d) = Some d \<and> hex_char d \<noteq> 43 \<and> hex_char d < 128"
  by (auto simp: kernel_hex_def hex_char_def is_digit_def)

lemma byte_bound: "unat (b :: byte) < 256" "unat b div 16 < 16" "unat b mod 16 < 16"
  using unsigned_less [of b, where 'a = nat] by (auto simp: less_mult_imp_div_less)

lemma hex_kernel:
  "hex_digits (concat (map (\<lambda>b. [hex_char (unat b div 16), hex_char (unat b mod 16)]) bs)) v
     = Some (foldl (\<lambda>v b. 256 * v + unat b) v bs)"
  for bs :: "byte list"
proof (induction bs arbitrary: v)
  case (Cons b bs)
  have "256 * v + unat b = 16 * (16 * v + unat b div 16) + unat b mod 16" by simp
  with Cons hex_char byte_bound [of b] show ?case by (simp add: add.commute)
qed simp

lemma word_value:
  "hex_digits (kernel_word [a, b, c, d]) 0 = Some (unat a + 256 * unat b + 65536 * unat c + 16777216 * unat d)"
  using hex_kernel [of "[d, c, b, a]" 0] by (simp add: kernel_word_def algebra_simps)

lemma byte_of_nat: "n mod 256 = unat b \<Longrightarrow> of_nat n = (b :: byte)"
  by (rule word_unat_eq_iff [THEN iffD2]) (simp add: unsigned_of_nat take_bit_eq_mod)

lemma digit: "unat (b :: byte) + 256 * n = m \<Longrightarrow> m mod 256 = unat b \<and> m div 256 = n"
  using byte_bound(1) [of b] by auto

lemma word_bytes: "ne_bytes (unat a + 256 * unat b + 65536 * unat c + 16777216 * unat d) = [a, b, c, d]"
proof -
  define w where "w = unat c + 256 * unat d"
  define v where "v = unat b + 256 * w"
  define u where "u = unat a + 256 * v"
  have u: "u = unat a + 256 * unat b + 65536 * unat c + 16777216 * unat d" by (simp add: u_def v_def w_def)
  have "u div 65536 = u div 256 div 256" "u div 16777216 = u div 256 div 256 div 256" by (simp_all add: div_mult2_eq [symmetric])
  moreover note digit [OF u_def [symmetric]] digit [OF v_def [symmetric]] digit [OF w_def [symmetric]]
  moreover have "unat d mod 256 = unat d" using byte_bound(1) [of d] by simp
  ultimately have "u mod 256 = unat a" "u div 256 mod 256 = unat b" "u div 65536 mod 256 = unat c" "u div 16777216 mod 256 = unat d"
    by simp_all
  then show ?thesis unfolding u [symmetric] ne_bytes_def by (auto simp only: byte_of_nat)
qed

lemma parse_kernel: "parse_hex (kernel_word [a, b, c, d]) = Some (unat a + 256 * unat b + 65536 * unat c + 16777216 * unat d)"
proof -
  have "kernel_word [a, b, c, d] = hex_char (unat d div 16) # tl (kernel_word [a, b, c, d])" by (simp add: kernel_word_def)
  moreover have "unat a + 256 * unat b + 65536 * unat c + 16777216 * unat d \<le> u32_max"
    using byte_bound(1) [of a] byte_bound(1) [of b] byte_bound(1) [of c] byte_bound(1) [of d] by (simp add: u32_max_def)
  ultimately show ?thesis
    using word_value [of a b c d] hex_char [OF byte_bound(2) [of d]] by (auto simp: parse_hex_def Let_def split: list.splits)
qed

lemma kernel_length [simp]: "length (kernel_word bs) = 2 * length bs"
proof -
  have "length (concat (map (\<lambda>b. [hex_char (unat b div 16), hex_char (unat b mod 16)]) bs)) = 2 * length bs" for bs :: "byte list"
    by (induction bs) auto
  then show ?thesis by (simp add: kernel_word_def)
qed

lemma kernel_ascii: "c \<in> set (kernel_word bs) \<Longrightarrow> c < 128"
  using hex_char byte_bound by (auto simp: kernel_word_def)

lemma kernel_utf8: "list_all (\<lambda>c. c < 128) s \<Longrightarrow> utf8_len s = length s"
  by (induction s) (auto simp: utf8_len_def utf8_bytes_def)

lemma address_kernel: "take 8 (drop (8 * i) hex) = kernel_word [a, b, c, d] \<Longrightarrow> address_word hex i = Some [a, b, c, d]"
  by (simp add: address_word_def parse_kernel word_bytes)

text \<open>The addresses of the kernel's tables are read as they are: the text the kernel prints for the four bytes of an IPv4 address, a
  word in the order of the machine, is read as that address, and the four words of an IPv6 address as that one - or, where it
  wraps an IPv4 address, as the one inside.\<close>

theorem kernel_address_roundtrip:
  "parse_address (kernel_word [a, b, c, d]) False = Some (V4 [a, b, c, d])
   \<and> parse_address (kernel_word [a0, a1, a2, a3] @ kernel_word [a4, a5, a6, a7] @ kernel_word [a8, a9, aa, ab] @ kernel_word [a, b, c, d]) True
     = Some (if [a0, a1, a2, a3, a4, a5, a6, a7, a8, a9, aa, ab] = replicate 10 0 @ [255, 255] then V4 [a, b, c, d]
         else V6 [a0, a1, a2, a3, a4, a5, a6, a7, a8, a9, aa, ab, a, b, c, d])"
proof -
  let ?hex = "kernel_word [a0, a1, a2, a3] @ kernel_word [a4, a5, a6, a7] @ kernel_word [a8, a9, aa, ab] @ kernel_word [a, b, c, d]"
  have "utf8_len (kernel_word [a, b, c, d]) = 8" "utf8_len ?hex = 32"
    by (subst kernel_utf8; auto simp: list_all_iff dest: kernel_ascii)+
  moreover have "address_word (kernel_word [a, b, c, d]) 0 = Some [a, b, c, d]" by (rule address_kernel) simp
  moreover have "address_word ?hex 0 = Some [a0, a1, a2, a3]" "address_word ?hex 1 = Some [a4, a5, a6, a7]"
    "address_word ?hex 2 = Some [a8, a9, aa, ab]" "address_word ?hex 3 = Some [a, b, c, d]"
    by (rule address_kernel, simp)+
  ultimately show ?thesis by (auto simp: parse_address_def ipv4_mapped_def)
qed

section \<open>The sweep\<close>

text \<open>A line of the table as it is read: the state, the two addresses and the inode.\<close>

definition connection :: "bool \<Rightarrow> str \<Rightarrow> ip \<Rightarrow> ip \<Rightarrow> nat \<Rightarrow> bool" where
  "connection v6 line here there inode \<longleftrightarrow> (\<exists>state. field (split_whitespace line) 3 = Some state \<and> state \<noteq> lit ''0A'')
     \<and> field_address (split_whitespace line) 1 v6 = Some here \<and> field_address (split_whitespace line) 2 v6 = Some there
     \<and> Option.bind (field (split_whitespace line) 9) (parse_uint u64_max) = Some inode \<and> inode \<noteq> 0"

lemma stale_iff:
  "inode \<in> set (stale_inodes v6 interfaces route table) \<longleftrightarrow>
     (\<exists>line\<in>set (drop 1 table). \<exists>here there. connection v6 line here there inode
        \<and> \<not> is_unspecified here \<and> \<not> is_loopback here \<and> cut_off interfaces route here there)"
proof -
  have "stale_inode v6 interfaces route line = Some inode \<longleftrightarrow> (\<exists>here there. connection v6 line here there inode
        \<and> \<not> is_unspecified here \<and> \<not> is_loopback here \<and> cut_off interfaces route here there)" for line
    by (auto simp: stale_inode_def connection_def Let_def split: option.splits if_splits)
  then show ?thesis by (force simp: stale_inodes_def map_filter_def)
qed

text \<open>A switch of the network closes no connection that still works: a descriptor is shut down only if it is, by its own word too,
  the socket of a connection to the outside whose address has left every interface, or to whose peer no route leads, or a
  route through the interface of another; never a listener, never one to this phone, and nothing where the
  interfaces or the route cannot be told.\<close>

theorem only_cut_connections_closed:
  assumes "fd \<in> set (sweep_sockets interfaces route tcp tcp6 descriptors)"
  shows "\<exists>present inode v6 table line here there. interfaces = Some present \<and> (fd, Some inode, inode) \<in> set descriptors
    \<and> (if v6 then tcp6 else tcp) = Some table \<and> line \<in> set table \<and> connection v6 line here there inode \<and> \<not> is_loopback here
    \<and> (present here = None \<or> \<not> is_loopback there \<and> (route there = Unreachable
        \<or> (\<exists>source other. route there = Via source \<and> present source = Some other \<and> present here \<noteq> Some other)))"
proof -
  obtain present where p: "interfaces = Some present" using assms by (cases interfaces) (auto simp: sweep_sockets_def)
  with assms obtain inode where i: "(fd, Some inode, inode) \<in> set descriptors"
      "inode \<in> (case tcp of Some table \<Rightarrow> set (stale_inodes False present route table) | None \<Rightarrow> {})
         \<union> (case tcp6 of Some table \<Rightarrow> set (stale_inodes True present route table) | None \<Rightarrow> {})"
    by (auto simp: sweep_sockets_def Let_def)
  obtain v6 table where d: "(if v6 then tcp6 else tcp) = Some table" "inode \<in> set (stale_inodes v6 present route table)"
  proof (cases "\<exists>table. tcp = Some table \<and> inode \<in> set (stale_inodes False present route table)")
    case True
    with that [of False] show ?thesis by auto
  next
    case False
    with i(2) that [of True] show ?thesis by (auto split: option.splits)
  qed
  from d(2) obtain line here there where l: "line \<in> set (drop 1 table)" "connection v6 line here there inode"
      "\<not> is_loopback here" "cut_off present route here there"
    unfolding stale_iff by blast
  from l(4) have "present here = None \<or> \<not> is_loopback there \<and> (route there = Unreachable
        \<or> (\<exists>source other. route there = Via source \<and> present source = Some other \<and> present here \<noteq> Some other))"
    by (auto simp: cut_off_def split: option.splits route.splits if_splits)
  with p i(1) d(1) l in_set_dropD [OF l(1)] show ?thesis by blast
qed

definition one_line :: str where
  "one_line = lit ''0: 070200C0:C350 500071CB:01BB 01 a b c d e 7''"

lemma one_line_stale: "stale_inode False (\<lambda>_. None) (\<lambda>_. Unknown) one_line = Some 7"
proof -
  have "split_whitespace one_line = map lit [''0:'', ''070200C0:C350'', ''500071CB:01BB'', ''01'', ''a'', ''b'', ''c'', ''d'', ''e'', ''7'']"
    by code_simp
  moreover have "split_on (\<lambda>c. c = 0x3A) (lit ''070200C0:C350'') = [lit ''070200C0'', lit ''C350'']"
    "split_on (\<lambda>c. c = 0x3A) (lit ''500071CB:01BB'') = [lit ''500071CB'', lit ''01BB'']"
    "parse_hex (lit ''070200C0'') = Some 117571776" "parse_hex (lit ''500071CB'') = Some 1342206411"
    "parse_uint u64_max (lit ''7'') = Some 7" "lit ''01'' \<noteq> lit ''0A''" "utf8_len (lit ''070200C0'') = 8" "utf8_len (lit ''500071CB'') = 8"
    by code_simp+
  moreover have "replicate 4 (0 :: byte) = [0, 0, 0, 0]" by (simp add: numeral_eq_Suc)
  ultimately show ?thesis
    by (simp add: stale_inode_def field_address_def field_def parse_address_def address_word_def ne_bytes_def is_unspecified_def
        is_loopback_def cut_off_def Let_def)
qed

lemma only_cut_connections_closed_witness:
  "\<exists>inode v6 table line here there. (3 :: nat, Some inode, inode) \<in> set [(3, Some 7, 7 :: nat)] \<and> (if v6 then None else Some [[], one_line]) = Some table
     \<and> line \<in> set table \<and> connection v6 line here there inode"
proof -
  have "(3 :: nat) \<in> set (sweep_sockets (Some (\<lambda>_. None)) (\<lambda>_. Unknown) (Some [[], one_line]) None [(3, Some 7, 7)])"
    by (simp add: sweep_sockets_def stale_inodes_def map_filter_def one_line_stale)
  from only_cut_connections_closed [OF this] show ?thesis by blast
qed

end
