(* ===== verification/Timeline_Tasks.thy ===== *)
theory Timeline_Tasks
  imports Task_Registry "HOL-Library.AList"
begin

text \<open>
  From \<open>src/core/src/timeline.rs\<close>: the tasks of a timeline (\<open>TimelineTasks\<close>), which end with it, and the senders that are
  remembered across timelines.
\<close>

section \<open>Tasks\<close>

text \<open>Whether the timeline and the lanes of its requests are open, and the tasks that may still run.\<close>

record timeline_tasks =
  tt_open :: bool
  tt_lanes :: bool
  tt_running :: "nat list"

definition new_tasks :: timeline_tasks where
  "new_tasks = \<lparr>tt_open = True, tt_lanes = True, tt_running = []\<rparr>"

text \<open>Checked and registered under one lock; a closed timeline starts nothing.\<close>

definition spawn_tracked :: "nat \<Rightarrow> timeline_tasks \<Rightarrow> tasks \<Rightarrow> timeline_tasks \<times> tasks" where
  "spawn_tracked t tt ts =
     (if \<not> tt_open tt then (tt, ts)
      else (tt\<lparr>tt_running := filter (\<lambda>i. i \<notin> t_ended ts) (tt_running tt) @ [t]\<rparr>, enlist t ts))"

definition abort_all :: "timeline_tasks \<Rightarrow> tasks \<Rightarrow> timeline_tasks \<times> tasks" where
  "abort_all tt ts = (tt\<lparr>tt_open := False\<rparr>, abort_tasks (set (tt_running tt)) ts)"

text \<open>A close has three parts: the lanes close, the tasks are taken out and told to end, and each of them is waited for.\<close>

definition close_tasks :: "timeline_tasks \<Rightarrow> tasks \<Rightarrow> timeline_tasks \<times> tasks" where
  "close_tasks tt ts =
     (tt\<lparr>tt_lanes := False, tt_open := False, tt_running := []\<rparr>,
      end_tasks (set (tt_running tt)) (abort_tasks (set (tt_running tt)) ts))"

datatype timeline_event = Spawned nat | Finished nat | Dropped | Closed

fun timeline_step :: "timeline_event \<Rightarrow> timeline_tasks \<times> tasks \<Rightarrow> timeline_tasks \<times> tasks" where
  "timeline_step (Spawned t) (tt, ts) = spawn_tracked t tt ts"
| "timeline_step (Finished t) (tt, ts) = (tt, end_tasks {t} ts)"
| "timeline_step Dropped (tt, ts) = abort_all tt ts"
| "timeline_step Closed (tt, ts) = close_tasks tt ts"

definition timeline_run :: "timeline_event list \<Rightarrow> timeline_tasks \<times> tasks" where
  "timeline_run es = fold timeline_step es (new_tasks, no_tasks)"

interpretation timeline: task_registry timeline_step tt_open "\<lambda>tt. set (tt_running tt)"
proof unfold_locales
  fix s s' :: timeline_tasks and ts ts' :: tasks and e :: timeline_event
  assume e: "timeline_step e (s, ts) = (s', ts')"
  show "accounted (set (tt_running s)) ts \<Longrightarrow> accounted (set (tt_running s')) ts'"
    using e by (cases e) (auto simp: spawn_tracked_def abort_all_def close_tasks_def tasks_simps accounted_def done_with_def split: if_splits)
  show "\<not> tt_open s \<longrightarrow> set (tt_running s) \<subseteq> done_with ts \<Longrightarrow> \<not> tt_open s' \<Longrightarrow> set (tt_running s') \<subseteq> done_with ts'"
    using e by (cases e) (auto simp: spawn_tracked_def abort_all_def close_tasks_def tasks_simps done_with_def split: if_splits)
qed

text \<open>With the close itself, which waits: what the registry still holds has ended.\<close>

definition all_ended :: "timeline_tasks \<times> tasks \<Rightarrow> bool" where
  "all_ended w \<longleftrightarrow> t_registered (snd w) \<subseteq> set (tt_running (fst w)) \<union> t_ended (snd w)"

lemma step_all_ended: "all_ended w \<Longrightarrow> all_ended (timeline_step e w)"
  by (cases w; cases e) (auto simp: all_ended_def spawn_tracked_def abort_all_def close_tasks_def tasks_simps)

lemma run_all_ended: "all_ended w \<Longrightarrow> all_ended (fold timeline_step es w)"
  by (induction es arbitrary: w) (simp_all add: step_all_ended)

lemma closed_stays:
  "\<not> tt_open (fst w) \<Longrightarrow> \<not> tt_open (fst (fold timeline_step es w)) \<and> t_registered (snd (fold timeline_step es w)) = t_registered (snd w)"
proof (induction es arbitrary: w)
  case (Cons e es)
  have "\<not> tt_open (fst (timeline_step e w)) \<and> t_registered (snd (timeline_step e w)) = t_registered (snd w)"
    using Cons.prems by (cases w; cases e) (auto simp: spawn_tracked_def abort_all_def close_tasks_def tasks_simps)
  with Cons.IH show ?case by simp
qed simp

text \<open>A timeline that is closed leaves nothing behind: when the close returns, every task the timeline ever started has ended -
  so none of them holds the store that is deleted next - and none is started after; and a timeline that is only dropped has
  told every one of them to end.\<close>

theorem closed_timeline_is_done:
  "(\<forall>t. t \<in> t_registered (snd (timeline_run (es @ Closed # es'))) \<longrightarrow> t \<in> t_ended (snd (timeline_run (es @ [Closed]))))
   \<and> (\<forall>t. t \<in> t_registered (snd (timeline_run (es @ [Dropped]))) \<longrightarrow> t \<in> t_aborted (snd (timeline_run (es @ [Dropped]))) \<union> t_ended (snd (timeline_run es)))"
proof -
  obtain tt ts where w: "timeline_run es = (tt, ts)" by fastforce
  have "all_ended (timeline_run es)" unfolding timeline_run_def by (rule run_all_ended) (simp add: all_ended_def no_tasks_def)
  with w have ended: "t_registered ts \<subseteq> set (tt_running tt) \<union> t_ended ts" by (simp add: all_ended_def)
  have closed: "timeline_run (es @ [Closed]) = close_tasks tt ts" "timeline_run (es @ [Dropped]) = abort_all tt ts"
    "timeline_run (es @ Closed # es') = fold timeline_step es' (close_tasks tt ts)"
    using w by (simp_all add: timeline_run_def)
  have "t_registered (snd (timeline_run (es @ Closed # es'))) = t_registered ts"
    using closed_stays [of "close_tasks tt ts" es'] closed by (simp add: close_tasks_def tasks_simps)
  with ended closed w show ?thesis by (auto simp: close_tasks_def abort_all_def tasks_simps)
qed

lemma closed_timeline_is_done_witness:
  "1 \<in> t_registered (snd (timeline_run [Spawned 1, Closed, Spawned 2])) \<and> 1 \<in> t_ended (snd (timeline_run [Spawned 1, Closed]))"
proof -
  have "1 \<in> t_registered (snd (timeline_run ([Spawned 1] @ Closed # [Spawned 2])))"
    by (simp add: timeline_run_def new_tasks_def spawn_tracked_def close_tasks_def tasks_simps)
  with closed_timeline_is_done [of "[Spawned 1]" "[Spawned 2]"] show ?thesis by auto
qed

section \<open>Senders\<close>

type_synonym known_senders = "(str \<times> (str \<times> str option)) list option"

definition sender_key :: "str \<Rightarrow> str \<Rightarrow> str" where
  "sender_key room_id user = room_id @ [1] @ user"

definition remember_sender :: "str \<Rightarrow> str \<Rightarrow> str option \<Rightarrow> str option \<Rightarrow> known_senders \<Rightarrow> known_senders" where
  "remember_sender room_id user name avatar known =
     (let known = (case known of Some k \<Rightarrow> k | None \<Rightarrow> []);
          entry = (case map_of known (sender_key room_id user) of Some e \<Rightarrow> e | None \<Rightarrow> (user, None));
          entry = (case name of Some n \<Rightarrow> (n, snd entry) | None \<Rightarrow> entry);
          entry = (if avatar \<noteq> None then (fst entry, avatar) else entry)
      in Some (AList.update (sender_key room_id user) entry known))"

definition recall_sender :: "str \<Rightarrow> str \<Rightarrow> known_senders \<Rightarrow> (str \<times> str option) option" where
  "recall_sender room_id user known = (case known of Some k \<Rightarrow> map_of k (sender_key room_id user) | None \<Rightarrow> None)"

definition forget_senders :: known_senders where
  "forget_senders = None"

lemma sender_key_inj:
  assumes "1 \<notin> set room" "1 \<notin> set room'" and "sender_key room user = sender_key room' user'"
  shows "room = room' \<and> user = user'"
  using assms
proof (induction room arbitrary: room')
  case Nil
  then show ?case by (cases room') (auto simp: sender_key_def)
next
  case (Cons c room)
  then show ?case by (cases room') (auto simp: sender_key_def)
qed

text \<open>What a sender was last known by in a room is remembered for that sender in that room and for no other: a name that is known
  takes the place of the one before, an unknown one leaves it, an address stands in until a name comes, and nothing is known
  after the names were forgotten.\<close>

theorem senders_remembered:
  assumes "1 \<notin> set room" and "1 \<notin> set room'"
  shows "recall_sender room user (remember_sender room' user' name avatar known) =
    (if room = room' \<and> user = user'
     then (case recall_sender room user known of
         None \<Rightarrow> Some ((case name of Some n \<Rightarrow> n | None \<Rightarrow> user), avatar)
       | Some (n0, a0) \<Rightarrow> Some ((case name of Some n \<Rightarrow> n | None \<Rightarrow> n0), if avatar = None then a0 else avatar))
     else recall_sender room user known)
   \<and> recall_sender room user forget_senders = None"
  using sender_key_inj [OF assms, of user user']
  by (auto simp: recall_sender_def remember_sender_def forget_senders_def update_conv' Let_def split: option.splits)

lemma senders_remembered_witness:
  "recall_sender (lit ''!r:x'') (lit ''@a:x'')
     (remember_sender (lit ''!q:x'') (lit ''@a:x'') (Some (lit ''A'')) None (remember_sender (lit ''!r:x'') (lit ''@a:x'') (Some (lit ''B'')) None forget_senders))
   = Some (lit ''B'', None)"
  by (subst senders_remembered, simp_all add: lit_def) (subst senders_remembered [unfolded lit_def], simp_all add: recall_sender_def forget_senders_def)

end
