(* ===== verification/Spec2Isabelle.thy ===== *)
theory Spec2Isabelle
  imports Message_Row Security_Status Link_Marks Small_Pages Session_Flow
    Markup_Output Replies Send_Queue Text_Safety Poll_Promises Poll_View Store_Repair Push_Sync Push_Retry Calls Mentions Joined_Ask Left_Rooms Location
    Media_Cache Link_Preview Private_Lists Net_Watch Timeline_Tasks
begin

text \<open>
  harbour-xmatic is a Matrix client for Sailfish OS: a Rust core (\<open>src/core/src\<close>) over the Matrix SDK,
  a Qt bridge, and QML pages whose shared logic is JavaScript (\<open>src/qml/pages/*.js\<close>).  This
  development models the JavaScript in full and the parts of the core that keep the user's session,
  data and screen safe, and proves what they promise.

  \<^bold>\<open>How the parts interact.\<close>  The core stores the session and builds the client under one gate; it
  answers every command of the front end once; it queues what is sent and retries what fails; it
  rewrites the HTML of a message into markup the text renderer draws, and hands it to the pages, which
  put pictures and colours into it and decide where a tapped link leads; it judges polls, and repairs
  its stores when rows can no longer be decoded; it keeps the pushers of the phone in step with the
  gateway that was picked, rings for the callers that were allowed, fetches media and previews through
  the homeserver, counts the rooms, and shares a position only while asked to.

  \<^bold>\<open>Shared theories.\<close>  \<^theory_text>\<open>Prelude\<close> (strings as code lists, searching and splitting), \<^theory_text>\<open>Js_Regex\<close> (regular
  expressions of JavaScript: a matcher by continuation with its derivation of matches), \<^theory_text>\<open>Rust_Text\<close>
  (string functions and durations of the Rust library), \<^theory_text>\<open>Markup_Text\<close> (how a reader sees markup; the
  locale \<open>escaper\<close>), \<^theory_text>\<open>Tokens\<close> (markup as text and tags).

  \<^bold>\<open>The pages.\<close>
  \<^item> \<^theory_text>\<open>Matrix_Links\<close> is \<open>MatrixLinks.js\<close>: parsing of addresses, percent decoding, where a link leads.
  \<^item> \<^theory_text>\<open>Message_Body\<close>, \<^theory_text>\<open>Linking\<close>, \<^theory_text>\<open>Message_Row\<close> are \<open>MessageBody.js\<close>: escaping and linking of plain
    bodies; nothing is lost or invented, and no anchor leads where it may not.
  \<^item> \<^theory_text>\<open>Emoji_Data\<close>, \<^theory_text>\<open>Formatting\<close>, \<^theory_text>\<open>Rendering\<close> are \<open>Emoji.js\<close> and \<open>Formatting.js\<close>: the passes over
    formatted bodies refine a rewriting of tokens; pictures never touch the markup.
  \<^item> \<^theory_text>\<open>Security_Status\<close> is \<open>SecurityStatus.js\<close>, \<^theory_text>\<open>Link_Marks\<close> is \<open>LinkMarks.js\<close>, \<^theory_text>\<open>Small_Pages\<close> is
    \<open>Strings.js\<close>, \<open>Preview.js\<close> and \<open>Composing.js\<close>.

  \<^bold>\<open>The session.\<close>  \<^theory_text>\<open>Session_Gate\<close> is \<open>gate.rs\<close> (slot, phase, generation); \<^theory_text>\<open>Session_Store\<close> is
  \<open>session.rs\<close> over a store directory and a session file, with each file system answer the code tells
  apart as an argument; \<^theory_text>\<open>Session_Life\<close> is \<open>runtime/lifecycle.rs\<close> as a machine of commands and
  outcomes.  \<^theory_text>\<open>Session_Safety\<close> holds the invariant of all reachable states, \<^theory_text>\<open>Session_Disk\<close> what stays
  on disk, \<^theory_text>\<open>Session_Flow\<close> what a user gets done.

  \<^bold>\<open>Text.\<close>  \<^theory_text>\<open>Text_Safety\<close> is \<open>text.rs\<close>.  \<^theory_text>\<open>Markup\<close> is \<open>markup.rs\<close>, the writer of styled text over the
  tree of the HTML library; \<^theory_text>\<open>Markup_Grammar\<close> is the language it writes, \<^theory_text>\<open>Markup_Safety\<close> shows that a
  tree that fits is written in it, \<^theory_text>\<open>Markup_Invariants\<close> what holds for every tree (the locale
  \<open>writer_invariant\<close>), \<^theory_text>\<open>Markup_Output\<close> the end-to-end properties, through the pages.  \<^theory_text>\<open>Compose\<close> is
  \<open>compose.rs\<close> and the pills of \<open>mention.rs\<close>, the way out: \<^theory_text>\<open>Compose_Safety\<close> holds the
  language it writes and what a reader sees of it, \<^theory_text>\<open>Compose_Pills\<close> the walk that puts in the pills.

  \<^bold>\<open>Commands, queue, polls, stores.\<close>  \<^theory_text>\<open>Replies\<close> is the sink of \<open>runtime.rs\<close>: the books of what is owed
  refine one debt per command.  \<^theory_text>\<open>Send_Queue\<close> is \<open>sendqueue.rs\<close> with its loop in \<open>roomlist.rs\<close> and the channel between them,
  which may drop failures.
  \<^theory_text>\<open>Poll_Verdicts\<close> and \<^theory_text>\<open>Poll_View\<close> are \<open>poll.rs\<close>; \<^theory_text>\<open>Poll_Safety\<close> states the contract of a condition
  that every step keeps (the locale \<open>verdict_contract\<close>, interpreted three times) and the reading of
  the server's pages, \<^theory_text>\<open>Poll_Promises\<close> the properties.  \<^theory_text>\<open>Store_Health\<close> is \<open>storehealth.rs\<close> with
  \<open>runtime/storage.rs\<close>, \<^theory_text>\<open>Store_Repair\<close> its properties.

  \<^bold>\<open>Push.\<close>  \<^theory_text>\<open>Push_Record\<close> is \<open>push.rs\<close>: the record on disk of the pushers this installation set or
  may have set, and the homeserver that holds them.  \<^theory_text>\<open>Push_Safety\<close> states what a record must be for a
  deletion to be rightful (the locale \<open>kept_record\<close>, interpreted twice), \<^theory_text>\<open>Push_Promises\<close> the properties
  over all histories; \<^theory_text>\<open>Push_Sync\<close> is the setting and clearing of \<open>runtime/pushcmd.rs\<close>, and
  \<^theory_text>\<open>Push_Retry\<close> its debts and waiters as atomic operations that interleave; the one proviso of its property is
  \<open>calm_run\<close>.

  \<^bold>\<open>Rooms, calls, media, places.\<close>  \<^theory_text>\<open>Calls\<close> is \<open>call.rs\<close>: who may ring, how often, and what an offer
  offers.  \<^theory_text>\<open>Mentions\<close> is the rest of \<open>mention.rs\<close>: who is offered, who is notified.
  \<^theory_text>\<open>Room_Census\<close> and \<^theory_text>\<open>Joined_Ask\<close> are \<open>roomcount.rs\<close> with the side tasks of \<open>roomlist.rs\<close>: the counts told
  to the pages are those of the store, requests go one at a time, no task outlives the list.  The tasks of
  the list and those of a timeline (\<^theory_text>\<open>Timeline_Tasks\<close>, from \<open>timeline.rs\<close>) obey one contract, the locale
  \<open>task_registry\<close> of \<^theory_text>\<open>Task_Registry\<close>.
  \<^theory_text>\<open>Left_Rooms\<close> is \<open>leftrooms.rs\<close>: what a start may purge, by the history.  \<^theory_text>\<open>Location\<close> is
  \<open>location.rs\<close>: points, the tiles of the map card and their files, the position sent as a message, and the live
  shares.  \<^theory_text>\<open>Media_Cache\<close> is the cache of
  \<open>media.rs\<close> and one download, \<^theory_text>\<open>Link_Preview\<close> is \<open>linkpreview.rs\<close>, \<^theory_text>\<open>Private_Lists\<close> is \<open>private.rs\<close> with
  its commands in \<open>runtime.rs\<close>, \<^theory_text>\<open>Net_Watch\<close> is \<open>netwatch.rs\<close> above the system calls.

  \<^bold>\<open>Modelling.\<close>  Strings are lists of numbers: UTF-16 units in the pages, Unicode scalars in the core;
  \<^theory_text>\<open>Markup_Output\<close> converts.  Counters and instants are natural numbers; the code's are wide enough, and
  where they saturate or are bounded the model does so.  State is passed explicitly; what runs side by
  side is a list of events that the properties quantify over.  Loops are total functions with their
  termination proofs; no fuel is used apart from the program's own bounds (five pages, eight levels of
  markers, 64 KiB of input and 96 KiB of output of the writer - the property that the output is well
  formed asks for a tree whose weight fits, and \<open>cap_leaves_tag_open\<close> shows why).

  \<^bold>\<open>Parameters\<close> stand for what is not in the repository: the tree of the HTML parser, the cipher and the
  decoders of the SDK, base64, the digests and the hasher, the answers of the file system, of SQLite and of
  the server, the text item that hit-tests links, the provider of pictures, the translation catalogue, what
  the SDK makes of poll responses and knows of a user, the beacon events, the parser of addresses, and the
  reading, printing and projection of floating-point numbers.

  \<^bold>\<open>Flaws.\<close>  Where the code does not do what a comment says, a lemma shows it at a concrete input:
  \<open>cap_leaves_tag_open\<close>, \<open>lag_over_unreadable_store\<close>, \<open>unseen_return_costs_history\<close>, \<open>unrecorded_pusher\<close>, \<open>rebuild_over_empty_store\<close>, \<open>failed_check_forgets_own_end\<close>, \<open>stale_claim_hides_debt\<close>,
  \<open>repeated_call_rings_again\<close>, \<open>refused_purge_costs_history\<close>, \<open>late_ask_lost\<close>, \<open>sweep_drops_newest\<close>,
  \<open>cached_past_limit\<close>, \<open>full_memory_starts_over\<close>.

  \<^bold>\<open>Not modelled\<close>: the QML pages and the C++ side (declarative or toolkit code); the modules of the core
  that make one SDK request per command and encode its answer; the rows of timelines, verification, sign-in over the
  network and the room list, whose state is the SDK's; what a call sends; permission bits, network
  traffic and time beyond instants.

  \<^bold>\<open>Next\<close>: what a pushed event may show, and the pages of the room list.
\<close>

end
